(* ===== verification/Go_Prelude.thy ===== *)
theory Go_Prelude
  imports Main "HOL-Library.Word" "HOL-Library.List_Lexorder" "HOL-Library.Multiset"
begin

text \<open>
  Shared vocabulary of the development: the Go machine types the sources use, byte encodings
  (\<open>encoding/binary\<close>), byte-string comparison (\<open>bytes.Compare\<close>), errors as values of a sum
  type, and the generic lemmas the component theories rest on.

  Unsigned Go integers are words of their width.  Signed Go integers (\<open>int32\<close>, \<open>int64\<close>) are
  HOL integers; every arithmetic operation whose overflow the source could observe is wrapped
  explicitly with \<open>wrap32\<close> or \<open>wrap64\<close>.  A \<open>chainhash.Hash\<close> (\<open>[32]byte\<close>) is a 256-bit
  word whose bytes, in array order, are \<open>hash_bytes\<close>.
\<close>

named_theorems byte_simps "facts on byte encodings"
named_theorems err_simps "facts on the error monad"

section \<open>Machine types\<close>

type_synonym byte = "8 word"
type_synonym bytes = "8 word list"
type_synonym u16 = "16 word"
type_synonym u32 = "32 word"
type_synonym u64 = "64 word"
type_synonym int32 = int
type_synonym int64 = int
type_synonym hash = "256 word"

definition wrap32 :: "int \<Rightarrow> int32" where
  "wrap32 x = signed_take_bit 31 x"

definition wrap64 :: "int \<Rightarrow> int64" where
  "wrap64 x = signed_take_bit 63 x"

definition is_int32 :: "int \<Rightarrow> bool" where
  "is_int32 x \<longleftrightarrow> - (2 ^ 31) \<le> x \<and> x < 2 ^ 31"

definition is_int64 :: "int \<Rightarrow> bool" where
  "is_int64 x \<longleftrightarrow> - (2 ^ 63) \<le> x \<and> x < 2 ^ 63"

lemma wrap32_id: "is_int32 x \<Longrightarrow> wrap32 x = x"
  unfolding wrap32_def is_int32_def by (simp only: signed_take_bit_int_eq_self_iff)

lemma wrap64_id: "is_int64 x \<Longrightarrow> wrap64 x = x"
  unfolding wrap64_def is_int64_def by (simp only: signed_take_bit_int_eq_self_iff)

lemma is_int32_wrap32 [simp, intro]: "is_int32 (wrap32 x)"
  unfolding wrap32_def is_int32_def
  using signed_take_bit_int_greater_eq_minus_exp [of 31 x] signed_take_bit_int_less_exp [of 31 x]
  by simp

lemma is_int64_wrap64 [simp, intro]: "is_int64 (wrap64 x)"
  unfolding wrap64_def is_int64_def
  using signed_take_bit_int_greater_eq_minus_exp [of 63 x] signed_take_bit_int_less_exp [of 63 x]
  by simp

text \<open>Go's integer division truncates towards zero.\<close>

definition go_quot :: "int \<Rightarrow> int \<Rightarrow> int" where
  "go_quot a b = sgn a * sgn b * (\<bar>a\<bar> div \<bar>b\<bar>)"

lemma go_quot_nonneg [simp]: "0 \<le> a \<Longrightarrow> 0 < b \<Longrightarrow> go_quot a b = a div b"
  by (cases "a = 0") (simp_all add: go_quot_def)

section \<open>Errors as values\<close>

text \<open>
  A Go function returning \<open>(T, error)\<close> is a function into \<open>'e + 'a\<close>; \<open>Inl\<close> is the error.
  \<open>bind_r\<close> is the \<open>if err != nil { return err }\<close> of the sources.
\<close>

definition bind_r :: "'e + 'a \<Rightarrow> ('a \<Rightarrow> 'e + 'b) \<Rightarrow> 'e + 'b" where
  "bind_r m f = (case m of Inl e \<Rightarrow> Inl e | Inr x \<Rightarrow> f x)"

definition guard_r :: "bool \<Rightarrow> 'e \<Rightarrow> 'e + unit" where
  "guard_r b e = (if b then Inr () else Inl e)"

definition is_ok :: "'e + 'a \<Rightarrow> bool" where
  "is_ok m \<longleftrightarrow> (case m of Inl _ \<Rightarrow> False | Inr _ \<Rightarrow> True)"

text \<open>A loop that stops at the first error.\<close>

fun fold_r :: "('a \<Rightarrow> 's \<Rightarrow> 'e + 's) \<Rightarrow> 'a list \<Rightarrow> 's \<Rightarrow> 'e + 's" where
  "fold_r f [] s = Inr s"
| "fold_r f (x # xs) s = bind_r (f x s) (fold_r f xs)"

lemma bind_r_Inl [simp, err_simps]: "bind_r (Inl e) f = Inl e"
  by (simp add: bind_r_def)

lemma bind_r_Inr [simp, err_simps]: "bind_r (Inr x) f = f x"
  by (simp add: bind_r_def)

lemma bind_r_eq_Inr [err_simps]: "bind_r m f = Inr y \<longleftrightarrow> (\<exists>x. m = Inr x \<and> f x = Inr y)"
  by (cases m) auto

lemma bind_r_eq_Inl [err_simps]:
  "bind_r m f = Inl e \<longleftrightarrow> m = Inl e \<or> (\<exists>x. m = Inr x \<and> f x = Inl e)"
  by (cases m) auto

lemma bind_r_assoc: "bind_r (bind_r m f) g = bind_r m (\<lambda>x. bind_r (f x) g)"
  by (cases m) auto

lemma bind_r_cong [fundef_cong]:
  "m = m' \<Longrightarrow> (\<And>y. m' = Inr y \<Longrightarrow> f y = g y) \<Longrightarrow> bind_r m f = bind_r m' g"
  by (cases m') auto

lemma guard_r_True [simp]: "guard_r True e = Inr ()"
  by (simp add: guard_r_def)

lemma guard_r_False [simp]: "guard_r False e = Inl e"
  by (simp add: guard_r_def)

lemma guard_r_eq_Inr [err_simps]: "guard_r b e = Inr u \<longleftrightarrow> b"
  by (simp add: guard_r_def)

lemma guard_r_eq_Inl [err_simps]: "guard_r b e = Inl e' \<longleftrightarrow> \<not> b \<and> e' = e"
  by (auto simp: guard_r_def)

lemma is_ok_Inr [simp]: "is_ok (Inr x)"
  by (simp add: is_ok_def)

lemma is_ok_Inl [simp]: "\<not> is_ok (Inl e)"
  by (simp add: is_ok_def)

lemma is_ok_iff: "is_ok m \<longleftrightarrow> (\<exists>x. m = Inr x)"
  by (cases m) auto

lemma is_ok_bind_r [err_simps]: "is_ok (bind_r m f) \<longleftrightarrow> (\<exists>x. m = Inr x \<and> is_ok (f x))"
  by (cases m) auto

lemma is_ok_guard_r [simp]: "is_ok (guard_r b e) \<longleftrightarrow> b"
  by (simp add: guard_r_def)

lemma fold_r_append:
  "fold_r f (xs @ ys) s = bind_r (fold_r f xs s) (fold_r f ys)"
  by (induction xs arbitrary: s) (auto simp: bind_r_assoc intro!: bind_r_cong)

lemma fold_r_invariant:
  assumes "fold_r f xs s = Inr t" and "P s"
    and "\<And>x s t. x \<in> set xs \<Longrightarrow> P s \<Longrightarrow> f x s = Inr t \<Longrightarrow> P t"
  shows "P t"
  using assms
proof (induction xs arbitrary: s)
  case (Cons x xs)
  from Cons.prems(1) obtain s' where "f x s = Inr s'" and "fold_r f xs s' = Inr t"
    by (auto simp: bind_r_eq_Inr)
  then show ?case
    using Cons.IH [of s'] Cons.prems(2,3) by (meson list.set_intros)
qed simp

text \<open>
  A loop that simulates a fold of a specification: \<open>fold_pre\<close> says that the precondition of each
  step holds where the specification stands when the step is taken.
\<close>

fun fold_pre :: "('x \<Rightarrow> 'a \<Rightarrow> bool) \<Rightarrow> ('x \<Rightarrow> 'a \<Rightarrow> 'a) \<Rightarrow> 'x list \<Rightarrow> 'a \<Rightarrow> bool" where
  "fold_pre P g [] a = True"
| "fold_pre P g (x # xs) a = (P x a \<and> fold_pre P g xs (g x a))"

lemma fold_r_refines:
  assumes "\<And>x s a. x \<in> set xs \<Longrightarrow> R s a \<Longrightarrow> P x a \<Longrightarrow> \<exists>s'. f x s = Inr s' \<and> R s' (g x a)"
    and "fold_pre P g xs a" and "R s a"
  shows "\<exists>s'. fold_r f xs s = Inr s' \<and> R s' (fold g xs a)"
  using assms
proof (induction xs arbitrary: s a)
  case (Cons x xs)
  from Cons.prems(1) [of x s a] Cons.prems(2,3)
  obtain s1 where "f x s = Inr s1" and R1: "R s1 (g x a)" by auto
  moreover have "\<exists>s'. fold_r f xs s1 = Inr s' \<and> R s' (fold g xs (g x a))"
    using Cons.IH [OF Cons.prems(1) _ R1] Cons.prems(2) by auto
  ultimately show ?case by simp
qed simp

lemma fold_r_undo:
  assumes "\<And>x s a. x \<in> set xs \<Longrightarrow> P x a \<Longrightarrow> R s (g x a) \<Longrightarrow> \<exists>s'. u x s = Inr s' \<and> R s' a"
    and "fold_pre P g xs a" and "R s (fold g xs a)"
  shows "\<exists>s'. fold_r u (rev xs) s = Inr s' \<and> R s' a"
  using assms
proof (induction xs arbitrary: s a)
  case (Cons x xs)
  have "\<exists>s1. fold_r u (rev xs) s = Inr s1 \<and> R s1 (g x a)"
    using Cons.IH [of "g x a" s] Cons.prems by auto
  then obtain s1 where "fold_r u (rev xs) s = Inr s1" and "R s1 (g x a)" by auto
  then show ?case
    using Cons.prems(1) [of x a s1] Cons.prems(2) by (auto simp: fold_r_append)
qed simp

section \<open>Little-endian and big-endian encodings\<close>

fun le_bytes :: "nat \<Rightarrow> nat \<Rightarrow> bytes" where
  "le_bytes 0 x = []"
| "le_bytes (Suc n) x = of_nat x # le_bytes n (x div 256)"

fun le_val :: "bytes \<Rightarrow> nat" where
  "le_val [] = 0"
| "le_val (b # bs) = unat b + 256 * le_val bs"

definition be_bytes :: "nat \<Rightarrow> nat \<Rightarrow> bytes" where
  "be_bytes n x = rev (le_bytes n x)"

definition be_val :: "bytes \<Rightarrow> nat" where
  "be_val bs = le_val (rev bs)"

definition hash_bytes :: "hash \<Rightarrow> bytes" where
  "hash_bytes h = le_bytes 32 (unat h)"

definition hash_of_bytes :: "bytes \<Rightarrow> hash" where
  "hash_of_bytes bs = of_nat (le_val bs)"

lemma length_le_bytes [simp, byte_simps]: "length (le_bytes n x) = n"
  by (induction n arbitrary: x) auto

lemma length_be_bytes [simp, byte_simps]: "length (be_bytes n x) = n"
  by (simp add: be_bytes_def)

lemma length_hash_bytes [simp, byte_simps]: "length (hash_bytes h) = 32"
  by (simp add: hash_bytes_def)

lemma unat_of_nat_byte: "unat (of_nat x :: byte) = x mod 256"
  by (simp add: unat_of_nat)

lemma unat_byte_bound: "unat (b :: byte) < 256"
  using unsigned_less [of b, where ?'a = nat] by simp

lemma le_val_le_bytes [byte_simps]: "le_val (le_bytes n x) = x mod 256 ^ n"
proof (induction n arbitrary: x)
  case (Suc n)
  have "x mod (256 * 256 ^ n) = 256 * (x div 256 mod 256 ^ n) + x mod 256"
    by (rule mod_mult2_eq)
  with Suc show ?case by (simp add: unat_of_nat_byte)
qed simp

lemma le_val_bound: "le_val bs < 256 ^ length bs"
proof (induction bs)
  case (Cons b bs)
  have "unat b < 256" by (rule unat_byte_bound)
  moreover have "256 * le_val bs + 256 \<le> 256 * 256 ^ length bs"
    using Cons by (metis Suc_leI mult_Suc_right add.commute mult_le_mono2)
  ultimately show ?case by simp
qed simp

lemma le_bytes_le_val [byte_simps]: "le_bytes (length bs) (le_val bs) = bs"
proof (induction bs)
  case (Cons b bs)
  have b: "unat b < 256" by (rule unat_byte_bound)
  then have "(unat b + 256 * le_val bs) div 256 = le_val bs" by simp
  moreover have "(of_nat (unat b + 256 * le_val bs) :: byte) = b"
    using b by (simp only: word_unat_eq_iff unat_of_nat_byte) simp
  ultimately show ?case using Cons by simp
qed simp

lemma be_val_be_bytes [byte_simps]: "be_val (be_bytes n x) = x mod 256 ^ n"
  by (simp add: be_val_def be_bytes_def le_val_le_bytes)

lemma be_bytes_be_val [byte_simps]: "be_bytes (length bs) (be_val bs) = bs"
  using le_bytes_le_val [of "rev bs"] by (simp add: be_bytes_def be_val_def)

lemma be_val_bound: "be_val bs < 256 ^ length bs"
  using le_val_bound [of "rev bs"] by (simp add: be_val_def)

lemma le_bytes_inject:
  assumes "x < 256 ^ n" and "y < 256 ^ n"
  shows "le_bytes n x = le_bytes n y \<longleftrightarrow> x = y"
  using assms by (metis le_val_le_bytes mod_less)

lemma be_bytes_inject:
  assumes "x < 256 ^ n" and "y < 256 ^ n"
  shows "be_bytes n x = be_bytes n y \<longleftrightarrow> x = y"
  using assms by (simp add: be_bytes_def le_bytes_inject)

lemma unat_u32_bound: "unat (x :: u32) < 256 ^ 4"
  using unsigned_less [of x, where ?'a = nat] by simp

lemma unat_u64_bound: "unat (x :: u64) < 256 ^ 8"
  using unsigned_less [of x, where ?'a = nat] by simp

lemma unat_hash_bound: "unat (h :: hash) < 256 ^ 32"
  using unsigned_less [of h, where ?'a = nat] by simp

lemma hash_of_bytes_hash_bytes [simp, byte_simps]: "hash_of_bytes (hash_bytes h) = h"
  using unat_hash_bound [of h]
  by (simp only: hash_of_bytes_def hash_bytes_def le_val_le_bytes mod_less of_nat_unat ucast_id)

lemma hash_bytes_hash_of_bytes [byte_simps]:
  assumes "length bs = 32"
  shows "hash_bytes (hash_of_bytes bs) = bs"
proof -
  have "le_val bs < 2 ^ LENGTH(256)"
    using le_val_bound [of bs] assms by simp
  then have "unat (of_nat (le_val bs) :: hash) = le_val bs"
    by (simp only: unat_of_nat mod_less)
  then show ?thesis
    using le_bytes_le_val [of bs] assms by (simp only: hash_of_bytes_def hash_bytes_def)
qed

lemma hash_bytes_inject [simp]: "hash_bytes a = hash_bytes b \<longleftrightarrow> a = b"
  by (metis hash_of_bytes_hash_bytes)

section \<open>Lexicographic order of byte strings\<close>

text \<open>\<open>bytes.Compare\<close>: the sign of the lexicographic comparison.\<close>

fun bytes_compare :: "bytes \<Rightarrow> bytes \<Rightarrow> int" where
  "bytes_compare [] [] = 0"
| "bytes_compare [] (b # bs) = -1"
| "bytes_compare (a # as) [] = 1"
| "bytes_compare (a # as) (b # bs) =
     (if a < b then -1 else if b < a then 1 else bytes_compare as bs)"

lemma bytes_compare_less [byte_simps]: "bytes_compare a b < 0 \<longleftrightarrow> a < b"
  by (induction a b rule: bytes_compare.induct) (auto simp: not_less)

lemma bytes_compare_eq [byte_simps]: "bytes_compare a b = 0 \<longleftrightarrow> a = b"
  by (induction a b rule: bytes_compare.induct) auto

lemma bytes_compare_greater [byte_simps]: "0 < bytes_compare a b \<longleftrightarrow> b < a"
  by (induction a b rule: bytes_compare.induct) (auto simp: not_less)

lemma less_append_same_length:
  fixes a b c d :: "'a :: linorder list"
  assumes "length a = length b"
  shows "a @ c < b @ d \<longleftrightarrow> a < b \<or> a = b \<and> c < d"
  using assms by (induction a b rule: list_induct2) auto

lemma rev_le_bytes_Suc: "be_bytes (Suc n) x = be_bytes n (x div 256) @ [of_nat x]"
  by (simp add: be_bytes_def)

lemma div_mod_less_iff:
  fixes q p r s :: nat
  assumes "r < 256" and "s < 256"
  shows "q < p \<or> q = p \<and> r < s \<longleftrightarrow> 256 * q + r < 256 * p + s"
  using assms by (cases q p rule: linorder_cases) auto

lemma be_bytes_less [byte_simps]:
  assumes "x < 256 ^ n" and "y < 256 ^ n"
  shows "be_bytes n x < be_bytes n y \<longleftrightarrow> x < y"
  using assms
proof (induction n arbitrary: x y)
  case 0
  then show ?case by (simp add: be_bytes_def)
next
  case (Suc n)
  have x: "x div 256 < 256 ^ n" and y: "y div 256 < 256 ^ n"
    using Suc.prems by (simp_all add: less_mult_imp_div_less mult.commute)
  have last: "(of_nat x :: byte) < of_nat y \<longleftrightarrow> x mod 256 < y mod 256"
    by (simp add: word_less_nat_alt unat_of_nat_byte)
  have "be_bytes (Suc n) x < be_bytes (Suc n) y \<longleftrightarrow>
      x div 256 < y div 256 \<or> x div 256 = y div 256 \<and> x mod 256 < y mod 256"
    by (simp only: rev_le_bytes_Suc less_append_same_length length_be_bytes
        Suc.IH [OF x y] be_bytes_inject [OF x y]) (simp add: last)
  also have "\<dots> \<longleftrightarrow> x < y"
    using div_mod_less_iff [of "x mod 256" "y mod 256" "x div 256" "y div 256"] by simp
  finally show ?case .
qed

end
