(* ===== verification/Sha256.thy ===== *)
theory Sha256
  imports Go_Prelude
begin

text \<open>
  The SHA-256 function of Go's standard library (\<open>crypto/sha256\<close>), which the sources call for
  the REAP marker digest, for the seed of a MuHash element and for the digest of the MuHash
  accumulator, and the double SHA-256 of \<open>chaincfg/chainhash\<close>.  Nothing in the development
  depends on more than its result being 32 bytes long, except where a concrete input is evaluated.
\<close>

unbundle bit_operations_syntax

definition rotr32 :: "nat \<Rightarrow> u32 \<Rightarrow> u32" where
  "rotr32 n x = drop_bit n x OR push_bit (32 - n) x"

text \<open>
  The constants are the fractional parts, to 32 bits, of the cube roots of the first 64 primes and of
  the square roots of the first eight.  \<open>floor_root\<close> finds the root bit by bit; conversion to 32 bits
  drops the integral part.
\<close>

definition floor_root :: "nat \<Rightarrow> nat \<Rightarrow> nat" where
  "floor_root k n = fold (\<lambda>b r. if (r + 2 ^ b) ^ k \<le> n then r + 2 ^ b else r) (rev [0..<38]) 0"

definition sha_primes :: "nat list" where
  "sha_primes = [2, 3, 5, 7, 11, 13, 17, 19, 23, 29, 31, 37, 41, 43, 47, 53,
     59, 61, 67, 71, 73, 79, 83, 89, 97, 101, 103, 107, 109, 113, 127, 131,
     137, 139, 149, 151, 157, 163, 167, 173, 179, 181, 191, 193, 197, 199, 211, 223,
     227, 229, 233, 239, 241, 251, 257, 263, 269, 271, 277, 281, 283, 293, 307, 311]"

definition sha_K :: "u32 list" where
  "sha_K = map (\<lambda>p. of_nat (floor_root 3 (p * 2 ^ 96))) sha_primes"

definition sha_H0 :: "u32 list" where
  "sha_H0 = map (\<lambda>p. of_nat (floor_root 2 (p * 2 ^ 64))) (take 8 sha_primes)"

definition sha_sigma0 :: "u32 \<Rightarrow> u32" where
  "sha_sigma0 x = rotr32 7 x XOR rotr32 18 x XOR drop_bit 3 x"

definition sha_sigma1 :: "u32 \<Rightarrow> u32" where
  "sha_sigma1 x = rotr32 17 x XOR rotr32 19 x XOR drop_bit 10 x"

definition sha_Sigma0 :: "u32 \<Rightarrow> u32" where
  "sha_Sigma0 x = rotr32 2 x XOR rotr32 13 x XOR rotr32 22 x"

definition sha_Sigma1 :: "u32 \<Rightarrow> u32" where
  "sha_Sigma1 x = rotr32 6 x XOR rotr32 11 x XOR rotr32 25 x"

text \<open>The message schedule, newest word first.\<close>

fun sha_extend :: "nat \<Rightarrow> u32 list \<Rightarrow> u32 list" where
  "sha_extend 0 ws = ws"
| "sha_extend (Suc n) ws =
     sha_extend n
       ((sha_sigma1 (ws ! 1) + ws ! 6 + sha_sigma0 (ws ! 14) + ws ! 15) # ws)"

fun be_words :: "bytes \<Rightarrow> u32 list" where
  "be_words (a # b # c # d # bs) = of_nat (be_val [a, b, c, d]) # be_words bs"
| "be_words _ = []"

definition sha_schedule :: "bytes \<Rightarrow> u32 list" where
  "sha_schedule blk = rev (sha_extend 48 (rev (be_words blk)))"

fun sha_round :: "u32 \<times> u32 \<Rightarrow> u32 list \<Rightarrow> u32 list" where
  "sha_round (k, w) [a, b, c, d, e, f, g, h] =
     (let t1 = h + sha_Sigma1 e + ((e AND f) XOR (NOT e AND g)) + k + w;
          t2 = sha_Sigma0 a + ((a AND b) XOR (a AND c) XOR (b AND c))
      in [t1 + t2, a, b, c, d + t1, e, f, g])"
| "sha_round _ s = s"

definition sha_compress :: "bytes \<Rightarrow> u32 list \<Rightarrow> u32 list" where
  "sha_compress blk h = map2 (+) h (fold sha_round (zip sha_K (sha_schedule blk)) h)"

definition sha_pad :: "bytes \<Rightarrow> bytes" where
  "sha_pad m = m @ [0x80] @ replicate ((119 - length m mod 64) mod 64) 0
                 @ be_bytes 8 (8 * length m)"

fun chunks64 :: "nat \<Rightarrow> bytes \<Rightarrow> bytes list" where
  "chunks64 0 bs = []"
| "chunks64 (Suc n) bs = take 64 bs # chunks64 n (drop 64 bs)"

definition sha256_bytes :: "bytes \<Rightarrow> bytes" where
  "sha256_bytes m =
     (let p = sha_pad m
      in concat (map (\<lambda>w. be_bytes 4 (unat w))
           (fold sha_compress (chunks64 (length p div 64) p) sha_H0)))"

text \<open>\<open>sha256.Sum256\<close>: the digest as a 32-byte array.\<close>

definition sha256_Sum256 :: "bytes \<Rightarrow> hash" where
  "sha256_Sum256 m = hash_of_bytes (sha256_bytes m)"

lemma length_sha_round: "length s = 8 \<Longrightarrow> length (sha_round kw s) = 8"
  by (induction kw s rule: sha_round.induct) (auto simp: Let_def)

lemma length_fold_sha_round: "length s = 8 \<Longrightarrow> length (fold sha_round kws s) = 8"
  by (induction kws arbitrary: s) (auto simp: length_sha_round)

lemma length_sha_compress: "length h = 8 \<Longrightarrow> length (sha_compress blk h) = 8"
  by (simp add: sha_compress_def length_fold_sha_round)

lemma length_fold_sha_compress: "length h = 8 \<Longrightarrow> length (fold sha_compress bs h) = 8"
  by (induction bs arbitrary: h) (auto simp: length_sha_compress)

lemma length_concat_be_words:
  "length (concat (map (\<lambda>w :: u32. be_bytes 4 (unat w)) ws)) = 4 * length ws"
  by (induction ws) auto

lemma length_sha256_bytes [simp, byte_simps]: "length (sha256_bytes m) = 32"
  by (simp add: sha256_bytes_def Let_def length_concat_be_words length_fold_sha_compress sha_H0_def sha_primes_def)

lemma hash_bytes_sha256 [simp, byte_simps]: "hash_bytes (sha256_Sum256 m) = sha256_bytes m"
  by (simp add: sha256_Sum256_def hash_bytes_hash_of_bytes)

end
