(* ===== verification/Wire_Tx.thy ===== *)
theory Wire_Tx
  imports Sha256
begin

text \<open>
  Transactions and blocks as in \<open>wire/msgtx.go\<close>, \<open>wire/blockheader.go\<close> and \<open>btcutil\<close>: the data
  types, variable-length integers (\<open>wire/common.go\<close>), the transaction encoding and its size
  functions, transaction and block hashes, the weight of \<open>blockchain/weight.go\<close>, and the coinbase
  test of \<open>blockchain/validate.go\<close>.

  Writing to an in-memory buffer does not fail, so an encoder is a function to the bytes it writes;
  a reader takes the remaining input and returns the value and the rest.
\<close>

section \<open>Data\<close>

record OutPoint =
  Hash :: hash
  Index :: u32

record TxIn =
  PreviousOutPoint :: OutPoint
  SignatureScript :: bytes
  Witness :: "bytes list"
  Sequence :: u32

record TxOut =
  Value :: int64
  PkScript :: bytes

record MsgTx =
  Version :: int32
  TxIn :: "TxIn list"
  TxOut :: "TxOut list"
  LockTime :: u32

record BlockHeader =
  BlockVersion :: int32
  PrevBlock :: hash
  MerkleRoot :: hash
  Timestamp :: u32
  Bits :: u32
  Nonce :: u32

text \<open>\<open>btcutil.Block\<close>: a block with its height in the chain.\<close>

record Block =
  Header :: BlockHeader
  Transactions :: "MsgTx list"
  Height :: int32

definition NewMsgTx :: "int32 \<Rightarrow> MsgTx" where
  "NewMsgTx version = \<lparr>Version = version, TxIn = [], TxOut = [], LockTime = 0\<rparr>"

definition AddTxIn :: "TxIn \<Rightarrow> MsgTx \<Rightarrow> MsgTx" where
  "AddTxIn ti msg = msg\<lparr>TxIn := TxIn msg @ [ti]\<rparr>"

definition AddTxOut :: "TxOut \<Rightarrow> MsgTx \<Rightarrow> MsgTx" where
  "AddTxOut to msg = msg\<lparr>TxOut := TxOut msg @ [to]\<rparr>"

definition IsCoinBaseTx :: "MsgTx \<Rightarrow> bool" where
  "IsCoinBaseTx msgTx =
     (case TxIn msgTx of
        [ti] \<Rightarrow> Index (PreviousOutPoint ti) = 0xffffffff \<and> Hash (PreviousOutPoint ti) = 0
      | _ \<Rightarrow> False)"

section \<open>Variable-length integers\<close>

datatype wire_error = ErrEOF | ErrNonCanonicalVarInt

definition WriteVarInt :: "u64 \<Rightarrow> bytes" where
  "WriteVarInt val =
     (if val < 0xfd then le_bytes 1 (unat val)
      else if val \<le> 0xffff then 0xfd # le_bytes 2 (unat val)
      else if val \<le> 0xffffffff then 0xfe # le_bytes 4 (unat val)
      else 0xff # le_bytes 8 (unat val))"

definition VarIntSerializeSize :: "u64 \<Rightarrow> nat" where
  "VarIntSerializeSize val =
     (if val < 0xfd then 1 else if val \<le> 0xffff then 3 else if val \<le> 0xffffffff then 5 else 9)"

text \<open>\<open>io.ReadFull\<close> of \<open>n\<close> bytes.\<close>

definition ReadFull :: "nat \<Rightarrow> bytes \<Rightarrow> wire_error + (bytes \<times> bytes)" where
  "ReadFull n r = (if length r < n then Inl ErrEOF else Inr (take n r, drop n r))"

definition readCanonical :: "nat \<Rightarrow> u64 \<Rightarrow> bytes \<Rightarrow> wire_error + (u64 \<times> bytes)" where
  "readCanonical n least r =
     bind_r (ReadFull n r) (\<lambda>(buf, r').
       let rv = of_nat (le_val buf) in
       if rv < least then Inl ErrNonCanonicalVarInt else Inr (rv, r'))"

definition ReadVarInt :: "bytes \<Rightarrow> wire_error + (u64 \<times> bytes)" where
  "ReadVarInt r =
     bind_r (ReadFull 1 r) (\<lambda>(buf, r').
       let discriminant = hd buf in
       if discriminant = 0xff then readCanonical 8 0x100000000 r'
       else if discriminant = 0xfe then readCanonical 4 0x10000 r'
       else if discriminant = 0xfd then readCanonical 2 0xfd r'
       else Inr (ucast discriminant, r'))"

definition WriteVarBytes :: "bytes \<Rightarrow> bytes" where
  "WriteVarBytes bs = WriteVarInt (of_nat (length bs)) @ bs"

section \<open>Encoding\<close>

datatype MessageEncoding = BaseEncoding | WitnessEncoding

definition writeOutPoint :: "OutPoint \<Rightarrow> bytes" where
  "writeOutPoint op = hash_bytes (Hash op) @ le_bytes 4 (unat (Index op))"

definition writeTxIn :: "TxIn \<Rightarrow> bytes" where
  "writeTxIn ti = writeOutPoint (PreviousOutPoint ti) @ WriteVarBytes (SignatureScript ti)
     @ le_bytes 4 (unat (Sequence ti))"

definition WriteTxOut :: "TxOut \<Rightarrow> bytes" where
  "WriteTxOut to = le_bytes 8 (unat (of_int (Value to) :: u64)) @ WriteVarBytes (PkScript to)"

definition writeTxWitness :: "bytes list \<Rightarrow> bytes" where
  "writeTxWitness wit = WriteVarInt (of_nat (length wit)) @ concat (map WriteVarBytes wit)"

definition HasWitness :: "MsgTx \<Rightarrow> bool" where
  "HasWitness msg \<longleftrightarrow> list_ex (\<lambda>ti. Witness ti \<noteq> []) (TxIn msg)"

definition btcEncode :: "MessageEncoding \<Rightarrow> MsgTx \<Rightarrow> bytes" where
  "btcEncode enc msg =
     (let doWitness = (enc = WitnessEncoding \<and> HasWitness msg)
      in le_bytes 4 (unat (of_int (Version msg) :: u32))
         @ (if doWitness then [0x00, 0x01] else [])
         @ WriteVarInt (of_nat (length (TxIn msg))) @ concat (map writeTxIn (TxIn msg))
         @ WriteVarInt (of_nat (length (TxOut msg))) @ concat (map WriteTxOut (TxOut msg))
         @ (if doWitness then concat (map (\<lambda>ti. writeTxWitness (Witness ti)) (TxIn msg)) else [])
         @ le_bytes 4 (unat (LockTime msg)))"

definition Serialize :: "MsgTx \<Rightarrow> bytes" where
  "Serialize msg = btcEncode WitnessEncoding msg"

definition SerializeNoWitness :: "MsgTx \<Rightarrow> bytes" where
  "SerializeNoWitness msg = btcEncode BaseEncoding msg"

definition writeBlockHeader :: "BlockHeader \<Rightarrow> bytes" where
  "writeBlockHeader bh = le_bytes 4 (unat (of_int (BlockVersion bh) :: u32))
     @ hash_bytes (PrevBlock bh) @ hash_bytes (MerkleRoot bh)
     @ le_bytes 4 (unat (Timestamp bh)) @ le_bytes 4 (unat (Bits bh))
     @ le_bytes 4 (unat (Nonce bh))"

section \<open>Hashes\<close>

definition DoubleHashRaw :: "bytes \<Rightarrow> hash" where
  "DoubleHashRaw bs = sha256_Sum256 (sha256_bytes bs)"

definition TxHash :: "MsgTx \<Rightarrow> hash" where
  "TxHash msg = DoubleHashRaw (SerializeNoWitness msg)"

definition WitnessHash :: "MsgTx \<Rightarrow> hash" where
  "WitnessHash msg = (if HasWitness msg then DoubleHashRaw (Serialize msg) else TxHash msg)"

definition BlockHash :: "Block \<Rightarrow> hash" where
  "BlockHash blk = DoubleHashRaw (writeBlockHeader (Header blk))"

section \<open>Sizes and weight\<close>

definition TxIn_SerializeSize :: "TxIn \<Rightarrow> nat" where
  "TxIn_SerializeSize t =
     40 + VarIntSerializeSize (of_nat (length (SignatureScript t))) + length (SignatureScript t)"

definition TxOut_SerializeSize :: "TxOut \<Rightarrow> nat" where
  "TxOut_SerializeSize t =
     8 + VarIntSerializeSize (of_nat (length (PkScript t))) + length (PkScript t)"

definition TxWitness_SerializeSize :: "bytes list \<Rightarrow> nat" where
  "TxWitness_SerializeSize t = VarIntSerializeSize (of_nat (length t))
     + sum_list (map (\<lambda>item. VarIntSerializeSize (of_nat (length item)) + length item) t)"

definition baseSize :: "MsgTx \<Rightarrow> nat" where
  "baseSize msg = 8 + VarIntSerializeSize (of_nat (length (TxIn msg)))
     + VarIntSerializeSize (of_nat (length (TxOut msg)))
     + sum_list (map TxIn_SerializeSize (TxIn msg))
     + sum_list (map TxOut_SerializeSize (TxOut msg))"

definition SerializeSize :: "MsgTx \<Rightarrow> nat" where
  "SerializeSize msg = baseSize msg +
     (if HasWitness msg
      then 2 + sum_list (map (\<lambda>ti. TxWitness_SerializeSize (Witness ti)) (TxIn msg)) else 0)"

definition SerializeSizeStripped :: "MsgTx \<Rightarrow> nat" where
  "SerializeSizeStripped msg = baseSize msg"

definition WitnessScaleFactor :: nat where "WitnessScaleFactor = 4"

definition GetTransactionWeight :: "MsgTx \<Rightarrow> int64" where
  "GetTransactionWeight tx =
     int (SerializeSizeStripped tx * (WitnessScaleFactor - 1) + SerializeSize tx)"

section \<open>Sizes agree with the encoders\<close>

lemma length_WriteVarInt [simp, byte_simps]: "length (WriteVarInt v) = VarIntSerializeSize v"
  by (simp add: WriteVarInt_def VarIntSerializeSize_def)

lemma length_WriteVarBytes [simp, byte_simps]:
  "length (WriteVarBytes bs) = VarIntSerializeSize (of_nat (length bs)) + length bs"
  by (simp add: WriteVarBytes_def)

lemma length_writeOutPoint [simp, byte_simps]: "length (writeOutPoint op) = 36"
  by (simp add: writeOutPoint_def)

lemma length_writeTxIn [simp, byte_simps]: "length (writeTxIn ti) = TxIn_SerializeSize ti"
  by (simp add: writeTxIn_def TxIn_SerializeSize_def)

lemma length_WriteTxOut [simp, byte_simps]: "length (WriteTxOut t) = TxOut_SerializeSize t"
  by (simp add: WriteTxOut_def TxOut_SerializeSize_def)

lemma length_writeTxWitness [simp, byte_simps]:
  "length (writeTxWitness w) = TxWitness_SerializeSize w"
  by (simp add: writeTxWitness_def TxWitness_SerializeSize_def length_concat comp_def)

lemma length_btcEncode_Base [byte_simps]: "length (btcEncode BaseEncoding msg) = baseSize msg"
  by (simp add: btcEncode_def baseSize_def length_concat comp_def)

lemma length_btcEncode_Witness [byte_simps]:
  "length (btcEncode WitnessEncoding msg) = SerializeSize msg"
  by (simp add: btcEncode_def SerializeSize_def baseSize_def length_concat comp_def)

section \<open>Variable-length integers round trip\<close>

lemma ReadFull_append:
  "length a = n \<Longrightarrow> ReadFull n (a @ r) = Inr (a, r)"
  by (auto simp: ReadFull_def)

lemma readCanonical_le_bytes:
  assumes "unat v < 256 ^ n" and "least \<le> v"
  shows "readCanonical n least (le_bytes n (unat v) @ r) = Inr (v, r)"
  using assms by (simp add: readCanonical_def ReadFull_append le_val_le_bytes not_less)

lemma readCanonical_Inr:
  assumes "readCanonical n least r = Inr (v, r')" and "n \<le> 8"
  shows "r = le_bytes n (unat v) @ r' \<and> least \<le> v \<and> unat v < 256 ^ n"
proof -
  have len: "n \<le> length r" and v: "v = of_nat (le_val (take n r))" and r': "r' = drop n r"
    and least: "least \<le> v"
    using assms(1)
    by (auto simp: readCanonical_def ReadFull_def bind_r_eq_Inr Let_def split: if_splits)
  have bound: "le_val (take n r) < 256 ^ n"
    using le_val_bound [of "take n r"] len by simp
  moreover have "(256::nat) ^ n \<le> 256 ^ 8"
    using assms(2) by (intro power_increasing) auto
  ultimately have "unat v = le_val (take n r)"
    by (simp add: v unat_of_nat)
  with bound least show ?thesis
    using le_bytes_le_val [of "take n r"] len by (simp add: r')
qed

lemma unat_ucast_byte: "unat (ucast (b :: byte) :: u64) = unat b"
  using unat_byte_bound [of b] by (simp add: unsigned_ucast_eq take_bit_nat_eq_self)

lemma ucast_of_nat_byte:
  assumes "unat v < 256"
  shows "(ucast (of_nat (unat v) :: byte) :: u64) = v"
  using assms by (simp only: word_unat_eq_iff unat_ucast_byte unat_of_nat_byte mod_less)

lemma ReadVarInt_Cons:
  "ReadVarInt (b # r) =
     (if b = 0xff then readCanonical 8 0x100000000 r
      else if b = 0xfe then readCanonical 4 0x10000 r
      else if b = 0xfd then readCanonical 2 0xfd r
      else Inr (ucast b, r))"
  by (simp add: ReadVarInt_def ReadFull_def Let_def)

lemma ReadVarInt_Nil: "ReadVarInt [] = Inl ErrEOF"
  by (simp add: ReadVarInt_def ReadFull_def)

lemma ReadVarInt_WriteVarInt: "ReadVarInt (WriteVarInt v @ r) = Inr (v, r)"
proof -
  consider (1) "unat v < 0xfd" | (2) "0xfd \<le> unat v" "unat v \<le> 0xffff"
    | (4) "0x10000 \<le> unat v" "unat v \<le> 0xffffffff" | (8) "0x100000000 \<le> unat v"
    by linarith
  then show ?thesis
  proof cases
    case 1
    then have b: "(of_nat (unat v) :: byte) \<notin> {0xff, 0xfe, 0xfd}"
      by (auto simp: word_unat_eq_iff unat_of_nat_byte simp del: of_nat_unat)
    from 1 have "WriteVarInt v = [of_nat (unat v)]"
      by (simp add: WriteVarInt_def word_less_nat_alt)
    with b 1 show ?thesis by (simp add: ReadVarInt_Cons ucast_of_nat_byte del: of_nat_unat)
  next
    case 2
    then have "WriteVarInt v = 0xfd # le_bytes 2 (unat v)"
      by (simp add: WriteVarInt_def word_less_nat_alt word_le_nat_alt)
    with 2 show ?thesis
      by (simp add: ReadVarInt_Cons readCanonical_le_bytes word_le_nat_alt)
  next
    case 4
    then have "WriteVarInt v = 0xfe # le_bytes 4 (unat v)"
      by (simp add: WriteVarInt_def word_less_nat_alt word_le_nat_alt)
    with 4 show ?thesis
      by (simp add: ReadVarInt_Cons readCanonical_le_bytes word_le_nat_alt)
  next
    case 8
    then have "WriteVarInt v = 0xff # le_bytes 8 (unat v)"
      by (simp add: WriteVarInt_def word_less_nat_alt word_le_nat_alt)
    with 8 unat_u64_bound [of v] show ?thesis
      by (simp add: ReadVarInt_Cons readCanonical_le_bytes word_le_nat_alt)
  qed
qed

lemma ReadVarInt_canonical:
  assumes "ReadVarInt s = Inr (v, r)"
  shows "s = WriteVarInt v @ r"
proof (cases s)
  case Nil
  then show ?thesis using assms by (simp add: ReadVarInt_Nil)
next
  case (Cons b s')
  have rd: "ReadVarInt (b # s') = Inr (v, r)" using assms Cons by simp
  consider "b = 0xff" | "b = 0xfe" | "b = 0xfd" | "unat b < 0xfd"
    using unat_byte_bound [of b] by (simp add: word_unat_eq_iff) linarith
  then show ?thesis
  proof cases
    case 1
    with rd have "readCanonical 8 0x100000000 s' = Inr (v, r)" by (simp add: ReadVarInt_Cons)
    from readCanonical_Inr [OF this] show ?thesis
      by (simp add: Cons 1 WriteVarInt_def word_less_nat_alt word_le_nat_alt)
  next
    case 2
    with rd have "readCanonical 4 0x10000 s' = Inr (v, r)" by (simp add: ReadVarInt_Cons)
    from readCanonical_Inr [OF this] show ?thesis
      by (simp add: Cons 2 WriteVarInt_def word_less_nat_alt word_le_nat_alt)
  next
    case 3
    with rd have "readCanonical 2 0xfd s' = Inr (v, r)" by (simp add: ReadVarInt_Cons)
    from readCanonical_Inr [OF this] show ?thesis
      by (simp add: Cons 3 WriteVarInt_def word_less_nat_alt word_le_nat_alt)
  next
    case 4
    then have "b \<notin> {0xff, 0xfe, 0xfd}" by (auto simp: word_unat_eq_iff)
    with rd have v: "v = ucast b" and "r = s'" by (simp_all add: ReadVarInt_Cons)
    moreover have "unat v = unat b" by (simp only: v unat_ucast_byte)
    ultimately show ?thesis
      using 4 by (simp add: Cons WriteVarInt_def word_less_nat_alt)
  qed
qed

end
