(* ===== verification/Kv_Bucket.thy ===== *)
theory Kv_Bucket
  imports Go_Prelude
begin

text \<open>
  The key/value buckets of \<open>database\<close> (\<open>database/interface.go\<close>, implemented by
  \<open>database/ffldb/db.go\<close>) as the index code sees them inside one open, writable transaction:
  \<open>Put\<close>, \<open>Get\<close>, \<open>Delete\<close> and a cursor that visits the pairs in byte order of their keys.
  A bucket is its list of pairs in strictly increasing key order, so that equal contents are equal
  buckets.  The locale \<open>ordered_store\<close> is the interface the index relies on; it is interpreted on
  the bucket operations at the end.
\<close>

section \<open>Buckets and cursors\<close>

type_synonym bucket = "(bytes \<times> bytes) list"

datatype db_error = ErrKeyRequired

text \<open>A cursor is the pairs it has still to visit, the current one first.\<close>

type_synonym cursor = "(bytes \<times> bytes) list"

fun bucket_upd :: "bytes \<Rightarrow> bytes \<Rightarrow> bucket \<Rightarrow> bucket" where
  "bucket_upd k v [] = [(k, v)]"
| "bucket_upd k v ((k', v') # b) =
     (if k < k' then (k, v) # (k', v') # b
      else if k = k' then (k, v) # b
      else (k', v') # bucket_upd k v b)"

fun bucket_del :: "bytes \<Rightarrow> bucket \<Rightarrow> bucket" where
  "bucket_del k [] = []"
| "bucket_del k ((k', v') # b) = (if k = k' then b else (k', v') # bucket_del k b)"

definition bucket_Put :: "bytes \<Rightarrow> bytes \<Rightarrow> bucket \<Rightarrow> db_error + bucket" where
  "bucket_Put k v b = (if k = [] then Inl ErrKeyRequired else Inr (bucket_upd k v b))"

definition bucket_Get :: "bytes \<Rightarrow> bucket \<Rightarrow> bytes option" where
  "bucket_Get k b = (if k = [] then None else map_of b k)"

definition bucket_Delete :: "bytes \<Rightarrow> bucket \<Rightarrow> bucket" where
  "bucket_Delete k b = (if k = [] then b else bucket_del k b)"

definition cursor_First :: "bucket \<Rightarrow> cursor" where
  "cursor_First b = b"

definition cursor_Next :: "cursor \<Rightarrow> cursor" where
  "cursor_Next c = tl c"

definition cursor_Seek :: "bytes \<Rightarrow> bucket \<Rightarrow> cursor" where
  "cursor_Seek k b = dropWhile (\<lambda>kv. fst kv < k) b"

definition cursor_Key :: "cursor \<Rightarrow> bytes option" where
  "cursor_Key c = (case c of [] \<Rightarrow> None | kv # _ \<Rightarrow> Some (fst kv))"

section \<open>The bucket invariant\<close>

text \<open>Keys strictly increasing and never empty.\<close>

definition wf_bucket :: "bucket \<Rightarrow> bool" where
  "wf_bucket b \<longleftrightarrow> sorted_wrt (<) (map fst b) \<and> [] \<notin> fst ` set b"

lemma wf_bucket_Nil [simp]: "wf_bucket []"
  by (simp add: wf_bucket_def)

lemma wf_bucket_Cons:
  "wf_bucket (kv # b) \<longleftrightarrow> fst kv \<noteq> [] \<and> wf_bucket b \<and> (\<forall>k' \<in> fst ` set b. fst kv < k')"
  by (auto simp: wf_bucket_def)

lemma set_bucket_upd_subset: "fst ` set (bucket_upd k v b) = insert k (fst ` set b)"
  by (induction k v b rule: bucket_upd.induct) auto

lemma set_bucket_del_subset: "fst ` set (bucket_del k b) \<subseteq> fst ` set b"
  by (induction k b rule: bucket_del.induct) auto

lemma wf_bucket_upd: "wf_bucket b \<Longrightarrow> k \<noteq> [] \<Longrightarrow> wf_bucket (bucket_upd k v b)"
proof (induction k v b rule: bucket_upd.induct)
  case (2 k v k' v' b)
  consider "k < k'" | "k = k'" | "k' < k" by fastforce
  then show ?case
    using 2 by cases (auto simp: wf_bucket_Cons set_bucket_upd_subset)
qed (simp add: wf_bucket_Cons)

lemma wf_bucket_del: "wf_bucket b \<Longrightarrow> wf_bucket (bucket_del k b)"
proof (induction k b rule: bucket_del.induct)
  case (2 k k' v' b)
  from 2(2) have b: "k' \<noteq> []" "wf_bucket b" "\<forall>x \<in> fst ` set b. k' < x"
    by (auto simp only: wf_bucket_Cons fst_conv)
  then have "\<forall>x \<in> fst ` set (bucket_del k b). k' < x"
    using set_bucket_del_subset [of k b] by blast
  then show ?case
    using 2(1) b by (cases "k = k'") (simp_all only: wf_bucket_Cons bucket_del.simps fst_conv if_True if_False simp_thms)
qed simp

lemma map_of_bucket_upd: "map_of (bucket_upd k v b) = (map_of b)(k \<mapsto> v)"
  by (induction k v b rule: bucket_upd.induct) (auto simp: fun_eq_iff)

lemma map_of_bucket_del: "wf_bucket b \<Longrightarrow> map_of (bucket_del k b) = (map_of b)(k := None)"
proof (induction k b rule: bucket_del.induct)
  case (2 k k' v' b)
  then have "map_of b k' = None"
    by (auto simp: wf_bucket_Cons map_of_eq_None_iff)
  with 2 show ?case
    by (auto simp: fun_eq_iff wf_bucket_Cons)
qed simp

lemma wf_bucket_distinct: "wf_bucket b \<Longrightarrow> distinct (map fst b)"
  by (simp add: wf_bucket_def strict_sorted_iff)

lemma wf_bucket_no_empty: "wf_bucket b \<Longrightarrow> map_of b [] = None"
  by (auto simp: wf_bucket_def map_of_eq_None_iff)

lemma wf_bucket_keys: "wf_bucket b \<Longrightarrow> sorted_wrt (<) (map fst b)"
  by (simp add: wf_bucket_def)

text \<open>A bucket is determined by the mapping it holds.\<close>

lemma wf_bucket_eqI:
  assumes "wf_bucket a" and "wf_bucket b" and "map_of a = map_of b"
  shows "a = b"
proof -
  have "set a = set b"
    using assms wf_bucket_distinct by (intro map_of_inject_set [THEN iffD1]) auto
  moreover have "sorted (map fst a)" and "sorted (map fst b)"
    using assms by (auto simp: wf_bucket_def strict_sorted_iff)
  ultimately show ?thesis
    using assms wf_bucket_distinct
    by (intro map_sorted_distinct_set_unique [of fst]) (auto simp: distinct_map)
qed

section \<open>The interface of an ordered store\<close>

text \<open>
  What the expiry index asks of a bucket: the map laws of \<open>Put\<close>, \<open>Get\<close> and \<open>Delete\<close>, and a
  cursor that enumerates the stored pairs in strictly increasing key order.
\<close>

locale ordered_store =
  fixes put :: "bytes \<Rightarrow> bytes \<Rightarrow> 's \<Rightarrow> db_error + 's"
    and get :: "bytes \<Rightarrow> 's \<Rightarrow> bytes option"
    and del :: "bytes \<Rightarrow> 's \<Rightarrow> 's"
    and pairs :: "'s \<Rightarrow> (bytes \<times> bytes) list"
    and inv :: "'s \<Rightarrow> bool"
  assumes put_ok: "inv s \<Longrightarrow> k \<noteq> [] \<Longrightarrow> \<exists>t. put k v s = Inr t \<and> inv t \<and>
      get k t = Some v \<and> (\<forall>k'. k' \<noteq> k \<longrightarrow> get k' t = get k' s)"
    and put_empty: "put [] v s = Inl ErrKeyRequired"
    and del_inv: "inv s \<Longrightarrow> inv (del k s)"
    and get_del: "inv s \<Longrightarrow> get k' (del k s) = (if k' = k then None else get k' s)"
    and pairs_sorted: "inv s \<Longrightarrow> sorted_wrt (<) (map fst (pairs s))"
    and pairs_get: "inv s \<Longrightarrow> (k, v) \<in> set (pairs s) \<longleftrightarrow> get k s = Some v"
begin

lemma put_functional:
  assumes "inv s" and "put k v s = Inr t"
  shows "inv t" and "get k' t = (if k' = k then Some v else get k' s)"
proof -
  have "k \<noteq> []" using assms put_empty [of v s] by auto
  then obtain t' where "put k v s = Inr t'" "inv t'" "get k t' = Some v"
      "\<forall>k'. k' \<noteq> k \<longrightarrow> get k' t' = get k' s"
    using put_ok [OF assms(1), of k v] by blast
  then show "inv t" and "get k' t = (if k' = k then Some v else get k' s)"
    using assms(2) by auto
qed

lemma pairs_keys: "inv s \<Longrightarrow> fst ` set (pairs s) = {k. get k s \<noteq> None}"
proof -
  assume "inv s"
  then have "k \<in> fst ` set (pairs s) \<longleftrightarrow> (\<exists>v. get k s = Some v)" for k
    by (simp add: pairs_get [symmetric] image_iff Bex_def)
  then show ?thesis by auto
qed

lemma pairs_distinct: "inv s \<Longrightarrow> distinct (map fst (pairs s))"
  using pairs_sorted by (simp add: strict_sorted_iff)

text \<open>The cursor sequence is determined by the stored mapping: it is its sorted domain.\<close>

lemma pairs_keys_unique:
  assumes "inv s"
  shows "map fst (pairs s) = sorted_list_of_set {k. get k s \<noteq> None}"
proof -
  have "sorted (map fst (pairs s))" and "distinct (map fst (pairs s))"
    using pairs_sorted [OF assms] pairs_distinct [OF assms] by (auto simp: strict_sorted_iff)
  moreover have "set (map fst (pairs s)) = {k. get k s \<noteq> None}"
    using pairs_keys [OF assms] by simp
  ultimately show ?thesis
    by (metis sorted_list_of_set.idem_if_sorted_distinct)
qed

end

interpretation bkt: ordered_store bucket_Put bucket_Get bucket_Delete cursor_First wf_bucket
proof unfold_locales
  fix b :: bucket and k v :: bytes
  assume "wf_bucket b" and "k \<noteq> []"
  then show "\<exists>t. bucket_Put k v b = Inr t \<and> wf_bucket t \<and> bucket_Get k t = Some v \<and>
      (\<forall>k'. k' \<noteq> k \<longrightarrow> bucket_Get k' t = bucket_Get k' b)"
    by (auto simp: bucket_Put_def bucket_Get_def map_of_bucket_upd wf_bucket_upd)
next
  fix b :: bucket and k k' :: bytes
  assume "wf_bucket b"
  then show "bucket_Get k' (bucket_Delete k b) = (if k' = k then None else bucket_Get k' b)"
    by (auto simp: bucket_Get_def bucket_Delete_def map_of_bucket_del)
next
  fix b :: bucket and k v :: bytes
  assume "wf_bucket b"
  then show "((k, v) \<in> set (cursor_First b)) = (bucket_Get k b = Some v)"
    using wf_bucket_distinct [of b] wf_bucket_no_empty [of b]
    by (auto simp: bucket_Get_def cursor_First_def)
qed (simp_all add: bucket_Put_def bucket_Delete_def wf_bucket_del cursor_First_def wf_bucket_keys)

end
