(* ===== verification/Expiry_Encode.thy ===== *)
theory Expiry_Encode
  imports Wire_Tx Kv_Bucket
begin

text \<open>
  Keys and values of the expiry index (\<open>blockchain/expiryindex/encode.go\<close>, \<open>accumulator.go\<close>) and the
  comparators whose order the keys must reproduce: \<open>compareOutPoint\<close> (\<open>expiryindex.go\<close>) and
  \<open>compareReapInputOrderKey\<close> (\<open>blockchain/validation_reap.go\<close>).

  The locale \<open>order_encoding\<close> is the contract between the two: byte-wise comparison of the encoded
  keys, which is what the database iterates by, is the comparator on the decoded values.  It is
  interpreted for each of the ordered encodings.
\<close>

section \<open>Errors of the index\<close>

datatype index_error =
    ErrInvalidLength
  | ErrNegativeAmount
  | ErrAmountExceedsInt64
  | ErrBucketNotFound
  | ErrDatabase db_error
  | ErrInvalidMetadata
  | ErrMuHashState
  | ErrMuHashNoInverse
  | ErrCommitmentMissing
  | ErrCommitmentDuplicate
  | ErrCommitmentVersion
  | ErrCommitmentMismatch
  | ErrInconsistentIndex
  | ErrStxoOutOfRange
  | ErrBadLimit
  | ErrNoChain
  | ErrChain
  | ErrPanic
  | ErrIndexDisabled
  | ErrNotOBTC

section \<open>Outpoints and expiry keys\<close>

definition encodeOutPoint :: "OutPoint \<Rightarrow> bytes" where
  "encodeOutPoint op = hash_bytes (Hash op) @ le_bytes 4 (unat (Index op))"

definition decodeOutPoint :: "bytes \<Rightarrow> index_error + OutPoint" where
  "decodeOutPoint encoded =
     (if length encoded \<noteq> 36 then Inl ErrInvalidLength
      else Inr \<lparr>Hash = hash_of_bytes (take 32 encoded),
                Index = of_nat (le_val (drop 32 encoded))\<rparr>)"

definition encodeOrderedOutPoint :: "OutPoint \<Rightarrow> bytes" where
  "encodeOrderedOutPoint op = rev (hash_bytes (Hash op)) @ be_bytes 4 (unat (Index op))"

definition decodeOrderedOutPoint :: "bytes \<Rightarrow> index_error + OutPoint" where
  "decodeOrderedOutPoint encoded =
     (if length encoded \<noteq> 36 then Inl ErrInvalidLength
      else Inr \<lparr>Hash = hash_of_bytes (rev (take 32 encoded)),
                Index = of_nat (be_val (drop 32 encoded))\<rparr>)"

definition encodeExpiryKey :: "u64 \<Rightarrow> bytes" where
  "encodeExpiryKey expiry = be_bytes 8 (unat expiry)"

definition decodeExpiryKey :: "bytes \<Rightarrow> index_error + u64" where
  "decodeExpiryKey encoded =
     (if length encoded \<noteq> 8 then Inl ErrInvalidLength else Inr (of_nat (be_val encoded)))"

definition encodeExpiryOutpointCompositeKey :: "u64 \<Rightarrow> OutPoint \<Rightarrow> bytes" where
  "encodeExpiryOutpointCompositeKey expiryKey outpoint =
     be_bytes 8 (unat expiryKey) @ encodeOrderedOutPoint outpoint"

definition decodeExpiryOutpointCompositeKey :: "bytes \<Rightarrow> index_error + (u64 \<times> OutPoint)" where
  "decodeExpiryOutpointCompositeKey encoded =
     (if length encoded \<noteq> 44 then Inl ErrInvalidLength
      else bind_r (decodeExpiryKey (take 8 encoded)) (\<lambda>expiryKey.
           bind_r (decodeOrderedOutPoint (drop 8 encoded)) (\<lambda>outpoint.
           Inr (expiryKey, outpoint))))"

definition encodeReapOrderOutPoint :: "OutPoint \<Rightarrow> bytes" where
  "encodeReapOrderOutPoint op = hash_bytes (Hash op) @ be_bytes 4 (unat (Index op))"

definition decodeReapOrderOutPoint :: "bytes \<Rightarrow> index_error + OutPoint" where
  "decodeReapOrderOutPoint encoded =
     (if length encoded \<noteq> 36 then Inl ErrInvalidLength
      else Inr \<lparr>Hash = hash_of_bytes (take 32 encoded),
                Index = of_nat (be_val (drop 32 encoded))\<rparr>)"

definition encodeReapStrictCompositeKey :: "u64 \<Rightarrow> int64 \<Rightarrow> OutPoint \<Rightarrow> index_error + bytes" where
  "encodeReapStrictCompositeKey expiryKey amount outpoint =
     (if amount < 0 then Inl ErrNegativeAmount
      else Inr (be_bytes 8 (unat expiryKey) @ be_bytes 8 (unat (of_int amount :: u64))
                @ encodeReapOrderOutPoint outpoint))"

definition decodeReapStrictCompositeKey :: "bytes \<Rightarrow> index_error + (u64 \<times> int64 \<times> OutPoint)" where
  "decodeReapStrictCompositeKey encoded =
     (if length encoded \<noteq> 52 then Inl ErrInvalidLength
      else bind_r (decodeExpiryKey (take 8 encoded)) (\<lambda>expiryKey.
           let amountU64 = be_val (take 8 (drop 8 encoded)) in
           if amountU64 > 2 ^ 63 - 1 then Inl ErrAmountExceedsInt64
           else bind_r (decodeReapOrderOutPoint (drop 16 encoded)) (\<lambda>outpoint.
             Inr (expiryKey, int amountU64, outpoint))))"

definition expiryCompositePrefix :: "u64 \<Rightarrow> bytes" where
  "expiryCompositePrefix expiryKey = encodeExpiryKey expiryKey"

definition computeEntryData :: "OutPoint \<Rightarrow> u64 \<Rightarrow> bytes" where
  "computeEntryData op expiryKey =
     hash_bytes (Hash op) @ le_bytes 4 (unat (Index op)) @ be_bytes 8 (unat expiryKey)"

section \<open>Comparators\<close>

fun compareHashFrom :: "nat \<Rightarrow> bytes \<Rightarrow> bytes \<Rightarrow> int option" where
  "compareHashFrom 0 a b = None"
| "compareHashFrom (Suc i) a b =
     (if a ! i < b ! i then Some (-1)
      else if a ! i > b ! i then Some 1
      else compareHashFrom i a b)"

definition compareIndex :: "u32 \<Rightarrow> u32 \<Rightarrow> int" where
  "compareIndex i j = (if i < j then -1 else if i > j then 1 else 0)"

definition compareOutPoint :: "OutPoint \<Rightarrow> OutPoint \<Rightarrow> int" where
  "compareOutPoint a b =
     (case (if Hash a \<noteq> Hash b then compareHashFrom 32 (hash_bytes (Hash a)) (hash_bytes (Hash b))
            else None) of
        Some c \<Rightarrow> c
      | None \<Rightarrow> compareIndex (Index a) (Index b))"

record reapInputOrderKey =
  ok_expiry :: u64
  ok_amount :: int64
  ok_op :: OutPoint

definition compareReapInputOrderKey :: "reapInputOrderKey \<Rightarrow> reapInputOrderKey \<Rightarrow> int" where
  "compareReapInputOrderKey a b =
     (if ok_expiry a \<noteq> ok_expiry b then (if ok_expiry a < ok_expiry b then -1 else 1)
      else if ok_amount a \<noteq> ok_amount b then (if ok_amount a < ok_amount b then -1 else 1)
      else
        (let hcmp = bytes_compare (hash_bytes (Hash (ok_op a))) (hash_bytes (Hash (ok_op b))) in
         if hcmp \<noteq> 0 then hcmp
         else compareIndex (Index (ok_op a)) (Index (ok_op b))))"

section \<open>Round trips\<close>

lemma length_encoders [simp, byte_simps]:
  "length (encodeOutPoint op) = 36"
  "length (encodeOrderedOutPoint op) = 36"
  "length (encodeReapOrderOutPoint op) = 36"
  "length (encodeExpiryKey e) = 8"
  "length (encodeExpiryOutpointCompositeKey e op) = 44"
  "length (computeEntryData op e) = 44"
  by (simp_all add: encodeOutPoint_def encodeOrderedOutPoint_def encodeReapOrderOutPoint_def
      encodeExpiryKey_def encodeExpiryOutpointCompositeKey_def computeEntryData_def)

lemma le_val_u32 [simp, byte_simps]:
  "le_val (le_bytes 4 (unat (x :: u32))) = unat x"
  "be_val (be_bytes 4 (unat (x :: u32))) = unat x"
  using unat_u32_bound [of x] by (simp_all only: le_val_le_bytes be_val_be_bytes mod_less)

lemma le_val_u64 [simp, byte_simps]:
  "le_val (le_bytes 8 (unat (x :: u64))) = unat x"
  "be_val (be_bytes 8 (unat (x :: u64))) = unat x"
  using unat_u64_bound [of x] by (simp_all only: le_val_le_bytes be_val_be_bytes mod_less)

lemma decode_encodeOutPoint [simp]: "decodeOutPoint (encodeOutPoint op) = Inr op"
  unfolding decodeOutPoint_def
  by (simp only: length_encoders) (simp add: encodeOutPoint_def)

lemma decode_encodeOrderedOutPoint [simp]: "decodeOrderedOutPoint (encodeOrderedOutPoint op) = Inr op"
  unfolding decodeOrderedOutPoint_def
  by (simp only: length_encoders) (simp add: encodeOrderedOutPoint_def)

lemma decode_encodeReapOrderOutPoint [simp]:
  "decodeReapOrderOutPoint (encodeReapOrderOutPoint op) = Inr op"
  unfolding decodeReapOrderOutPoint_def
  by (simp only: length_encoders) (simp add: encodeReapOrderOutPoint_def)

lemma decode_encodeExpiryKey [simp]: "decodeExpiryKey (encodeExpiryKey e) = Inr e"
  unfolding decodeExpiryKey_def
  by (simp only: length_encoders) (simp add: encodeExpiryKey_def)

lemma decode_encodeExpiryOutpointCompositeKey [simp]:
  "decodeExpiryOutpointCompositeKey (encodeExpiryOutpointCompositeKey e op) = Inr (e, op)"
  using decode_encodeExpiryKey [of e]
  by (simp add: decodeExpiryOutpointCompositeKey_def encodeExpiryOutpointCompositeKey_def
      encodeExpiryKey_def)

text \<open>Amounts a decoded key can hold.\<close>

definition valid_amount :: "int64 \<Rightarrow> bool" where
  "valid_amount a \<longleftrightarrow> 0 \<le> a \<and> is_int64 a"

lemma unat_of_int_amount: "valid_amount a \<Longrightarrow> unat (of_int a :: u64) = nat a"
  by (simp add: valid_amount_def is_int64_def unat_eq_nat_uint uint_word_of_int take_bit_int_eq_self_iff
      take_bit_int_eq_self)

lemma be_val_amount: "valid_amount a \<Longrightarrow> be_val (be_bytes 8 (nat a)) = nat a"
  using le_val_u64(2) [of "of_int a"] by (simp only: unat_of_int_amount)

lemma decode_encodeReapStrictCompositeKey:
  assumes "valid_amount a"
  shows "bind_r (encodeReapStrictCompositeKey e a op) decodeReapStrictCompositeKey = Inr (e, a, op)"
proof -
  have "0 \<le> a" and lt: "nat a \<le> 2 ^ 63 - 1"
    using assms by (auto simp: valid_amount_def is_int64_def)
  then show ?thesis
    using decode_encodeExpiryKey [of e] be_val_amount [OF assms] unat_of_int_amount [OF assms]
    by (simp add: encodeReapStrictCompositeKey_def decodeReapStrictCompositeKey_def
        encodeExpiryKey_def Let_def)
qed

lemma encodeReapStrict_ok_iff: "is_ok (encodeReapStrictCompositeKey e a op) \<longleftrightarrow> 0 \<le> a"
  by (simp add: encodeReapStrictCompositeKey_def)

lemma encodeOutPoint_inject [simp]: "encodeOutPoint a = encodeOutPoint b \<longleftrightarrow> a = b"
  by (metis Inr_inject decode_encodeOutPoint)

lemma encodeOrderedOutPoint_inject [simp]: "encodeOrderedOutPoint a = encodeOrderedOutPoint b \<longleftrightarrow> a = b"
  by (metis Inr_inject decode_encodeOrderedOutPoint)

lemma encodeExpiryKey_inject [simp]: "encodeExpiryKey a = encodeExpiryKey b \<longleftrightarrow> a = b"
  by (metis Inr_inject decode_encodeExpiryKey)

lemma encodeExpiryOutpointCompositeKey_inject [simp]:
  "encodeExpiryOutpointCompositeKey e a = encodeExpiryOutpointCompositeKey f b \<longleftrightarrow> e = f \<and> a = b"
  by (metis Inr_inject decode_encodeExpiryOutpointCompositeKey prod.inject)

lemma computeEntryData_split: "computeEntryData op e = encodeOutPoint op @ encodeExpiryKey e"
  by (simp add: computeEntryData_def encodeOutPoint_def encodeExpiryKey_def)

lemma computeEntryData_inject [simp]:
  "computeEntryData a e = computeEntryData b f \<longleftrightarrow> a = b \<and> e = f"
  by (simp add: computeEntryData_split)

text \<open>Decoding accepts only what the encoder writes: the decoded value encodes to the input.\<close>

lemma le_bytes_4_of_nat:
  assumes "length bs = 4"
  shows "le_bytes 4 (unat (of_nat (le_val bs) :: u32)) = bs"
    and "be_bytes 4 (unat (of_nat (be_val bs) :: u32)) = bs"
proof -
  have "le_val bs < 2 ^ LENGTH(32)" "be_val bs < 2 ^ LENGTH(32)"
    using le_val_bound [of bs] be_val_bound [of bs] assms by simp_all
  then have "unat (of_nat (le_val bs) :: u32) = le_val bs" "unat (of_nat (be_val bs) :: u32) = be_val bs"
    by (simp_all only: unat_of_nat mod_less)
  then show "le_bytes 4 (unat (of_nat (le_val bs) :: u32)) = bs"
    and "be_bytes 4 (unat (of_nat (be_val bs) :: u32)) = bs"
    using le_bytes_le_val [of bs] be_bytes_be_val [of bs] assms by simp_all
qed

lemma be_bytes_8_of_nat:
  assumes "length bs = 8"
  shows "be_bytes 8 (unat (of_nat (be_val bs) :: u64)) = bs"
proof -
  have "be_val bs < 2 ^ LENGTH(64)" using be_val_bound [of bs] assms by simp
  then have "unat (of_nat (be_val bs) :: u64) = be_val bs" by (simp only: unat_of_nat mod_less)
  then show ?thesis using be_bytes_be_val [of bs] assms by simp
qed

lemma decodeOutPoint_Inr: "decodeOutPoint k = Inr op \<longleftrightarrow> k = encodeOutPoint op"
proof
  assume "decodeOutPoint k = Inr op"
  then show "k = encodeOutPoint op"
    by (auto simp: decodeOutPoint_def encodeOutPoint_def hash_bytes_hash_of_bytes le_bytes_4_of_nat
        split: if_splits)
qed simp

lemma decodeOrderedOutPoint_Inr: "decodeOrderedOutPoint k = Inr op \<longleftrightarrow> k = encodeOrderedOutPoint op"
proof
  assume "decodeOrderedOutPoint k = Inr op"
  then show "k = encodeOrderedOutPoint op"
    by (auto simp: decodeOrderedOutPoint_def encodeOrderedOutPoint_def hash_bytes_hash_of_bytes
        le_bytes_4_of_nat split: if_splits)
qed simp

lemma decodeReapOrderOutPoint_Inr:
  "decodeReapOrderOutPoint k = Inr op \<longleftrightarrow> k = encodeReapOrderOutPoint op"
proof
  assume "decodeReapOrderOutPoint k = Inr op"
  then show "k = encodeReapOrderOutPoint op"
    by (auto simp: decodeReapOrderOutPoint_def encodeReapOrderOutPoint_def hash_bytes_hash_of_bytes
        le_bytes_4_of_nat split: if_splits)
qed simp

lemma decodeExpiryKey_Inr: "decodeExpiryKey k = Inr e \<longleftrightarrow> k = encodeExpiryKey e"
proof
  assume "decodeExpiryKey k = Inr e"
  then show "k = encodeExpiryKey e"
    by (auto simp: decodeExpiryKey_def encodeExpiryKey_def be_bytes_8_of_nat split: if_splits)
qed simp

lemma decodeExpiryOutpointCompositeKey_Inr:
  "decodeExpiryOutpointCompositeKey k = Inr (e, op) \<longleftrightarrow> k = encodeExpiryOutpointCompositeKey e op"
proof
  assume "decodeExpiryOutpointCompositeKey k = Inr (e, op)"
  then have "take 8 k = encodeExpiryKey e" "drop 8 k = encodeOrderedOutPoint op"
    by (auto simp: decodeExpiryOutpointCompositeKey_def bind_r_eq_Inr decodeExpiryKey_Inr
        decodeOrderedOutPoint_Inr split: if_splits)
  then show "k = encodeExpiryOutpointCompositeKey e op"
    by (metis append_take_drop_id encodeExpiryKey_def encodeExpiryOutpointCompositeKey_def)
qed simp

lemma decodeReapStrictCompositeKey_Inr:
  "decodeReapStrictCompositeKey k = Inr (e, a, op) \<longleftrightarrow>
     valid_amount a \<and> encodeReapStrictCompositeKey e a op = Inr k"
proof
  assume d: "decodeReapStrictCompositeKey k = Inr (e, a, op)"
  then have len: "length k = 52" and e: "take 8 k = encodeExpiryKey e"
    and op: "drop 16 k = encodeReapOrderOutPoint op" and a: "a = int (be_val (take 8 (drop 8 k)))"
    and le: "be_val (take 8 (drop 8 k)) \<le> 2 ^ 63 - 1"
    by (auto simp: decodeReapStrictCompositeKey_def bind_r_eq_Inr decodeExpiryKey_Inr
        decodeReapOrderOutPoint_Inr Let_def split: if_splits)
  have "be_bytes 8 (unat (of_int a :: u64)) = take 8 (drop 8 k)"
    using be_bytes_8_of_nat [of "take 8 (drop 8 k)"] len by (simp add: a)
  moreover have "k = take 8 k @ take 8 (drop 8 k) @ drop 16 k"
    using append_take_drop_id [of 8 k] append_take_drop_id [of 8 "drop 8 k"] by simp
  ultimately have "k = be_bytes 8 (unat e) @ be_bytes 8 (unat (of_int a :: u64))
      @ encodeReapOrderOutPoint op"
    using e op by (simp add: encodeExpiryKey_def)
  then show "valid_amount a \<and> encodeReapStrictCompositeKey e a op = Inr k"
    using le by (simp add: encodeReapStrictCompositeKey_def a valid_amount_def is_int64_def)
next
  assume "valid_amount a \<and> encodeReapStrictCompositeKey e a op = Inr k"
  then show "decodeReapStrictCompositeKey k = Inr (e, a, op)"
    using decode_encodeReapStrictCompositeKey [of a e op] by simp
qed

section \<open>Encodings that order keys\<close>

locale order_encoding =
  fixes ok :: "'a \<Rightarrow> bool"
    and enc :: "'a \<Rightarrow> bytes"
    and cmp :: "'a \<Rightarrow> 'a \<Rightarrow> int"
  assumes cmp_enc: "ok a \<Longrightarrow> ok b \<Longrightarrow> cmp a b = bytes_compare (enc a) (enc b)"
    and enc_inj: "ok a \<Longrightarrow> ok b \<Longrightarrow> enc a = enc b \<Longrightarrow> a = b"
begin

lemma cmp_less_iff: "ok a \<Longrightarrow> ok b \<Longrightarrow> cmp a b < 0 \<longleftrightarrow> enc a < enc b"
  by (simp add: cmp_enc bytes_compare_less)

lemma cmp_eq_iff: "ok a \<Longrightarrow> ok b \<Longrightarrow> cmp a b = 0 \<longleftrightarrow> a = b"
  using enc_inj by (auto simp: cmp_enc bytes_compare_eq)

lemma cmp_greater_iff: "ok a \<Longrightarrow> ok b \<Longrightarrow> 0 < cmp a b \<longleftrightarrow> cmp b a < 0"
  by (simp add: cmp_enc bytes_compare_greater bytes_compare_less)

lemma cmp_trans: "ok a \<Longrightarrow> ok b \<Longrightarrow> ok c \<Longrightarrow> cmp a b < 0 \<Longrightarrow> cmp b c < 0 \<Longrightarrow> cmp a c < 0"
  by (auto simp: cmp_less_iff)

lemma sorted_enc_iff:
  assumes "\<forall>x \<in> set xs. ok x"
  shows "sorted_wrt (\<lambda>a b. cmp a b < 0) xs \<longleftrightarrow> sorted_wrt (<) (map enc xs)"
  using assms by (induction xs) (auto simp: cmp_less_iff)

lemma sorted_unique:
  assumes "\<forall>x \<in> set xs. ok x" and "set xs = set ys"
    and "sorted_wrt (\<lambda>a b. cmp a b < 0) xs" and "sorted_wrt (\<lambda>a b. cmp a b < 0) ys"
  shows "xs = ys"
proof -
  have "sorted_wrt (<) (map enc xs)" "sorted_wrt (<) (map enc ys)"
    using assms sorted_enc_iff by auto
  then have "map enc xs = map enc ys"
    using assms(2) by (intro sorted_distinct_set_unique) (auto simp: strict_sorted_iff)
  moreover have "inj_on enc (set xs \<union> set ys)"
    using assms(1,2) enc_inj by (auto simp: inj_on_def)
  ultimately show ?thesis by (rule map_inj_on)
qed

end

lemma bytes_compare_append:
  "length a = length b \<Longrightarrow>
   bytes_compare (a @ c) (b @ d) =
     (if bytes_compare a b \<noteq> 0 then bytes_compare a b else bytes_compare c d)"
  by (induction a b rule: list_induct2) auto

lemma bytes_compare_be_bytes:
  assumes "x < 256 ^ n" and "y < 256 ^ n"
  shows "bytes_compare (be_bytes n x) (be_bytes n y) = (if x < y then -1 else if y < x then 1 else 0)"
proof -
  have sgn: "bytes_compare a b \<in> {-1, 0, 1}" for a b
    by (induction a b rule: bytes_compare.induct) auto
  let ?c = "bytes_compare (be_bytes n x) (be_bytes n y)"
  have "?c < 0 \<longleftrightarrow> x < y" "0 < ?c \<longleftrightarrow> y < x"
    using assms by (simp_all add: bytes_compare_less bytes_compare_greater be_bytes_less)
  with sgn [of "be_bytes n x" "be_bytes n y"] show ?thesis by auto
qed

lemma bytes_compare_u64:
  "bytes_compare (be_bytes 8 (unat (x :: u64))) (be_bytes 8 (unat y)) =
     (if x < y then -1 else if y < x then 1 else 0)"
  by (simp add: bytes_compare_be_bytes [OF unat_u64_bound unat_u64_bound] word_less_nat_alt)

lemma bytes_compare_u32:
  "bytes_compare (be_bytes 4 (unat (x :: u32))) (be_bytes 4 (unat y)) = compareIndex x y"
  by (simp add: bytes_compare_be_bytes [OF unat_u32_bound unat_u32_bound] word_less_nat_alt
      compareIndex_def)

lemma bytes_compare_amount:
  assumes "valid_amount a" and "valid_amount b"
  shows "bytes_compare (be_bytes 8 (unat (of_int a :: u64))) (be_bytes 8 (unat (of_int b :: u64))) =
     (if a < b then -1 else if b < a then 1 else 0)"
proof -
  have "(of_int a :: u64) < of_int b \<longleftrightarrow> a < b" "(of_int b :: u64) < of_int a \<longleftrightarrow> b < a"
    using assms by (auto simp: word_less_nat_alt unat_of_int_amount valid_amount_def)
  then show ?thesis by (simp only: bytes_compare_u64)
qed

text \<open>The loop of \<open>compareOutPoint\<close> is a comparison of the reversed byte strings.\<close>

lemma compareHashFrom_rev:
  assumes "n \<le> length a" and "n \<le> length b"
  shows "(case compareHashFrom n a b of Some c \<Rightarrow> c | None \<Rightarrow> 0) =
      bytes_compare (rev (take n a)) (rev (take n b))
    \<and> (compareHashFrom n a b = None \<longleftrightarrow> take n a = take n b)"
  using assms
proof (induction n)
  case (Suc n)
  then have "take (Suc n) a = take n a @ [a ! n]" "take (Suc n) b = take n b @ [b ! n]"
    by (simp_all add: take_Suc_conv_app_nth)
  with Suc show ?case by auto
qed simp

lemma compareOutPoint_enc:
  "compareOutPoint a b = bytes_compare (encodeOrderedOutPoint a) (encodeOrderedOutPoint b)"
proof -
  have e: "bytes_compare (encodeOrderedOutPoint a) (encodeOrderedOutPoint b) =
     (if bytes_compare (rev (hash_bytes (Hash a))) (rev (hash_bytes (Hash b))) \<noteq> 0
      then bytes_compare (rev (hash_bytes (Hash a))) (rev (hash_bytes (Hash b)))
      else compareIndex (Index a) (Index b))"
    by (simp add: encodeOrderedOutPoint_def bytes_compare_append bytes_compare_u32)
  show ?thesis
    using compareHashFrom_rev [of 32 "hash_bytes (Hash a)" "hash_bytes (Hash b)"]
    unfolding e by (auto simp: compareOutPoint_def bytes_compare_eq split: option.splits)
qed

text \<open>The encoded strict key of a candidate; total on valid amounts.\<close>

definition strict_key :: "reapInputOrderKey \<Rightarrow> bytes" where
  "strict_key k = (case encodeReapStrictCompositeKey (ok_expiry k) (ok_amount k) (ok_op k) of
     Inr bs \<Rightarrow> bs | Inl _ \<Rightarrow> [])"

lemma strict_key_valid:
  "0 \<le> ok_amount k \<Longrightarrow>
     encodeReapStrictCompositeKey (ok_expiry k) (ok_amount k) (ok_op k) = Inr (strict_key k)"
  by (simp add: strict_key_def encodeReapStrictCompositeKey_def)

lemma compareReapInputOrderKey_enc:
  assumes "valid_amount (ok_amount a)" and "valid_amount (ok_amount b)"
  shows "compareReapInputOrderKey a b = bytes_compare (strict_key a) (strict_key b)"
proof -
  have k: "strict_key c = be_bytes 8 (unat (ok_expiry c))
      @ be_bytes 8 (unat (of_int (ok_amount c) :: u64))
      @ hash_bytes (Hash (ok_op c)) @ be_bytes 4 (unat (Index (ok_op c)))"
    if "valid_amount (ok_amount c)" for c
    using that by (simp add: strict_key_def encodeReapStrictCompositeKey_def valid_amount_def
        encodeReapOrderOutPoint_def)
  show ?thesis
    unfolding k [OF assms(1)] k [OF assms(2)]
    by (simp add: bytes_compare_append bytes_compare_amount [OF assms] bytes_compare_u32
        bytes_compare_u64 [of "ok_expiry a" "ok_expiry b"] compareReapInputOrderKey_def Let_def)
qed

lemma decode_strict_key:
  "valid_amount (ok_amount k) \<Longrightarrow>
     decodeReapStrictCompositeKey (strict_key k) = Inr (ok_expiry k, ok_amount k, ok_op k)"
  using decode_encodeReapStrictCompositeKey [of "ok_amount k" "ok_expiry k" "ok_op k"]
  by (simp add: strict_key_valid valid_amount_def)

lemma strict_key_inj:
  assumes "valid_amount (ok_amount a)" and "valid_amount (ok_amount b)" and "strict_key a = strict_key b"
  shows "a = b"
  using decode_strict_key [OF assms(1)] decode_strict_key [OF assms(2)]
  by (simp add: assms(3))

interpretation op_order: order_encoding "\<lambda>_. True" encodeOrderedOutPoint compareOutPoint
  by unfold_locales (simp_all add: compareOutPoint_enc)

interpretation reap_order: order_encoding "\<lambda>k. valid_amount (ok_amount k)" strict_key
    compareReapInputOrderKey
  by unfold_locales (auto simp: compareReapInputOrderKey_enc intro: strict_key_inj)

section \<open>Properties\<close>

text \<open>C23: the keys of the strict bucket are ordered the way the consensus rules order REAP inputs.
  The key of a candidate with a valid amount decodes to the candidate, and the byte order of two keys
  is the order of the comparator: by expiry key, then amount, then outpoint.  A string that decodes
  at all is the key of what it decodes to.\<close>

theorem strict_keys_ordered:
  assumes "0 \<le> a" and "a < 2 ^ 63" and "0 \<le> b" and "b < 2 ^ 63"
  shows "\<exists>ka kb. encodeReapStrictCompositeKey e a op = Inr ka \<and> encodeReapStrictCompositeKey f b oq = Inr kb
    \<and> decodeReapStrictCompositeKey ka = Inr (e, a, op)
    \<and> (ka < kb \<longleftrightarrow> compareReapInputOrderKey \<lparr>ok_expiry = e, ok_amount = a, ok_op = op\<rparr>
                       \<lparr>ok_expiry = f, ok_amount = b, ok_op = oq\<rparr> < 0)
    \<and> (decodeReapStrictCompositeKey k = Inr (e, a, op) \<longrightarrow> k = ka)"
proof -
  let ?x = "\<lparr>ok_expiry = e, ok_amount = a, ok_op = op\<rparr>" and ?y = "\<lparr>ok_expiry = f, ok_amount = b, ok_op = oq\<rparr>"
  have v: "valid_amount (ok_amount ?x)" "valid_amount (ok_amount ?y)"
    using assms by (simp_all add: valid_amount_def is_int64_def)
  have k: "encodeReapStrictCompositeKey e a op = Inr (strict_key ?x)"
    "encodeReapStrictCompositeKey f b oq = Inr (strict_key ?y)"
    using strict_key_valid [of ?x] strict_key_valid [of ?y] assms by simp_all
  have "k = strict_key ?x" if "decodeReapStrictCompositeKey k = Inr (e, a, op)"
    using that k(1) by (simp add: decodeReapStrictCompositeKey_Inr)
  then show ?thesis
    using k decode_strict_key [OF v(1)] reap_order.cmp_less_iff [OF v] by auto
qed

theorem strict_keys_ordered_witness:
  "\<exists>ka kb. encodeReapStrictCompositeKey 5 7 \<lparr>Hash = 1, Index = 2\<rparr> = Inr ka
    \<and> encodeReapStrictCompositeKey 5 7 \<lparr>Hash = 1, Index = 3\<rparr> = Inr kb
    \<and> ka < kb"
  using strict_keys_ordered [of 7 7 5 "\<lparr>Hash = 1, Index = 2\<rparr>" 5 "\<lparr>Hash = 1, Index = 3\<rparr>" "[]"]
  by (auto simp: compareReapInputOrderKey_def bytes_compare_eq compareIndex_def Let_def)

end
