(* ===== verification/Mu_Hash.thy ===== *)
theory Mu_Hash
  imports Sha256 Expiry_Encode "HOL-Library.Multiset"
begin

text \<open>
  The MuHash3072 accumulator of \<open>blockchain/expiryindex/muhash.go\<close>: a multiset hash kept as a
  numerator and a denominator modulo \<open>2^3072 - 1103717\<close>.

  The two panics that concern inputs the callers never pass (a ChaCha20 key that is not 32 bytes,
  a number that does not fit the requested width) are the value \<open>None\<close> of the helper, and the callers'
  use of it is shown to be defined.  The panic of \<open>Digest\<close> when the denominator has no inverse is the
  error \<open>ErrMuHashNoInverse\<close>.  That the modulus is prime is not used: what the results need is
  which denominators have an inverse, and they say so.
\<close>

unbundle bit_operations_syntax

definition muhashByteLen :: nat where "muhashByteLen = 384"
definition muhashSerializedSize :: nat where "muhashSerializedSize = 768"

definition muhashPrime :: nat where "muhashPrime = 2 ^ 3072 - 1103717"

section \<open>ChaCha20 expansion\<close>

definition quarterRound :: "u32 \<times> u32 \<times> u32 \<times> u32 \<Rightarrow> u32 \<times> u32 \<times> u32 \<times> u32" where
  "quarterRound = (\<lambda>(a, b, c, d).
     let a = a + b; d = d XOR a; d = push_bit 16 d OR drop_bit 16 d;
         c = c + d; b = b XOR c; b = push_bit 12 b OR drop_bit 20 b;
         a = a + b; d = d XOR a; d = push_bit 8 d OR drop_bit 24 d;
         c = c + d; b = b XOR c; b = push_bit 7 b OR drop_bit 25 b
     in (a, b, c, d))"

text \<open>The sixteen words \<open>s0\<close> to \<open>s15\<close> are a list; \<open>qr\<close> is one assignment of the round.\<close>

definition qr :: "nat \<Rightarrow> nat \<Rightarrow> nat \<Rightarrow> nat \<Rightarrow> u32 list \<Rightarrow> u32 list" where
  "qr i j k l s =
     (let (a, b, c, d) = quarterRound (s ! i, s ! j, s ! k, s ! l)
      in s[i := a, j := b, k := c, l := d])"

definition doubleRound :: "u32 list \<Rightarrow> u32 list" where
  "doubleRound s =
     (let s = qr 0 4 8 12 s; s = qr 1 5 9 13 s; s = qr 2 6 10 14 s; s = qr 3 7 11 15 s;
          s = qr 0 5 10 15 s; s = qr 1 6 11 12 s; s = qr 2 7 8 13 s; s = qr 3 4 9 14 s
      in s)"

definition key_words :: "bytes \<Rightarrow> u32 list" where
  "key_words key = map (\<lambda>i. of_nat (le_val (take 4 (drop (4 * i) key)))) [0..<8]"

definition chacha20_block :: "bytes \<Rightarrow> u32 \<Rightarrow> bytes" where
  "chacha20_block key blockCounter =
     (let init = [0x61707865, 0x3320646e, 0x79622d32, 0x6b206574] @ key_words key
                 @ [blockCounter, 0, 0, 0];
          s = (doubleRound ^^ 10) init
      in concat (map (\<lambda>w. le_bytes 4 (unat w)) (map2 (+) s init)))"

function chacha20_loop :: "bytes \<Rightarrow> u32 \<Rightarrow> nat \<Rightarrow> bytes" where
  "chacha20_loop key blockCounter remaining =
     (if remaining = 0 then []
      else take remaining (chacha20_block key blockCounter)
           @ chacha20_loop key (blockCounter + 1) (remaining - 64))"
  by pat_completeness auto
termination
  by (relation "measure (\<lambda>(_, _, n). n)") auto

declare chacha20_loop.simps [simp del]

definition chacha20Expand :: "bytes \<Rightarrow> nat \<Rightarrow> bytes option" where
  "chacha20Expand key outLen = (if length key \<noteq> 32 then None else Some (chacha20_loop key 0 outLen))"

section \<open>Numbers\<close>

definition bigIntToLE :: "nat \<Rightarrow> nat \<Rightarrow> bytes option" where
  "bigIntToLE n sz = (if n < 256 ^ sz then Some (le_bytes sz n) else None)"

definition leToBigInt :: "bytes \<Rightarrow> nat" where
  "leToBigInt data = le_val data"

definition hashToNum :: "bytes \<Rightarrow> nat" where
  "hashToNum data =
     (let seed = sha256_bytes data;
          expanded = the (chacha20Expand seed muhashByteLen);
          n = leToBigInt expanded mod muhashPrime
      in if n = 0 then 1 else n)"

text \<open>\<open>big.Int.ModInverse\<close>: the inverse below the modulus, or \<open>nil\<close> when the two are not coprime.\<close>

definition ModInverse :: "nat \<Rightarrow> nat \<Rightarrow> nat option" where
  "ModInverse g n = (if gcd g n = 1 then Some (nat (fst (bezw g n) mod int n)) else None)"

section \<open>The accumulator\<close>

record MuHash =
  numerator :: nat
  denominator :: nat

definition NewMuHash :: MuHash where
  "NewMuHash = \<lparr>numerator = 1, denominator = 1\<rparr>"

definition MuHash_Add :: "bytes \<Rightarrow> MuHash \<Rightarrow> MuHash" where
  "MuHash_Add data m = m\<lparr>numerator := numerator m * hashToNum data mod muhashPrime\<rparr>"

definition MuHash_Remove :: "bytes \<Rightarrow> MuHash \<Rightarrow> MuHash" where
  "MuHash_Remove data m = m\<lparr>denominator := denominator m * hashToNum data mod muhashPrime\<rparr>"

definition MuHash_Digest :: "MuHash \<Rightarrow> index_error + hash" where
  "MuHash_Digest m =
     (case ModInverse (denominator m) muhashPrime of
        None \<Rightarrow> Inl ErrMuHashNoInverse
      | Some denInv \<Rightarrow>
          (let result = numerator m * denInv mod muhashPrime
           in Inr (sha256_Sum256 (the (bigIntToLE result muhashByteLen)))))"

definition MuHash_Serialize :: "MuHash \<Rightarrow> bytes" where
  "MuHash_Serialize m = the (bigIntToLE (numerator m) muhashByteLen)
     @ the (bigIntToLE (denominator m) muhashByteLen)"

definition MuHash_Deserialize :: "bytes \<Rightarrow> index_error + MuHash" where
  "MuHash_Deserialize data =
     (if length data \<noteq> muhashSerializedSize then Inl ErrMuHashState
      else Inr \<lparr>numerator = leToBigInt (take muhashByteLen data),
                denominator = leToBigInt (drop muhashByteLen data)\<rparr>)"

definition MuHash_Clone :: "MuHash \<Rightarrow> MuHash" where
  "MuHash_Clone m = \<lparr>numerator = numerator m, denominator = denominator m\<rparr>"

section \<open>Every use of a partial helper is defined\<close>

lemma muhashPrime_gt_1: "1 < muhashPrime"
  by (simp add: muhashPrime_def)

lemma muhashPrime_le: "muhashPrime \<le> 256 ^ muhashByteLen"
  by (simp add: muhashPrime_def muhashByteLen_def)

lemma length_qr [simp]: "length (qr i j k l s) = length s"
  by (simp add: qr_def split: prod.splits)

lemma length_doubleRound [simp]: "length (doubleRound s) = length s"
  by (simp add: doubleRound_def Let_def)

lemma length_doubleRound_pow [simp]: "length ((doubleRound ^^ n) s) = length s"
  by (induction n) auto

lemma length_chacha20_block [simp]: "length (chacha20_block key ctr) = 64"
  by (simp add: chacha20_block_def key_words_def Let_def length_concat comp_def sum_list_triv
      del: funpow.simps)

lemma length_chacha20_loop: "length (chacha20_loop key ctr n) = n"
  by (induction key ctr n rule: chacha20_loop.induct) (subst chacha20_loop.simps, auto)

lemma length_chacha20Expand: "chacha20Expand key n = Some out \<Longrightarrow> length out = n"
  by (auto simp: chacha20Expand_def length_chacha20_loop split: if_splits)

lemma chacha20Expand_seed: "chacha20Expand (sha256_bytes data) n \<noteq> None"
  by (simp add: chacha20Expand_def)

lemma hashToNum_bounds: "0 < hashToNum data \<and> hashToNum data < muhashPrime"
  using muhashPrime_gt_1 by (simp add: hashToNum_def Let_def)

definition wf_muhash :: "MuHash \<Rightarrow> bool" where
  "wf_muhash m \<longleftrightarrow> numerator m < 256 ^ muhashByteLen \<and> denominator m < 256 ^ muhashByteLen"

lemma wf_muhashI: "numerator m < muhashPrime \<Longrightarrow> denominator m < muhashPrime \<Longrightarrow> wf_muhash m"
  using muhashPrime_le by (auto simp: wf_muhash_def)

lemma wf_muhash_New [simp, intro]: "wf_muhash NewMuHash"
  using muhashPrime_gt_1 by (intro wf_muhashI) (auto simp: NewMuHash_def)

lemma mod_muhashPrime_less: "x mod muhashPrime < 256 ^ muhashByteLen"
  using muhashPrime_gt_1 by (intro less_le_trans [OF _ muhashPrime_le]) simp

lemma wf_muhash_Add [simp, intro]: "wf_muhash m \<Longrightarrow> wf_muhash (MuHash_Add d m)"
  by (simp add: wf_muhash_def MuHash_Add_def mod_muhashPrime_less)

lemma wf_muhash_Remove [simp, intro]: "wf_muhash m \<Longrightarrow> wf_muhash (MuHash_Remove d m)"
  by (simp add: wf_muhash_def MuHash_Remove_def mod_muhashPrime_less)

lemma bigIntToLE_digest: "the (bigIntToLE (x mod muhashPrime) muhashByteLen) = le_bytes muhashByteLen (x mod muhashPrime)"
  by (simp add: bigIntToLE_def mod_muhashPrime_less)

lemma MuHash_Serialize_wf:
  "wf_muhash m \<Longrightarrow> MuHash_Serialize m = le_bytes 384 (numerator m) @ le_bytes 384 (denominator m)"
  by (simp add: MuHash_Serialize_def wf_muhash_def bigIntToLE_def muhashByteLen_def
      del: power_numeral)

lemma MuHash_Deserialize_Serialize:
  assumes "wf_muhash m"
  shows "MuHash_Deserialize (MuHash_Serialize m) = Inr m"
proof -
  have "numerator m < 256 ^ 384" "denominator m < 256 ^ 384"
    using assms by (simp_all only: wf_muhash_def muhashByteLen_def)
  then show ?thesis
    by (simp add: MuHash_Deserialize_def MuHash_Serialize_wf [OF assms] leToBigInt_def
        muhashSerializedSize_def muhashByteLen_def le_val_le_bytes del: power_numeral)
qed

lemma wf_muhash_Deserialize:
  assumes "MuHash_Deserialize data = Inr m"
  shows "wf_muhash m \<and> MuHash_Serialize m = data"
proof -
  have len: "length data = 768" and
    m: "m = \<lparr>numerator = le_val (take 384 data), denominator = le_val (drop 384 data)\<rparr>"
    using assms
    by (auto simp: MuHash_Deserialize_def muhashSerializedSize_def muhashByteLen_def
        leToBigInt_def split: if_splits)
  have wf: "wf_muhash m"
    using le_val_bound [of "take 384 data"] le_val_bound [of "drop 384 data"] len
    by (simp add: wf_muhash_def m muhashByteLen_def del: power_numeral)
  moreover have "MuHash_Serialize m = data"
    using le_bytes_le_val [of "take 384 data"] le_bytes_le_val [of "drop 384 data"] len
    by (subst MuHash_Serialize_wf [OF wf]) (simp add: m)
  ultimately show ?thesis by simp
qed

section \<open>Modular inverses\<close>

lemma ModInverse_Some:
  assumes "coprime g n" and "1 < n"
  obtains i where "ModInverse g n = Some i" and "g * i mod n = 1"
proof
  let ?i = "nat (fst (bezw g n) mod int n)"
  show "ModInverse g n = Some ?i" using assms by (simp add: ModInverse_def)
  have "1 = fst (bezw g n) * int g + snd (bezw g n) * int n"
    using bezw_aux [of g n] assms(1) by simp
  then have "int g * fst (bezw g n) mod int n = 1 mod int n"
    by (metis mod_mult_self1 mult.commute)
  then have "int (g * ?i mod n) = 1"
    using assms(2) by (simp add: zmod_int mod_mult_right_eq)
  then show "g * ?i mod n = 1" by linarith
qed

lemma ModInverse_None_iff: "ModInverse g n = None \<longleftrightarrow> \<not> coprime g n"
  by (simp add: ModInverse_def coprime_iff_gcd_eq_1)

section \<open>The accumulator represents a multiset\<close>

definition mset_num :: "bytes multiset \<Rightarrow> nat" where
  "mset_num ms = prod_mset (image_mset hashToNum ms) mod muhashPrime"

text \<open>The digest of a multiset, with no reference to how it came about.\<close>

definition mset_digest :: "bytes multiset \<Rightarrow> hash" where
  "mset_digest ms = sha256_Sum256 (le_bytes muhashByteLen (mset_num ms))"

definition represents :: "MuHash \<Rightarrow> bytes multiset \<Rightarrow> bool" where
  "represents m ms \<longleftrightarrow> wf_muhash m \<and>
     numerator m mod muhashPrime =
       denominator m * prod_mset (image_mset hashToNum ms) mod muhashPrime"

lemma represents_New [simp, intro]: "represents NewMuHash {#}"
  unfolding represents_def by (rule conjI [OF wf_muhash_New]) (simp add: NewMuHash_def)

lemma represents_Add:
  assumes "represents m ms"
  shows "represents (MuHash_Add d m) (add_mset d ms)"
proof -
  let ?p = muhashPrime and ?P = "prod_mset (image_mset hashToNum ms)" and ?h = "hashToNum d"
  have "numerator m * ?h mod ?p = (denominator m * ?P) * ?h mod ?p"
    using assms unfolding represents_def by (metis mod_mult_left_eq)
  then show ?thesis
    using assms by (simp add: represents_def) (simp add: MuHash_Add_def ac_simps)
qed

lemma represents_Remove:
  assumes "represents m (add_mset d ms)"
  shows "represents (MuHash_Remove d m) ms"
proof -
  let ?p = muhashPrime and ?P = "prod_mset (image_mset hashToNum ms)" and ?h = "hashToNum d"
  have "denominator m * (?h * ?P) mod ?p = (denominator m * ?h mod ?p) * ?P mod ?p"
    by (simp only: mod_mult_left_eq mult.assoc)
  then show ?thesis
    using assms by (simp add: represents_def) (simp add: MuHash_Remove_def)
qed

theorem MuHash_Digest_represents:
  assumes "represents m ms"
  shows "MuHash_Digest m =
    (if coprime (denominator m) muhashPrime then Inr (mset_digest ms) else Inl ErrMuHashNoInverse)"
proof (cases "coprime (denominator m) muhashPrime")
  case False
  then show ?thesis by (simp add: MuHash_Digest_def ModInverse_None_iff [THEN iffD2])
next
  case True
  let ?p = muhashPrime and ?P = "prod_mset (image_mset hashToNum ms)"
  obtain i where i: "ModInverse (denominator m) ?p = Some i" "denominator m * i mod ?p = 1"
    using ModInverse_Some [OF True muhashPrime_gt_1] .
  have "numerator m * i mod ?p = denominator m * ?P * i mod ?p"
    using assms unfolding represents_def by (metis mod_mult_left_eq)
  also have "\<dots> = (denominator m * i) * ?P mod ?p" by (simp add: ac_simps)
  also have "\<dots> = ?P mod ?p" by (metis i(2) mod_mult_left_eq mult_1)
  finally have "numerator m * i mod ?p = mset_num ms" by (simp add: mset_num_def)
  moreover have "the (bigIntToLE (mset_num ms) muhashByteLen) = le_bytes muhashByteLen (mset_num ms)"
    by (simp add: mset_num_def bigIntToLE_digest)
  ultimately show ?thesis using True i by (simp add: MuHash_Digest_def mset_digest_def)
qed

lemma represents_fold_Add: "represents m ms \<Longrightarrow> represents (fold MuHash_Add xs m) (mset xs + ms)"
proof (induction xs arbitrary: m ms)
  case (Cons x xs)
  from Cons.IH [OF represents_Add [OF Cons.prems]] show ?case by simp
qed simp

lemma represents_fold_Remove:
  "represents m (mset xs + ms) \<Longrightarrow> represents (fold MuHash_Remove xs m) ms"
  by (induction xs arbitrary: m) (auto intro: represents_Remove)

lemma denominator_fold_Add [simp]: "denominator (fold MuHash_Add xs m) = denominator m"
  by (induction xs arbitrary: m) (simp_all add: MuHash_Add_def)

section \<open>Properties\<close>

text \<open>C22: the accumulator computes the digest of a multiset.  After any elements are added, in any
  order, and some of them removed again, in any order, the digest is that of the multiset that
  remains, unless a removed element has no inverse modulo the prime; then \<open>Digest\<close> fails.\<close>

theorem muhash_digest_of_multiset:
  assumes "mset removed \<subseteq># mset added" and "m = fold MuHash_Remove removed (fold MuHash_Add added NewMuHash)"
  shows "MuHash_Digest m = (if coprime (denominator m) muhashPrime
    then Inr (mset_digest (mset added - mset removed)) else Inl ErrMuHashNoInverse)"
proof (rule MuHash_Digest_represents)
  have "represents (fold MuHash_Add added NewMuHash) (mset removed + (mset added - mset removed))"
    using represents_fold_Add [OF represents_New, of added] assms(1) by (simp add: subset_mset.add_diff_inverse)
  then show "represents m (mset added - mset removed)"
    unfolding assms(2) by (rule represents_fold_Remove)
qed

theorem muhash_digest_of_multiset_witness:
  "MuHash_Digest (MuHash_Add [1] (MuHash_Add [2] NewMuHash)) =
     MuHash_Digest (MuHash_Add [2] (MuHash_Add [1] NewMuHash))"
proof -
  have m: "mset [] \<subseteq># mset [[2], [1 :: byte]]" "mset [] \<subseteq># mset [[1], [2 :: byte]]" by simp_all
  have "denominator (MuHash_Add [1] (MuHash_Add [2] NewMuHash)) = 1"
    "denominator (MuHash_Add [2] (MuHash_Add [1] NewMuHash)) = 1"
    by (simp_all add: MuHash_Add_def NewMuHash_def)
  then show ?thesis
    using muhash_digest_of_multiset [OF m(1) refl] muhash_digest_of_multiset [OF m(2) refl]
    by (simp add: add_mset_commute)
qed

text \<open>The stored form of the accumulator loses nothing.  It is 768 bytes; reading it back gives
  the accumulator, every string of 768 bytes is the form of the accumulator read from it, and any
  other length is an error.\<close>

theorem muhash_serialize_round_trip:
  "(wf_muhash m \<longrightarrow> length (MuHash_Serialize m) = 768 \<and> MuHash_Deserialize (MuHash_Serialize m) = Inr m)
    \<and> (if length data = 768 then \<exists>m'. MuHash_Deserialize data = Inr m' \<and> wf_muhash m' \<and> MuHash_Serialize m' = data
       else \<not> is_ok (MuHash_Deserialize data))"
proof (intro conjI impI)
  assume "wf_muhash m"
  then show "length (MuHash_Serialize m) = 768" by (simp add: MuHash_Serialize_wf)
next
  assume "wf_muhash m"
  then show "MuHash_Deserialize (MuHash_Serialize m) = Inr m" by (rule MuHash_Deserialize_Serialize)
next
  show "if length data = 768 then \<exists>m'. MuHash_Deserialize data = Inr m' \<and> wf_muhash m' \<and> MuHash_Serialize m' = data
       else \<not> is_ok (MuHash_Deserialize data)"
  proof (cases "length data = 768")
    case True
    then obtain m' where "MuHash_Deserialize data = Inr m'"
      by (simp add: MuHash_Deserialize_def muhashSerializedSize_def muhashByteLen_def Let_def)
    then show ?thesis using wf_muhash_Deserialize True by auto
  next
    case False
    then show ?thesis by (simp add: MuHash_Deserialize_def muhashSerializedSize_def muhashByteLen_def)
  qed
qed

theorem muhash_serialize_round_trip_witness:
  "MuHash_Deserialize (MuHash_Serialize NewMuHash) = Inr NewMuHash"
  using muhash_serialize_round_trip [of NewMuHash "[]"] wf_muhash_New by simp

end
