(* ===== verification/Go_Strings.thy ===== *)
theory Go_Strings
  imports Go_Prelude
begin

text \<open>
  The string functions of the Go standard library the sources use, on byte strings:
  \<open>strings.HasPrefix\<close>, \<open>strings.Split\<close> on a one-byte separator, \<open>strconv.ParseInt\<close> and
  \<open>strconv.Atoi\<close> in base ten, the \<open>%d\<close> verb, and \<open>encoding/hex\<close>.
\<close>

definition str_bytes :: "string \<Rightarrow> bytes" where
  "str_bytes s = map (\<lambda>c. of_nat (of_char c)) s"

definition HasPrefix :: "bytes \<Rightarrow> bytes \<Rightarrow> bool" where
  "HasPrefix s p \<longleftrightarrow> take (length p) s = p"

fun Split :: "byte \<Rightarrow> bytes \<Rightarrow> bytes list" where
  "Split sep [] = [[]]"
| "Split sep (b # bs) =
     (if b = sep then [] # Split sep bs
      else case Split sep bs of p # ps \<Rightarrow> (b # p) # ps | [] \<Rightarrow> [[b]])"

section \<open>Decimal numbers\<close>

definition is_digit :: "byte \<Rightarrow> bool" where
  "is_digit b \<longleftrightarrow> 48 \<le> unat b \<and> unat b \<le> 57"

definition digits_val :: "bytes \<Rightarrow> nat" where
  "digits_val bs = foldl (\<lambda>n b. 10 * n + (unat b - 48)) 0 bs"

text \<open>An unsigned decimal: at least one digit and nothing else.\<close>

definition parse_digits :: "bytes \<Rightarrow> nat option" where
  "parse_digits bs = (if bs \<noteq> [] \<and> list_all is_digit bs then Some (digits_val bs) else None)"

text \<open>\<open>strconv.ParseInt(s, 10, w)\<close>: an optional sign, a decimal, and the range of the width.\<close>

definition ParseInt :: "nat \<Rightarrow> bytes \<Rightarrow> int option" where
  "ParseInt w s =
     (let (neg, ds) = (case s of
            b # bs \<Rightarrow> if b = 0x2d then (True, bs) else if b = 0x2b then (False, bs) else (False, s)
          | [] \<Rightarrow> (False, []))
      in case parse_digits ds of
           None \<Rightarrow> None
         | Some n \<Rightarrow>
             let v = (if neg then - int n else int n)
             in if - (2 ^ (w - 1)) \<le> v \<and> v < 2 ^ (w - 1) then Some v else None)"

definition Atoi :: "bytes \<Rightarrow> int option" where
  "Atoi s = ParseInt 64 s"

fun print_digits :: "nat \<Rightarrow> bytes" where
  "print_digits n =
     (if n < 10 then [of_nat (48 + n)] else print_digits (n div 10) @ [of_nat (48 + n mod 10)])"

declare print_digits.simps [simp del]

text \<open>The \<open>%d\<close> verb.\<close>

definition print_int :: "int \<Rightarrow> bytes" where
  "print_int v = (if v < 0 then 0x2d # print_digits (nat (- v)) else print_digits (nat v))"

lemma digit_byte:
  assumes "d < 10"
  shows "is_digit (of_nat (48 + d))" and "unat (of_nat (48 + d) :: byte) - 48 = d"
proof -
  have "unat (of_nat (48 + d) :: byte) = 48 + d"
    using assms by (simp only: unat_of_nat_byte) simp
  with assms show "is_digit (of_nat (48 + d))" and "unat (of_nat (48 + d) :: byte) - 48 = d"
    by (simp_all only: is_digit_def) simp_all
qed

lemma print_digits_digits: "list_all is_digit (print_digits n)"
proof (induction n rule: print_digits.induct)
  case (1 n)
  then show ?case
    using digit_byte(1) [of n] digit_byte(1) [of "n mod 10"]
    by (subst print_digits.simps) simp
qed

lemma digits_val_print: "digits_val (print_digits n) = n"
proof (induction n rule: print_digits.induct)
  case (1 n)
  then show ?case
    using digit_byte(2) [of n] digit_byte(2) [of "n mod 10"]
    by (subst print_digits.simps) (simp add: digits_val_def del: of_nat_add)
qed

lemma print_digits_nonempty [simp]: "print_digits n \<noteq> []"
  by (subst print_digits.simps) simp

lemma parse_print_digits [simp]: "parse_digits (print_digits n) = Some n"
  by (simp add: parse_digits_def print_digits_digits digits_val_print)

lemma print_digits_no:
  assumes "\<not> is_digit c"
  shows "c \<notin> set (print_digits n)"
  using print_digits_digits [of n] assms by (auto simp: list_all_iff)

lemma hd_print_digits: "\<not> is_digit c \<Longrightarrow> print_digits n = b # bs \<Longrightarrow> b \<noteq> c"
  using print_digits_no [of c n] by auto

lemma ParseInt_print:
  assumes "- (2 ^ (w - 1)) \<le> v" and "v < 2 ^ (w - 1)"
  shows "ParseInt w (print_int v) = Some v"
proof -
  have nd: "\<not> is_digit 0x2d" "\<not> is_digit 0x2b" by (simp_all add: is_digit_def)
  show ?thesis
  proof (cases "v < 0")
    case True
    then show ?thesis using assms by (simp add: ParseInt_def print_int_def)
  next
    case False
    obtain b bs where p: "print_digits (nat v) = b # bs" by (cases "print_digits (nat v)") auto
    have "b \<noteq> 0x2d" "b \<noteq> 0x2b" using hd_print_digits [OF nd(1) p] hd_print_digits [OF nd(2) p] by auto
    then show ?thesis
      using assms False parse_print_digits [of "nat v"] by (simp add: ParseInt_def print_int_def p)
  qed
qed

lemma print_int_no_colon: "0x3a \<notin> set (print_int v)"
  using print_digits_no [of "0x3a"] by (simp add: print_int_def is_digit_def)

section \<open>Splitting\<close>

lemma Split_nonempty [simp]: "Split sep s \<noteq> []"
  by (induction sep s rule: Split.induct) (auto split: list.splits)

lemma Split_no_sep: "sep \<notin> set s \<Longrightarrow> Split sep s = [s]"
  by (induction s) auto

lemma Split_append: "sep \<notin> set s \<Longrightarrow> Split sep (s @ sep # t) = s # Split sep t"
  by (induction s) auto

section \<open>Hexadecimal\<close>

definition hex_digit :: "nat \<Rightarrow> byte" where
  "hex_digit n = (if n < 10 then of_nat (48 + n) else of_nat (87 + n))"

definition hex_encode :: "bytes \<Rightarrow> bytes" where
  "hex_encode bs = concat (map (\<lambda>b. [hex_digit (unat b div 16), hex_digit (unat b mod 16)]) bs)"

definition hex_val :: "byte \<Rightarrow> nat option" where
  "hex_val c =
     (let n = unat c in
      if 48 \<le> n \<and> n \<le> 57 then Some (n - 48)
      else if 97 \<le> n \<and> n \<le> 102 then Some (n - 87)
      else if 65 \<le> n \<and> n \<le> 70 then Some (n - 55)
      else None)"

fun hex_decode :: "bytes \<Rightarrow> bytes option" where
  "hex_decode [] = Some []"
| "hex_decode [c] = None"
| "hex_decode (c # d # cs) =
     (case (hex_val c, hex_val d, hex_decode cs) of
        (Some a, Some b, Some bs) \<Rightarrow> Some (of_nat (16 * a + b) # bs)
      | _ \<Rightarrow> None)"

lemma unat_hex_digit:
  assumes "n < 16"
  shows "unat (hex_digit n) = (if n < 10 then 48 + n else 87 + n)"
  unfolding hex_digit_def using assms
  by (cases "n < 10") (simp_all only: if_True if_False unat_of_nat_byte, simp_all)

lemma hex_val_digit: "n < 16 \<Longrightarrow> hex_val (hex_digit n) = Some n"
  by (simp add: hex_val_def unat_hex_digit Let_def)

lemma hex_decode_encode [simp]: "hex_decode (hex_encode bs) = Some bs"
proof (induction bs)
  case (Cons b bs)
  have "unat b div 16 < 16" "unat b mod 16 < 16" using unat_byte_bound [of b] by auto
  moreover have "(of_nat (16 * (unat b div 16) + unat b mod 16) :: byte) = b"
    by (simp only: mult_div_mod_eq of_nat_unat ucast_id)
  ultimately show ?case using Cons by (simp add: hex_encode_def hex_val_digit del: of_nat_add)
qed (simp add: hex_encode_def)

lemma length_hex_encode [simp]: "length (hex_encode bs) = 2 * length bs"
  by (induction bs) (simp_all add: hex_encode_def)

lemma hex_encode_no_colon: "0x3a \<notin> set (hex_encode bs)"
proof -
  have "hex_digit n \<noteq> 0x3a" if "n < 16" for n
    using unat_hex_digit [OF that] by (auto simp: word_unat_eq_iff split: if_splits)
  moreover have "unat b div 16 < 16" "unat b mod 16 < 16" for b :: byte
    using unat_byte_bound [of b] by auto
  ultimately show ?thesis by (fastforce simp: hex_encode_def)
qed

end
