(* ===== verification/Expiry_Buckets.thy ===== *)
theory Expiry_Buckets
  imports Mu_Hash Go_Strings
begin

text \<open>
  The database layout of the expiry index: its five buckets, the metadata values and their encodings
  (\<open>blockchain/expiryindex/buckets.go\<close>, \<open>accumulator.go\<close>), and the explicit reset of the persisted
  state (\<open>reindex.go\<close>).

  A database transaction is the record of the five buckets, \<open>None\<close> for one that does not exist.
  An operation that returns an error returns no state: \<open>database.Update\<close> rolls back.
\<close>

section \<open>State\<close>

record expiry_db =
  bktExpiryMeta :: "bucket option"
  bktOutpoint2Expiry :: "bucket option"
  bktExpiry2Outpoints :: "bucket option"
  bktReapStrictCandidates :: "bucket option"
  bktOutpoint2ReapStrict :: "bucket option"

definition keyTipHeightIndexed :: bytes where
  "keyTipHeightIndexed = str_bytes ''tip-height''"

definition keyIndexVersion :: bytes where
  "keyIndexVersion = str_bytes ''version''"

definition keyAccumulatorState :: bytes where
  "keyAccumulatorState = str_bytes ''accumulator-state''"

definition keyAccumulatorTipHash :: bytes where
  "keyAccumulatorTipHash = str_bytes ''accumulator-tip-hash''"

definition CurrentIndexVersion :: u16 where "CurrentIndexVersion = 6"
definition DefaultBatchSize :: nat where "DefaultBatchSize = 1000"

section \<open>Metadata\<close>

text \<open>The operations of a bucket that exists; a missing one is the error of the callers.\<close>

definition in_bucket :: "bucket option \<Rightarrow> index_error + bucket" where
  "in_bucket ob = (case ob of None \<Rightarrow> Inl ErrBucketNotFound | Some b \<Rightarrow> Inr b)"

definition put_in :: "bytes \<Rightarrow> bytes \<Rightarrow> bucket \<Rightarrow> index_error + bucket" where
  "put_in k v b = (case bucket_Put k v b of Inl e \<Rightarrow> Inl (ErrDatabase e) | Inr b' \<Rightarrow> Inr b')"

definition dbPutIndexMeta :: "bytes \<Rightarrow> bytes \<Rightarrow> expiry_db \<Rightarrow> index_error + expiry_db" where
  "dbPutIndexMeta key v db =
     bind_r (in_bucket (bktExpiryMeta db)) (\<lambda>metaBucket.
     bind_r (put_in key v metaBucket) (\<lambda>b.
     Inr (db\<lparr>bktExpiryMeta := Some b\<rparr>)))"

definition dbGetIndexMeta :: "bytes \<Rightarrow> expiry_db \<Rightarrow> index_error + bytes option" where
  "dbGetIndexMeta key db =
     bind_r (in_bucket (bktExpiryMeta db)) (\<lambda>metaBucket. Inr (bucket_Get key metaBucket))"

definition dbPutTipHeightIndexed :: "int32 \<Rightarrow> expiry_db \<Rightarrow> index_error + expiry_db" where
  "dbPutTipHeightIndexed height =
     dbPutIndexMeta keyTipHeightIndexed (le_bytes 4 (unat (of_int height :: u32)))"

definition dbGetTipHeightIndexed :: "expiry_db \<Rightarrow> index_error + int32" where
  "dbGetTipHeightIndexed db =
     bind_r (dbGetIndexMeta keyTipHeightIndexed db) (\<lambda>heightBytes.
       case heightBytes of
         None \<Rightarrow> Inr (-1)
       | Some bs \<Rightarrow>
           if length bs \<noteq> 4 then Inl ErrInvalidMetadata
           else Inr (wrap32 (int (le_val bs))))"

definition dbPutIndexVersion :: "u16 \<Rightarrow> expiry_db \<Rightarrow> index_error + expiry_db" where
  "dbPutIndexVersion version = dbPutIndexMeta keyIndexVersion (le_bytes 2 (unat version))"

definition dbGetIndexVersion :: "expiry_db \<Rightarrow> index_error + u16" where
  "dbGetIndexVersion db =
     bind_r (dbGetIndexMeta keyIndexVersion db) (\<lambda>versionBytes.
       case versionBytes of
         None \<Rightarrow> Inr 0
       | Some bs \<Rightarrow> if length bs \<noteq> 2 then Inl ErrInvalidMetadata else Inr (of_nat (le_val bs)))"

definition dbGetAccumulatorState :: "expiry_db \<Rightarrow> index_error + MuHash" where
  "dbGetAccumulatorState db =
     bind_r (dbGetIndexMeta keyAccumulatorState db) (\<lambda>data.
       case data of None \<Rightarrow> Inr NewMuHash | Some bs \<Rightarrow> MuHash_Deserialize bs)"

definition dbPutAccumulatorState :: "MuHash \<Rightarrow> expiry_db \<Rightarrow> index_error + expiry_db" where
  "dbPutAccumulatorState mh = dbPutIndexMeta keyAccumulatorState (MuHash_Serialize mh)"

record AccumulatorSnapshot =
  snap_Root :: hash
  snap_TipHash :: hash
  snap_TipHeight :: int32

definition dbGetAccumulatorTipHash :: "expiry_db \<Rightarrow> index_error + hash" where
  "dbGetAccumulatorTipHash db =
     bind_r (dbGetIndexMeta keyAccumulatorTipHash db) (\<lambda>data.
       case data of
         None \<Rightarrow> Inr 0
       | Some bs \<Rightarrow> if length bs \<noteq> 32 then Inl ErrInvalidMetadata else Inr (hash_of_bytes bs))"

definition dbPutAccumulatorTipHash :: "hash option \<Rightarrow> expiry_db \<Rightarrow> index_error + expiry_db" where
  "dbPutAccumulatorTipHash h =
     dbPutIndexMeta keyAccumulatorTipHash
       (case h of None \<Rightarrow> replicate 32 0 | Some x \<Rightarrow> hash_bytes x)"

section \<open>Creating, dropping and clearing the buckets\<close>

definition create_bucket :: "bucket option \<Rightarrow> bucket option" where
  "create_bucket ob = (case ob of None \<Rightarrow> Some [] | Some b \<Rightarrow> Some b)"

definition createExpiryIndexBuckets :: "expiry_db \<Rightarrow> expiry_db" where
  "createExpiryIndexBuckets db =
     \<lparr>bktExpiryMeta = create_bucket (bktExpiryMeta db),
      bktOutpoint2Expiry = create_bucket (bktOutpoint2Expiry db),
      bktExpiry2Outpoints = create_bucket (bktExpiry2Outpoints db),
      bktReapStrictCandidates = create_bucket (bktReapStrictCandidates db),
      bktOutpoint2ReapStrict = create_bucket (bktOutpoint2ReapStrict db)\<rparr>"

definition dropExpiryIndexBuckets :: "expiry_db \<Rightarrow> index_error + expiry_db" where
  "dropExpiryIndexBuckets db =
     bind_r (in_bucket (bktOutpoint2ReapStrict db)) (\<lambda>_.
     bind_r (in_bucket (bktReapStrictCandidates db)) (\<lambda>_.
     bind_r (in_bucket (bktExpiry2Outpoints db)) (\<lambda>_.
     bind_r (in_bucket (bktOutpoint2Expiry db)) (\<lambda>_.
     bind_r (in_bucket (bktExpiryMeta db)) (\<lambda>_.
     Inr \<lparr>bktExpiryMeta = None, bktOutpoint2Expiry = None, bktExpiry2Outpoints = None,
          bktReapStrictCandidates = None, bktOutpoint2ReapStrict = None\<rparr>)))))"

text \<open>
  The three writes that end \<open>ConnectBlock\<close>, \<open>DisconnectBlock\<close>, the fast rebuild and the reset: the
  accumulator, the block hash it stands for, and the indexed height.
\<close>

definition putSnapshot :: "MuHash \<Rightarrow> hash \<Rightarrow> int32 \<Rightarrow> expiry_db \<Rightarrow> index_error + expiry_db" where
  "putSnapshot mh tipHash height db =
     bind_r (dbPutAccumulatorState mh db) (\<lambda>db.
     bind_r (dbPutAccumulatorTipHash (Some tipHash) db) (\<lambda>db.
     dbPutTipHeightIndexed height db))"

text \<open>A cursor loop that deletes every pair it visits.\<close>

definition clear_bucket :: "bucket \<Rightarrow> bucket" where
  "clear_bucket b = fold (\<lambda>kv. bucket_Delete (fst kv)) (cursor_First b) b"

definition clearExpiryIndexBuckets :: "expiry_db \<Rightarrow> index_error + expiry_db" where
  "clearExpiryIndexBuckets db =
     (let db = db\<lparr>bktOutpoint2Expiry := map_option clear_bucket (bktOutpoint2Expiry db)\<rparr>;
          db = db\<lparr>bktExpiry2Outpoints := map_option clear_bucket (bktExpiry2Outpoints db)\<rparr>;
          db = db\<lparr>bktReapStrictCandidates := map_option clear_bucket (bktReapStrictCandidates db)\<rparr>;
          db = db\<lparr>bktOutpoint2ReapStrict := map_option clear_bucket (bktOutpoint2ReapStrict db)\<rparr>
      in putSnapshot NewMuHash 0 (-1) db)"

definition ReindexExpiryIndex :: "expiry_db \<Rightarrow> index_error + expiry_db" where
  "ReindexExpiryIndex db =
     bind_r (clearExpiryIndexBuckets (createExpiryIndexBuckets db)) (\<lambda>db.
     bind_r (dbPutTipHeightIndexed (-1) db) (\<lambda>db.
     dbPutIndexVersion CurrentIndexVersion db))"

section \<open>The metadata as a map\<close>

definition has_meta :: "expiry_db \<Rightarrow> bool" where
  "has_meta db \<longleftrightarrow> (\<exists>b. bktExpiryMeta db = Some b \<and> wf_bucket b)"

definition meta_of :: "expiry_db \<Rightarrow> bytes \<Rightarrow> bytes option" where
  "meta_of db k = (case bktExpiryMeta db of None \<Rightarrow> None | Some b \<Rightarrow> bucket_Get k b)"

text \<open>Two databases with the same index entries, whatever their metadata.\<close>

definition same_entries :: "expiry_db \<Rightarrow> expiry_db \<Rightarrow> bool" where
  "same_entries db db' \<longleftrightarrow>
     bktOutpoint2Expiry db' = bktOutpoint2Expiry db \<and>
     bktExpiry2Outpoints db' = bktExpiry2Outpoints db \<and>
     bktReapStrictCandidates db' = bktReapStrictCandidates db \<and>
     bktOutpoint2ReapStrict db' = bktOutpoint2ReapStrict db"

lemma same_entries_refl [simp]: "same_entries db db"
  by (simp add: same_entries_def)

lemma same_entries_trans [trans]: "same_entries a b \<Longrightarrow> same_entries b c \<Longrightarrow> same_entries a c"
  by (simp add: same_entries_def)

lemma key_distinct [simp]:
  "keyTipHeightIndexed \<noteq> []" "keyIndexVersion \<noteq> []" "keyAccumulatorState \<noteq> []"
  "keyAccumulatorTipHash \<noteq> []"
  "keyTipHeightIndexed \<noteq> keyIndexVersion" "keyTipHeightIndexed \<noteq> keyAccumulatorState"
  "keyTipHeightIndexed \<noteq> keyAccumulatorTipHash" "keyIndexVersion \<noteq> keyAccumulatorState"
  "keyIndexVersion \<noteq> keyAccumulatorTipHash" "keyAccumulatorState \<noteq> keyAccumulatorTipHash"
  by (simp_all add: keyTipHeightIndexed_def keyIndexVersion_def keyAccumulatorState_def
      keyAccumulatorTipHash_def str_bytes_def)

lemmas key_distinct' [simp] = key_distinct(5-10) [symmetric]

lemma dbPutIndexMeta_ok:
  assumes "has_meta db" and "k \<noteq> []"
  obtains db' where "dbPutIndexMeta k v db = Inr db'" and "has_meta db'"
    and "meta_of db' = (meta_of db)(k \<mapsto> v)" and "same_entries db db'"
proof -
  obtain b where b: "bktExpiryMeta db = Some b" "wf_bucket b" using assms(1) by (auto simp: has_meta_def)
  obtain t where t: "bucket_Put k v b = Inr t" "wf_bucket t" "bucket_Get k t = Some v"
    "\<forall>k'. k' \<noteq> k \<longrightarrow> bucket_Get k' t = bucket_Get k' b"
    using bkt.put_ok [OF b(2) assms(2)] by blast
  show thesis
  proof (rule that)
    show "dbPutIndexMeta k v db = Inr (db\<lparr>bktExpiryMeta := Some t\<rparr>)"
      by (simp add: dbPutIndexMeta_def in_bucket_def put_in_def b t)
    show "has_meta (db\<lparr>bktExpiryMeta := Some t\<rparr>)" using t by (simp add: has_meta_def)
    show "meta_of (db\<lparr>bktExpiryMeta := Some t\<rparr>) = (meta_of db)(k \<mapsto> v)"
      using t b by (auto simp: meta_of_def fun_eq_iff)
    show "same_entries db (db\<lparr>bktExpiryMeta := Some t\<rparr>)" by (simp add: same_entries_def)
  qed
qed

lemma dbGetIndexMeta_ok: "has_meta db \<Longrightarrow> dbGetIndexMeta k db = Inr (meta_of db k)"
  by (auto simp: has_meta_def dbGetIndexMeta_def in_bucket_def meta_of_def)

text \<open>What the getters read is a function of the metadata map.\<close>

lemma dbGetTipHeightIndexed_meta:
  "has_meta db \<Longrightarrow> dbGetTipHeightIndexed db =
     (case meta_of db keyTipHeightIndexed of None \<Rightarrow> Inr (-1)
      | Some bs \<Rightarrow> if length bs \<noteq> 4 then Inl ErrInvalidMetadata else Inr (wrap32 (int (le_val bs))))"
  by (simp add: dbGetTipHeightIndexed_def dbGetIndexMeta_ok)

lemma dbGetAccumulatorState_meta:
  "has_meta db \<Longrightarrow> dbGetAccumulatorState db =
     (case meta_of db keyAccumulatorState of None \<Rightarrow> Inr NewMuHash | Some bs \<Rightarrow> MuHash_Deserialize bs)"
  by (simp add: dbGetAccumulatorState_def dbGetIndexMeta_ok)

lemma dbGetAccumulatorTipHash_meta:
  "has_meta db \<Longrightarrow> dbGetAccumulatorTipHash db =
     (case meta_of db keyAccumulatorTipHash of None \<Rightarrow> Inr 0
      | Some bs \<Rightarrow> if length bs \<noteq> 32 then Inl ErrInvalidMetadata else Inr (hash_of_bytes bs))"
  by (simp add: dbGetAccumulatorTipHash_def dbGetIndexMeta_ok)

lemma dbGetIndexVersion_meta:
  "has_meta db \<Longrightarrow> dbGetIndexVersion db =
     (case meta_of db keyIndexVersion of None \<Rightarrow> Inr 0
      | Some bs \<Rightarrow> if length bs \<noteq> 2 then Inl ErrInvalidMetadata else Inr (of_nat (le_val bs)))"
  by (simp add: dbGetIndexVersion_def dbGetIndexMeta_ok)

lemma wrap32_height:
  assumes "is_int32 h"
  shows "wrap32 (int (le_val (le_bytes 4 (unat (of_int h :: u32))))) = h"
proof -
  have "wrap32 (int (unat (of_int h :: u32))) = sint (of_int h :: u32)"
    by (simp add: wrap32_def sint_uint)
  also have "\<dots> = wrap32 h" by (simp add: wrap32_def signed_of_int)
  finally show ?thesis using assms by (simp add: wrap32_id)
qed

text \<open>The state the metadata records: accumulator, block hash and height.\<close>

definition snapshot_is :: "MuHash \<Rightarrow> hash \<Rightarrow> int32 \<Rightarrow> expiry_db \<Rightarrow> bool" where
  "snapshot_is mh tipHash height db \<longleftrightarrow> has_meta db
     \<and> dbGetAccumulatorState db = Inr mh
     \<and> dbGetAccumulatorTipHash db = Inr tipHash
     \<and> dbGetTipHeightIndexed db = Inr height"

lemma snapshot_is_meta:
  assumes "has_meta db" and "wf_muhash mh" and "is_int32 height"
    and "meta_of db keyAccumulatorState = Some (MuHash_Serialize mh)"
    and "meta_of db keyAccumulatorTipHash = Some (hash_bytes tipHash)"
    and "meta_of db keyTipHeightIndexed = Some (le_bytes 4 (unat (of_int height :: u32)))"
  shows "snapshot_is mh tipHash height db"
  using assms wrap32_height [OF assms(3)]
  by (simp add: snapshot_is_def dbGetAccumulatorState_meta dbGetAccumulatorTipHash_meta
      dbGetTipHeightIndexed_meta MuHash_Deserialize_Serialize del: le_val_u32)

lemma putSnapshot_ok:
  assumes "has_meta db" and "wf_muhash mh" and "is_int32 height"
  obtains db' where "putSnapshot mh tipHash height db = Inr db'" and "same_entries db db'"
    and "snapshot_is mh tipHash height db'"
    and "meta_of db' keyIndexVersion = meta_of db keyIndexVersion"
proof -
  obtain db1 where 1: "dbPutIndexMeta keyAccumulatorState (MuHash_Serialize mh) db = Inr db1"
    "has_meta db1" "meta_of db1 = (meta_of db)(keyAccumulatorState \<mapsto> MuHash_Serialize mh)"
    "same_entries db db1"
    using dbPutIndexMeta_ok [OF assms(1), of keyAccumulatorState] by auto
  obtain db2 where 2: "dbPutIndexMeta keyAccumulatorTipHash (hash_bytes tipHash) db1 = Inr db2"
    "has_meta db2" "meta_of db2 = (meta_of db1)(keyAccumulatorTipHash \<mapsto> hash_bytes tipHash)"
    "same_entries db1 db2"
    using dbPutIndexMeta_ok [OF 1(2), of keyAccumulatorTipHash] by auto
  obtain db3 where 3:
    "dbPutIndexMeta keyTipHeightIndexed (le_bytes 4 (unat (of_int height :: u32))) db2 = Inr db3"
    "has_meta db3"
    "meta_of db3 = (meta_of db2)(keyTipHeightIndexed \<mapsto> le_bytes 4 (unat (of_int height :: u32)))"
    "same_entries db2 db3"
    using dbPutIndexMeta_ok [OF 2(2), of keyTipHeightIndexed] by auto
  show thesis
  proof (rule that)
    show "putSnapshot mh tipHash height db = Inr db3"
      by (simp add: putSnapshot_def dbPutAccumulatorState_def dbPutAccumulatorTipHash_def
          dbPutTipHeightIndexed_def 1(1) 2(1) 3(1))
    show "same_entries db db3" using 1(4) 2(4) 3(4) by (blast intro: same_entries_trans)
    show "snapshot_is mh tipHash height db3"
      using 3(2) assms(2,3) by (rule snapshot_is_meta) (simp_all add: 1(3) 2(3) 3(3))
    show "meta_of db3 keyIndexVersion = meta_of db keyIndexVersion"
      by (simp add: 1(3) 2(3) 3(3))
  qed
qed

lemma dbPutIndexVersion_ok:
  assumes "has_meta db"
  obtains db' where "dbPutIndexVersion v db = Inr db'" and "same_entries db db'"
    and "dbGetIndexVersion db' = Inr v" and "\<And>mh h n. snapshot_is mh h n db \<Longrightarrow> snapshot_is mh h n db'"
proof -
  obtain db' where d: "dbPutIndexMeta keyIndexVersion (le_bytes 2 (unat v)) db = Inr db'"
    "has_meta db'" "meta_of db' = (meta_of db)(keyIndexVersion \<mapsto> le_bytes 2 (unat v))"
    "same_entries db db'"
    using dbPutIndexMeta_ok [OF assms, of keyIndexVersion] by auto
  have "unat v < 256 ^ 2" using unsigned_less [of v, where ?'a = nat] by simp
  then have v: "le_val (le_bytes 2 (unat v)) = unat v" by (simp only: le_val_le_bytes mod_less)
  show thesis
  proof (rule that)
    show "dbPutIndexVersion v db = Inr db'" by (simp add: dbPutIndexVersion_def d(1))
    show "same_entries db db'" by (rule d(4))
    show "dbGetIndexVersion db' = Inr v" by (simp add: dbGetIndexVersion_meta d(2,3) v)
    show "snapshot_is mh h n db'" if "snapshot_is mh h n db" for mh h n
      using that d(2) assms by (simp add: snapshot_is_def dbGetAccumulatorState_meta
          dbGetAccumulatorTipHash_meta dbGetTipHeightIndexed_meta d(3))
  qed
qed

section \<open>Clearing\<close>

lemma clear_fold: "wf_bucket b \<Longrightarrow> fold (\<lambda>kv. bucket_Delete (fst kv)) b b = []"
proof (induction b)
  case (Cons kv b)
  then show ?case by (cases kv) (auto simp: wf_bucket_Cons bucket_Delete_def)
qed simp

lemma clear_bucket_wf [simp]: "wf_bucket b \<Longrightarrow> clear_bucket b = []"
  by (simp add: clear_bucket_def cursor_First_def clear_fold)

end
