(* ===== verification/Expiry_Entries.thy ===== *)
theory Expiry_Entries
  imports Expiry_Buckets
begin

text \<open>
  The entries of the expiry index: \<open>putTxOutMapping\<close> and \<open>disconnectTxOut\<close> of
  \<open>blockchain/expiryindex/expiryindex.go\<close>, which keep four buckets in step.

  \<open>index_rep db M\<close> is the contract: the four buckets hold exactly the map \<open>M\<close> from outpoints to
  expiry key and amount, each in its own encoding.  Both operations refine the update of \<open>M\<close>, and the
  map determines the buckets.
\<close>

section \<open>Operations\<close>

definition putTxOutMapping :: "OutPoint \<Rightarrow> u64 \<Rightarrow> int64 \<Rightarrow> expiry_db \<Rightarrow> index_error + expiry_db" where
  "putTxOutMapping outpoint expiryKey amount db =
     bind_r (in_bucket (bktOutpoint2Expiry db)) (\<lambda>outpointBucket.
     bind_r (in_bucket (bktExpiry2Outpoints db)) (\<lambda>expiryBucket.
     bind_r (in_bucket (bktReapStrictCandidates db)) (\<lambda>reapBucket.
     bind_r (in_bucket (bktOutpoint2ReapStrict db)) (\<lambda>reapOutpointBucket.
     bind_r (put_in (encodeOutPoint outpoint) (encodeExpiryKey expiryKey) outpointBucket) (\<lambda>b1.
     bind_r (put_in (encodeExpiryOutpointCompositeKey expiryKey outpoint) [] expiryBucket) (\<lambda>b2.
     bind_r (encodeReapStrictCompositeKey expiryKey amount outpoint) (\<lambda>reapKey.
     bind_r (put_in reapKey [] reapBucket) (\<lambda>b3.
     bind_r (put_in (encodeOutPoint outpoint) reapKey reapOutpointBucket) (\<lambda>b4.
     Inr (db\<lparr>bktOutpoint2Expiry := Some b1, bktExpiry2Outpoints := Some b2,
             bktReapStrictCandidates := Some b3, bktOutpoint2ReapStrict := Some b4\<rparr>))))))))))"

definition require :: "'a option \<Rightarrow> index_error \<Rightarrow> index_error + 'a" where
  "require v e = (case v of None \<Rightarrow> Inl e | Some x \<Rightarrow> Inr x)"

definition disconnectTxOut :: "OutPoint \<Rightarrow> expiry_db \<Rightarrow> index_error + expiry_db" where
  "disconnectTxOut outpoint db =
     (let encodedOutpoint = encodeOutPoint outpoint in
      bind_r (in_bucket (bktOutpoint2Expiry db)) (\<lambda>outpointBucket.
      case bucket_Get encodedOutpoint outpointBucket of
        None \<Rightarrow> Inr db
      | Some encodedExpiryKey \<Rightarrow>
          bind_r (decodeExpiryKey encodedExpiryKey) (\<lambda>expiryKey.
          bind_r (in_bucket (bktExpiry2Outpoints db)) (\<lambda>expiryBucket.
          bind_r (in_bucket (bktReapStrictCandidates db)) (\<lambda>reapBucket.
          bind_r (in_bucket (bktOutpoint2ReapStrict db)) (\<lambda>reapOutpointBucket.
          let compositeKey = encodeExpiryOutpointCompositeKey expiryKey outpoint in
          bind_r (require (bucket_Get compositeKey expiryBucket) ErrInconsistentIndex) (\<lambda>_.
          bind_r (require (bucket_Get encodedOutpoint reapOutpointBucket) ErrInconsistentIndex) (\<lambda>reapKey.
          bind_r (require (bucket_Get reapKey reapBucket) ErrInconsistentIndex) (\<lambda>_.
          Inr (db\<lparr>bktOutpoint2Expiry := Some (bucket_Delete encodedOutpoint outpointBucket),
                  bktExpiry2Outpoints := Some (bucket_Delete compositeKey expiryBucket),
                  bktOutpoint2ReapStrict := Some (bucket_Delete encodedOutpoint reapOutpointBucket),
                  bktReapStrictCandidates := Some (bucket_Delete reapKey reapBucket)\<rparr>))))))))))"

section \<open>The map the buckets represent\<close>

type_synonym idx_map = "OutPoint \<rightharpoonup> u64 \<times> int64"

definition rep_o2e :: "idx_map \<Rightarrow> bytes \<Rightarrow> bytes option" where
  "rep_o2e M k = (case decodeOutPoint k of
     Inl _ \<Rightarrow> None | Inr op \<Rightarrow> map_option (\<lambda>(e, a). encodeExpiryKey e) (M op))"

definition rep_e2o :: "idx_map \<Rightarrow> bytes \<Rightarrow> bytes option" where
  "rep_e2o M k = (case decodeExpiryOutpointCompositeKey k of
     Inl _ \<Rightarrow> None
   | Inr (e, op) \<Rightarrow> (if map_option fst (M op) = Some e then Some [] else None))"

definition rep_rsc :: "idx_map \<Rightarrow> bytes \<Rightarrow> bytes option" where
  "rep_rsc M k = (case decodeReapStrictCompositeKey k of
     Inl _ \<Rightarrow> None | Inr (e, a, op) \<Rightarrow> (if M op = Some (e, a) then Some [] else None))"

definition rep_o2r :: "idx_map \<Rightarrow> bytes \<Rightarrow> bytes option" where
  "rep_o2r M k = (case decodeOutPoint k of
     Inl _ \<Rightarrow> None
   | Inr op \<Rightarrow> map_option (\<lambda>(e, a). strict_key \<lparr>ok_expiry = e, ok_amount = a, ok_op = op\<rparr>) (M op))"

definition holds :: "bucket option \<Rightarrow> (bytes \<Rightarrow> bytes option) \<Rightarrow> bool" where
  "holds ob f \<longleftrightarrow> (\<exists>b. ob = Some b \<and> wf_bucket b \<and> (\<forall>k. bucket_Get k b = f k))"

definition wf_idx_map :: "idx_map \<Rightarrow> bool" where
  "wf_idx_map M \<longleftrightarrow> finite (dom M) \<and> (\<forall>op e a. M op = Some (e, a) \<longrightarrow> valid_amount a)"

definition index_rep :: "expiry_db \<Rightarrow> idx_map \<Rightarrow> bool" where
  "index_rep db M \<longleftrightarrow> wf_idx_map M
     \<and> holds (bktOutpoint2Expiry db) (rep_o2e M)
     \<and> holds (bktExpiry2Outpoints db) (rep_e2o M)
     \<and> holds (bktReapStrictCandidates db) (rep_rsc M)
     \<and> holds (bktOutpoint2ReapStrict db) (rep_o2r M)"

lemma holds_unique: "holds a f \<Longrightarrow> holds b f \<Longrightarrow> a = b"
proof -
  assume "holds a f" "holds b f"
  then obtain x y where x: "a = Some x" "wf_bucket x" "\<forall>k. bucket_Get k x = f k"
    and y: "b = Some y" "wf_bucket y" "\<forall>k. bucket_Get k y = f k"
    by (auto simp: holds_def)
  have "map_of x k = map_of y k" for k
  proof -
    have "bucket_Get k x = bucket_Get k y" using x y by simp
    then show ?thesis
      using wf_bucket_no_empty [OF x(2)] wf_bucket_no_empty [OF y(2)]
      by (cases "k = []") (simp_all add: bucket_Get_def)
  qed
  then show "a = b" using wf_bucket_eqI [OF x(2) y(2)] x(1) y(1) by auto
qed

text \<open>The map determines the four buckets: two indexes of the same map are identical.\<close>

lemma index_rep_unique: "index_rep db M \<Longrightarrow> index_rep db' M \<Longrightarrow> same_entries db db'"
  unfolding index_rep_def same_entries_def by (blast intro: holds_unique)

lemma index_rep_same_entries: "index_rep db M \<Longrightarrow> same_entries db db' \<Longrightarrow> index_rep db' M"
  by (simp add: index_rep_def same_entries_def)

lemma holds_put:
  assumes "holds ob f" and "k \<noteq> []"
  obtains b b' where "ob = Some b" and "put_in k v b = Inr b'" and "holds (Some b') (f(k \<mapsto> v))"
proof -
  obtain b where b: "ob = Some b" "wf_bucket b" "\<forall>k. bucket_Get k b = f k"
    using assms(1) by (auto simp: holds_def)
  obtain t where t: "bucket_Put k v b = Inr t" "wf_bucket t" "bucket_Get k t = Some v"
    "\<forall>k'. k' \<noteq> k \<longrightarrow> bucket_Get k' t = bucket_Get k' b"
    using bkt.put_ok [OF b(2) assms(2)] by blast
  show thesis
    by (rule that [OF b(1), of t]) (use t b in \<open>auto simp: put_in_def holds_def\<close>)
qed

lemma holds_del:
  assumes "holds (Some b) f"
  shows "holds (Some (bucket_Delete k b)) (f(k := None))"
  using assms by (auto simp: holds_def bkt.get_del bkt.del_inv)

lemma holds_get: "holds (Some b) f \<Longrightarrow> bucket_Get k b = f k"
  by (simp add: holds_def)

section \<open>How each encoding sees an update\<close>

lemma rep_o2e_upd: "rep_o2e (M(op \<mapsto> (e, a))) = (rep_o2e M)(encodeOutPoint op \<mapsto> encodeExpiryKey e)"
  by (auto simp: rep_o2e_def fun_eq_iff decodeOutPoint_Inr split: sum.splits)

lemma rep_o2r_upd:
  "rep_o2r (M(op \<mapsto> (e, a))) =
     (rep_o2r M)(encodeOutPoint op \<mapsto> strict_key \<lparr>ok_expiry = e, ok_amount = a, ok_op = op\<rparr>)"
  by (auto simp: rep_o2r_def fun_eq_iff decodeOutPoint_Inr split: sum.splits)

lemma rep_o2e_del: "rep_o2e (M(op := None)) = (rep_o2e M)(encodeOutPoint op := None)"
  by (auto simp: rep_o2e_def fun_eq_iff decodeOutPoint_Inr split: sum.splits)

lemma rep_o2r_del: "rep_o2r (M(op := None)) = (rep_o2r M)(encodeOutPoint op := None)"
  by (auto simp: rep_o2r_def fun_eq_iff decodeOutPoint_Inr split: sum.splits)

lemma rep_e2o_upd:
  assumes "map_option fst (M op) \<in> {None, Some e}"
  shows "rep_e2o (M(op \<mapsto> (e, a))) = (rep_e2o M)(encodeExpiryOutpointCompositeKey e op \<mapsto> [])"
  using assms
  by (auto simp: rep_e2o_def fun_eq_iff decodeExpiryOutpointCompositeKey_Inr split: sum.splits)

lemma rep_e2o_del:
  assumes "M op = Some (e, a)"
  shows "rep_e2o (M(op := None)) = (rep_e2o M)(encodeExpiryOutpointCompositeKey e op := None)"
  using assms
  by (auto simp: rep_e2o_def fun_eq_iff decodeExpiryOutpointCompositeKey_Inr split: sum.splits)

lemma decode_strict_iff:
  "valid_amount a \<Longrightarrow>
   decodeReapStrictCompositeKey k = Inr (e, a, op) \<longleftrightarrow>
     k = strict_key \<lparr>ok_expiry = e, ok_amount = a, ok_op = op\<rparr>"
  using strict_key_valid [of "\<lparr>ok_expiry = e, ok_amount = a, ok_op = op\<rparr>"]
  by (auto simp: decodeReapStrictCompositeKey_Inr valid_amount_def)

lemma rep_rsc_upd:
  assumes "M op \<in> {None, Some (e, a)}" and "valid_amount a"
  shows "rep_rsc (M(op \<mapsto> (e, a))) =
    (rep_rsc M)(strict_key \<lparr>ok_expiry = e, ok_amount = a, ok_op = op\<rparr> \<mapsto> [])"
proof
  fix k
  have d: "decodeReapStrictCompositeKey k = Inr (e, a, op) \<longleftrightarrow>
      k = strict_key \<lparr>ok_expiry = e, ok_amount = a, ok_op = op\<rparr>"
    by (rule decode_strict_iff [OF assms(2)])
  show "rep_rsc (M(op \<mapsto> (e, a))) k =
      ((rep_rsc M)(strict_key \<lparr>ok_expiry = e, ok_amount = a, ok_op = op\<rparr> \<mapsto> [])) k"
    unfolding rep_rsc_def fun_upd_apply d [symmetric]
    using assms(1) by (auto split: sum.splits)
qed

lemma rep_rsc_del:
  assumes "M op = Some (e, a)" and "valid_amount a"
  shows "rep_rsc (M(op := None)) =
    (rep_rsc M)(strict_key \<lparr>ok_expiry = e, ok_amount = a, ok_op = op\<rparr> := None)"
proof
  fix k
  have d: "decodeReapStrictCompositeKey k = Inr (e, a, op) \<longleftrightarrow>
      k = strict_key \<lparr>ok_expiry = e, ok_amount = a, ok_op = op\<rparr>"
    by (rule decode_strict_iff [OF assms(2)])
  show "rep_rsc (M(op := None)) k =
      ((rep_rsc M)(strict_key \<lparr>ok_expiry = e, ok_amount = a, ok_op = op\<rparr> := None)) k"
    unfolding rep_rsc_def fun_upd_apply d [symmetric]
    using assms(1) by (auto split: sum.splits)
qed

lemmas rep_defs = rep_o2e_def rep_e2o_def rep_rsc_def rep_o2r_def

lemma keys_nonempty [simp]:
  "encodeOutPoint op \<noteq> []" "encodeExpiryOutpointCompositeKey e op \<noteq> []"
  using length_encoders(1) [of op] length_encoders(5) [of e op] by force+

lemma strict_key_nonempty: "valid_amount (ok_amount k) \<Longrightarrow> strict_key k \<noteq> []"
  using decode_strict_key [of k] by (auto simp: decodeReapStrictCompositeKey_def)

section \<open>The operations refine updates of the map\<close>

lemma wf_idx_map_upd: "wf_idx_map M \<Longrightarrow> valid_amount a \<Longrightarrow> wf_idx_map (M(op \<mapsto> (e, a)))"
  by (simp add: wf_idx_map_def)

lemma wf_idx_map_del: "wf_idx_map M \<Longrightarrow> wf_idx_map (M(op := None))"
  by (simp add: wf_idx_map_def)

lemma putTxOutMapping_refines:
  assumes rep: "index_rep db M" and fresh: "M op \<in> {None, Some (e, a)}" and a: "valid_amount a"
  obtains db' where "putTxOutMapping op e a db = Inr db'"
    and "index_rep db' (M(op \<mapsto> (e, a)))" and "bktExpiryMeta db' = bktExpiryMeta db"
proof -
  let ?k = "strict_key \<lparr>ok_expiry = e, ok_amount = a, ok_op = op\<rparr>"
  have enc: "encodeReapStrictCompositeKey e a op = Inr ?k"
    using strict_key_valid [of "\<lparr>ok_expiry = e, ok_amount = a, ok_op = op\<rparr>"] a
    by (simp add: valid_amount_def)
  have k: "?k \<noteq> []" using a by (intro strict_key_nonempty) simp
  obtain b1 c1 where 1: "bktOutpoint2Expiry db = Some b1"
    "put_in (encodeOutPoint op) (encodeExpiryKey e) b1 = Inr c1"
    "holds (Some c1) ((rep_o2e M)(encodeOutPoint op \<mapsto> encodeExpiryKey e))"
    using rep holds_put keys_nonempty(1) unfolding index_rep_def by metis
  obtain b2 c2 where 2: "bktExpiry2Outpoints db = Some b2"
    "put_in (encodeExpiryOutpointCompositeKey e op) [] b2 = Inr c2"
    "holds (Some c2) ((rep_e2o M)(encodeExpiryOutpointCompositeKey e op \<mapsto> []))"
    using rep holds_put keys_nonempty(2) unfolding index_rep_def by metis
  obtain b3 c3 where 3: "bktReapStrictCandidates db = Some b3" "put_in ?k [] b3 = Inr c3"
    "holds (Some c3) ((rep_rsc M)(?k \<mapsto> []))"
    using rep holds_put k unfolding index_rep_def by metis
  obtain b4 c4 where 4: "bktOutpoint2ReapStrict db = Some b4"
    "put_in (encodeOutPoint op) ?k b4 = Inr c4"
    "holds (Some c4) ((rep_o2r M)(encodeOutPoint op \<mapsto> ?k))"
    using rep holds_put keys_nonempty(1) unfolding index_rep_def by metis
  let ?db = "db\<lparr>bktOutpoint2Expiry := Some c1, bktExpiry2Outpoints := Some c2,
             bktReapStrictCandidates := Some c3, bktOutpoint2ReapStrict := Some c4\<rparr>"
  show thesis
  proof (rule that)
    show "putTxOutMapping op e a db = Inr ?db"
      by (simp add: putTxOutMapping_def in_bucket_def 1 2 3 4 enc)
    have "map_option fst (M op) \<in> {None, Some e}" using fresh by auto
    then show "index_rep ?db (M(op \<mapsto> (e, a)))"
      using rep 1(3) 2(3) 3(3) 4(3) fresh a
      by (simp add: index_rep_def wf_idx_map_upd rep_o2e_upd rep_e2o_upd rep_rsc_upd rep_o2r_upd
          del: fun_upd_apply)
  qed simp
qed

lemma disconnectTxOut_refines:
  assumes rep: "index_rep db M"
  obtains db' where "disconnectTxOut op db = Inr db'"
    and "index_rep db' (M(op := None))" and "bktExpiryMeta db' = bktExpiryMeta db"
proof -
  obtain b1 b2 b3 b4 where b: "bktOutpoint2Expiry db = Some b1" "bktExpiry2Outpoints db = Some b2"
    "bktReapStrictCandidates db = Some b3" "bktOutpoint2ReapStrict db = Some b4"
    and h: "holds (Some b1) (rep_o2e M)" "holds (Some b2) (rep_e2o M)"
    "holds (Some b3) (rep_rsc M)" "holds (Some b4) (rep_o2r M)"
    using rep unfolding index_rep_def holds_def by auto
  show thesis
  proof (cases "M op")
    case None
    then have "bucket_Get (encodeOutPoint op) b1 = None"
      by (simp add: holds_get [OF h(1)] rep_o2e_def)
    then have "disconnectTxOut op db = Inr db" by (simp add: disconnectTxOut_def in_bucket_def b)
    moreover have "M(op := None) = M" using None by auto
    ultimately show thesis using that rep by metis
  next
    case (Some ea)
    obtain e a where M: "M op = Some (e, a)" using Some by (cases ea) auto
    have a: "valid_amount a" using rep M by (auto simp: index_rep_def wf_idx_map_def)
    let ?k = "strict_key \<lparr>ok_expiry = e, ok_amount = a, ok_op = op\<rparr>"
    have g: "bucket_Get (encodeOutPoint op) b1 = Some (encodeExpiryKey e)"
      "bucket_Get (encodeExpiryOutpointCompositeKey e op) b2 = Some []"
      "bucket_Get (encodeOutPoint op) b4 = Some ?k" "bucket_Get ?k b3 = Some []"
      using M decode_strict_iff [OF a, of ?k e op]
      by (simp_all add: holds_get [OF h(1)] holds_get [OF h(2)] holds_get [OF h(3)] holds_get [OF h(4)]
          rep_defs)
    let ?db = "db\<lparr>bktOutpoint2Expiry := Some (bucket_Delete (encodeOutPoint op) b1),
      bktExpiry2Outpoints := Some (bucket_Delete (encodeExpiryOutpointCompositeKey e op) b2),
      bktOutpoint2ReapStrict := Some (bucket_Delete (encodeOutPoint op) b4),
      bktReapStrictCandidates := Some (bucket_Delete ?k b3)\<rparr>"
    show thesis
    proof (rule that)
      show "disconnectTxOut op db = Inr ?db"
        by (simp add: disconnectTxOut_def in_bucket_def b g require_def Let_def)
      show "index_rep ?db (M(op := None))"
        using rep holds_del [OF h(1)] holds_del [OF h(2)] holds_del [OF h(3)] holds_del [OF h(4)] M a
        by (simp add: index_rep_def wf_idx_map_del rep_o2e_del rep_e2o_del rep_rsc_del rep_o2r_del
            del: fun_upd_apply)
    qed simp
  qed
qed

end
