(* ===== verification/Txscript.thy ===== *)
theory Txscript
  imports Go_Prelude
begin

text \<open>
  The part of \<open>txscript\<close> the expiry and reap rules use: the script tokenizer
  (\<open>txscript/tokenizer.go\<close>), \<open>PushedData\<close> (\<open>standard.go\<close>), \<open>checkScriptParses\<close> and
  \<open>IsUnspendable\<close> (\<open>script.go\<close>), and the \<open>ScriptBuilder\<close> (\<open>scriptbuilder.go\<close>).

  The tokenizer is a record updated by \<open>Next\<close>; the \<open>for tokenizer.Next()\<close> loops are the terminating
  recursion \<open>tokenize\<close>.  Offsets and lengths, \<open>int32\<close> in the source, are natural numbers: scripts
  are far shorter than \<open>2^31\<close> bytes, since a message is at most 32 MiB.  The length read by
  \<open>OP_PUSHDATA4\<close> is kept at its width, since its sign extension is what the code checks for.

  \<open>parse_script\<close> is the reference definition: a plain recursion over the bytes, with the tokens of a
  well-formed script or the parse error.
\<close>

section \<open>Opcodes\<close>

definition OP_0 :: byte where "OP_0 = 0x00"
definition OP_DATA_1 :: byte where "OP_DATA_1 = 0x01"
definition OP_PUSHDATA1 :: byte where "OP_PUSHDATA1 = 0x4c"
definition OP_PUSHDATA2 :: byte where "OP_PUSHDATA2 = 0x4d"
definition OP_PUSHDATA4 :: byte where "OP_PUSHDATA4 = 0x4e"
definition OP_1NEGATE :: byte where "OP_1NEGATE = 0x4f"
definition OP_1 :: byte where "OP_1 = 0x51"
definition OP_RETURN :: byte where "OP_RETURN = 0x6a"
definition OP_DATA_20 :: byte where "OP_DATA_20 = 0x14"
definition OP_DATA_33 :: byte where "OP_DATA_33 = 0x21"
definition OP_DATA_65 :: byte where "OP_DATA_65 = 0x41"
definition OP_DUP :: byte where "OP_DUP = 0x76"
definition OP_EQUAL :: byte where "OP_EQUAL = 0x87"
definition OP_EQUALVERIFY :: byte where "OP_EQUALVERIFY = 0x88"
definition OP_HASH160 :: byte where "OP_HASH160 = 0xa9"
definition OP_CHECKSIG :: byte where "OP_CHECKSIG = 0xac"

lemmas op_defs = OP_0_def OP_DATA_1_def OP_PUSHDATA1_def OP_PUSHDATA2_def OP_PUSHDATA4_def
  OP_1NEGATE_def OP_1_def OP_RETURN_def

text \<open>The \<open>length\<close> column of \<open>opcodeArray\<close>.\<close>

definition opcode_length :: "byte \<Rightarrow> int" where
  "opcode_length b =
     (if OP_DATA_1 \<le> b \<and> b < OP_PUSHDATA1 then uint b + 1
      else if b = OP_PUSHDATA1 then -1
      else if b = OP_PUSHDATA2 then -2
      else if b = OP_PUSHDATA4 then -4
      else 1)"

section \<open>The tokenizer\<close>

datatype script_error = ErrMalformedPush | ErrUnsupportedScriptVersion | ErrScriptNotCanonical

record ScriptTokenizer =
  tk_script :: bytes
  tk_version :: u16
  tk_offset :: nat
  tk_opcodePos :: int
  tk_op :: "byte option"
  tk_data :: "bytes option"
  tk_err :: "script_error option"

definition MakeScriptTokenizer :: "u16 \<Rightarrow> bytes \<Rightarrow> ScriptTokenizer" where
  "MakeScriptTokenizer scriptVersion script =
     \<lparr>tk_script = script, tk_version = scriptVersion, tk_offset = 0, tk_opcodePos = -1,
      tk_op = None, tk_data = None,
      tk_err = (if scriptVersion \<noteq> 0 then Some ErrUnsupportedScriptVersion else None)\<rparr>"

definition Done :: "ScriptTokenizer \<Rightarrow> bool" where
  "Done t \<longleftrightarrow> tk_err t \<noteq> None \<or> length (tk_script t) \<le> tk_offset t"

text \<open>
  The \<open>switch\<close> of \<open>Next\<close> on the remaining script: the opcode's data (\<open>nil\<close> is \<open>None\<close>) and the number
  of bytes the offset moves.
\<close>

definition parse_op :: "bytes \<Rightarrow> script_error + (bytes option \<times> nat)" where
  "parse_op script =
     (let len = opcode_length (hd script) in
      if len = 1 then Inr (None, 1)
      else if len > 1 then
        (if int (length script) < len then Inl ErrMalformedPush
         else Inr (Some (take (nat len - 1) (drop 1 script)), nat len))
      else
        (let n = nat (- len); script = drop 1 script in
         if length script < n then Inl ErrMalformedPush
         else
           (let dataLen = wrap32 (int (le_val (take n script))); script = drop n script in
            if dataLen > int (length script) \<or> dataLen < 0 then Inl ErrMalformedPush
            else Inr (Some (take (nat dataLen) script), 1 + n + nat dataLen))))"

definition Next :: "ScriptTokenizer \<Rightarrow> bool \<times> ScriptTokenizer" where
  "Next t =
     (if Done t then (False, t)
      else
        (let t = t\<lparr>tk_opcodePos := tk_opcodePos t + 1\<rparr>;
             script = drop (tk_offset t) (tk_script t)
         in case parse_op script of
              Inl e \<Rightarrow> (False, t\<lparr>tk_err := Some e\<rparr>)
            | Inr (data, n) \<Rightarrow>
                (True, t\<lparr>tk_offset := tk_offset t + n, tk_op := Some (hd script), tk_data := data\<rparr>)))"

lemma opcode_length_cases:
  "opcode_length b = 1 \<or> opcode_length b > 1 \<or> opcode_length b \<in> {-1, -2, -4}"
  by (auto simp: opcode_length_def op_defs word_le_def)

lemma parse_op_bounds:
  assumes "parse_op s = Inr (d, n)" and "s \<noteq> []"
  shows "0 < n \<and> n \<le> length s"
  using assms(1)
  by (cases s) (use assms(2) in \<open>auto simp: parse_op_def Let_def split: if_splits\<close>)

lemma Next_progress:
  assumes "Next t = (True, t')"
  shows "tk_script t' = tk_script t \<and> tk_offset t < tk_offset t'
    \<and> tk_offset t' \<le> length (tk_script t) \<and> tk_err t' = None"
proof -
  have nd: "\<not> Done t" using assms by (auto simp: Next_def)
  then have ne: "drop (tk_offset t) (tk_script t) \<noteq> []" by (simp add: Done_def)
  obtain d n where p: "parse_op (drop (tk_offset t) (tk_script t)) = Inr (d, n)"
    and t': "t' = t\<lparr>tk_opcodePos := tk_opcodePos t + 1, tk_offset := tk_offset t + n,
      tk_op := Some (hd (drop (tk_offset t) (tk_script t))), tk_data := d\<rparr>"
    using assms nd by (auto simp: Next_def Let_def split: sum.splits prod.splits)
  show ?thesis
    using parse_op_bounds [OF p ne] nd by (auto simp: t' Done_def)
qed

text \<open>The loop \<open>for tokenizer.Next()\<close>, with the opcode and data each iteration sees.\<close>

function tokenize :: "ScriptTokenizer \<Rightarrow> (byte \<times> bytes option) list \<times> ScriptTokenizer" where
  "tokenize t =
     (case Next t of
        (True, t') \<Rightarrow> (let (ts, t'') = tokenize t' in ((the (tk_op t'), tk_data t') # ts, t''))
      | (False, t') \<Rightarrow> ([], t'))"
  by pat_completeness auto
termination
  by (relation "measure (\<lambda>t. length (tk_script t) - tk_offset t)")
    (auto dest!: sym [of "(True, _)"] Next_progress)

declare tokenize.simps [simp del]

section \<open>Clients of the tokenizer\<close>

definition PushedData :: "bytes \<Rightarrow> script_error + bytes list" where
  "PushedData script =
     (let (ts, t) = tokenize (MakeScriptTokenizer 0 script);
          data = concat (map (\<lambda>(opc, d). case d of Some bs \<Rightarrow> [bs]
                                   | None \<Rightarrow> if opc = OP_0 then [[]] else []) ts)
      in case tk_err t of Some e \<Rightarrow> Inl e | None \<Rightarrow> Inr data)"

definition checkScriptParses :: "u16 \<Rightarrow> bytes \<Rightarrow> script_error + unit" where
  "checkScriptParses scriptVersion script =
     (case tk_err (snd (tokenize (MakeScriptTokenizer scriptVersion script))) of
        Some e \<Rightarrow> Inl e | None \<Rightarrow> Inr ())"

definition MaxScriptSize :: nat where "MaxScriptSize = 10000"
definition MaxScriptElementSize :: nat where "MaxScriptElementSize = 520"

definition IsUnspendable :: "bytes \<Rightarrow> bool" where
  "IsUnspendable pkScript =
     (if pkScript \<noteq> [] \<and> hd pkScript = OP_RETURN then True
      else if length pkScript > MaxScriptSize then True
      else \<not> is_ok (checkScriptParses 0 pkScript))"

section \<open>The reference parser\<close>

function parse_script :: "bytes \<Rightarrow> (byte \<times> bytes option) list \<times> script_error option" where
  "parse_script s =
     (if s = [] then ([], None)
      else case parse_op s of
        Inl e \<Rightarrow> ([], Some e)
      | Inr (d, n) \<Rightarrow> (let (ts, e) = parse_script (drop n s) in ((hd s, d) # ts, e)))"
  by pat_completeness auto
termination
  by (relation "measure length") (auto dest: parse_op_bounds)

declare parse_script.simps [simp del]

lemma parse_script_Nil [simp]: "parse_script [] = ([], None)"
  by (simp add: parse_script.simps)

lemma parse_script_step:
  assumes "parse_op s = Inr (d, n)" and "s \<noteq> []"
  shows "parse_script s = ((hd s, d) # fst (parse_script (drop n s)), snd (parse_script (drop n s)))"
  using assms by (subst parse_script.simps) (simp add: split: prod.splits)

lemma tokenize_refines:
  assumes "tk_err t = None"
  shows "fst (tokenize t) = fst (parse_script (drop (tk_offset t) (tk_script t)))
    \<and> tk_err (snd (tokenize t)) = snd (parse_script (drop (tk_offset t) (tk_script t)))"
  using assms
proof (induction t rule: tokenize.induct)
  case (1 t)
  let ?s = "drop (tk_offset t) (tk_script t)"
  show ?case
  proof (cases "?s = []")
    case True
    then have "Next t = (False, t)" by (simp add: Next_def Done_def)
    with True 1 show ?thesis by (subst (1 2) tokenize.simps) simp
  next
    case False
    then have nd: "\<not> Done t" using 1 by (simp add: Done_def)
    show ?thesis
    proof (cases "parse_op ?s")
      case (Inl e)
      with nd False show ?thesis
        by (subst (1 2) tokenize.simps, subst (1 2) parse_script.simps) (simp add: Next_def Let_def)
    next
      case (Inr dn)
      obtain d n where p: "parse_op ?s = Inr (d, n)" using Inr by (cases dn) auto
      define t' where "t' = t\<lparr>tk_opcodePos := tk_opcodePos t + 1, tk_offset := tk_offset t + n,
        tk_op := Some (hd ?s), tk_data := d\<rparr>"
      have nx: "Next t = (True, t')" using nd p by (simp add: Next_def Let_def t'_def)
      have IH: "fst (tokenize t') = fst (parse_script (drop n ?s))
        \<and> tk_err (snd (tokenize t')) = snd (parse_script (drop n ?s))"
        using "1.IH" [OF nx [symmetric]] 1 by (simp add: t'_def add.commute)
      have "tokenize t = ((hd ?s, d) # fst (tokenize t'), snd (tokenize t'))"
        by (subst tokenize.simps) (simp add: nx t'_def split: prod.splits)
      with IH show ?thesis by (simp add: parse_script_step [OF p False])
    qed
  qed
qed

lemma tokenize_Make:
  "fst (tokenize (MakeScriptTokenizer 0 s)) = fst (parse_script s)"
  "tk_err (snd (tokenize (MakeScriptTokenizer 0 s))) = snd (parse_script s)"
  using tokenize_refines [of "MakeScriptTokenizer 0 s"] by (simp_all add: MakeScriptTokenizer_def)

text \<open>The values \<open>PushedData\<close> collects from a list of tokens.\<close>

definition pushes :: "(byte \<times> bytes option) list \<Rightarrow> bytes list" where
  "pushes ts = concat (map (\<lambda>(opc, d). case d of Some bs \<Rightarrow> [bs]
                                   | None \<Rightarrow> if opc = OP_0 then [[]] else []) ts)"

lemma pushes_simps [simp]:
  "pushes [] = []"
  "pushes ((b, Some d) # ts) = d # pushes ts"
  "pushes ((b, None) # ts) = (if b = OP_0 then [[]] else []) @ pushes ts"
  by (simp_all add: pushes_def)

lemma PushedData_parse:
  "PushedData s = (case parse_script s of (ts, Some e) \<Rightarrow> Inl e | (ts, None) \<Rightarrow> Inr (pushes ts))"
  using tokenize_Make [of s]
  by (auto simp: PushedData_def pushes_def Let_def split: prod.splits option.splits)

lemma checkScriptParses_parse: "is_ok (checkScriptParses 0 s) \<longleftrightarrow> snd (parse_script s) = None"
  by (simp add: checkScriptParses_def tokenize_Make split: option.splits)

section \<open>The script builder\<close>

record ScriptBuilder =
  sb_script :: bytes
  sb_err :: "script_error option"

definition NewScriptBuilder :: ScriptBuilder where
  "NewScriptBuilder = \<lparr>sb_script = [], sb_err = None\<rparr>"

definition AddOp :: "byte \<Rightarrow> ScriptBuilder \<Rightarrow> ScriptBuilder" where
  "AddOp opcode b =
     (if sb_err b \<noteq> None then b
      else if length (sb_script b) + 1 > MaxScriptSize then b\<lparr>sb_err := Some ErrScriptNotCanonical\<rparr>
      else b\<lparr>sb_script := sb_script b @ [opcode]\<rparr>)"

definition AddOps :: "bytes \<Rightarrow> ScriptBuilder \<Rightarrow> ScriptBuilder" where
  "AddOps opcodes b =
     (if sb_err b \<noteq> None then b
      else if length (sb_script b) + length opcodes > MaxScriptSize
      then b\<lparr>sb_err := Some ErrScriptNotCanonical\<rparr>
      else b\<lparr>sb_script := sb_script b @ opcodes\<rparr>)"

definition canonicalDataSize :: "bytes \<Rightarrow> nat" where
  "canonicalDataSize data =
     (let dataLen = length data in
      if dataLen = 0 then 1
      else if dataLen = 1 \<and> data ! 0 \<le> 16 then 1
      else if dataLen = 1 \<and> data ! 0 = 0x81 then 1
      else if dataLen < unat OP_PUSHDATA1 then 1 + dataLen
      else if dataLen \<le> 0xff then 2 + dataLen
      else if dataLen \<le> 0xffff then 3 + dataLen
      else 5 + dataLen)"

definition addData :: "bytes \<Rightarrow> ScriptBuilder \<Rightarrow> ScriptBuilder" where
  "addData data b =
     (let dataLen = length data in
      if dataLen = 0 \<or> dataLen = 1 \<and> data ! 0 = 0 then b\<lparr>sb_script := sb_script b @ [OP_0]\<rparr>
      else if dataLen = 1 \<and> data ! 0 \<le> 16
      then b\<lparr>sb_script := sb_script b @ [(OP_1 - 1) + data ! 0]\<rparr>
      else if dataLen = 1 \<and> data ! 0 = 0x81 then b\<lparr>sb_script := sb_script b @ [OP_1NEGATE]\<rparr>
      else
        (let prefix =
           (if dataLen < unat OP_PUSHDATA1 then [(OP_DATA_1 - 1) + of_nat dataLen]
            else if dataLen \<le> 0xff then [OP_PUSHDATA1, of_nat dataLen]
            else if dataLen \<le> 0xffff then OP_PUSHDATA2 # le_bytes 2 dataLen
            else OP_PUSHDATA4 # le_bytes 4 dataLen)
         in b\<lparr>sb_script := sb_script b @ prefix @ data\<rparr>))"

definition AddFullData :: "bytes \<Rightarrow> ScriptBuilder \<Rightarrow> ScriptBuilder" where
  "AddFullData data b = (if sb_err b \<noteq> None then b else addData data b)"

definition AddData :: "bytes \<Rightarrow> ScriptBuilder \<Rightarrow> ScriptBuilder" where
  "AddData data b =
     (if sb_err b \<noteq> None then b
      else if length (sb_script b) + canonicalDataSize data > MaxScriptSize
      then b\<lparr>sb_err := Some ErrScriptNotCanonical\<rparr>
      else if length data > MaxScriptElementSize then b\<lparr>sb_err := Some ErrScriptNotCanonical\<rparr>
      else addData data b)"

definition Reset :: "ScriptBuilder \<Rightarrow> ScriptBuilder" where
  "Reset b = b\<lparr>sb_script := [], sb_err := None\<rparr>"

definition Script :: "ScriptBuilder \<Rightarrow> script_error + bytes" where
  "Script b = (case sb_err b of Some e \<Rightarrow> Inl e | None \<Rightarrow> Inr (sb_script b))"

section \<open>What the builder writes, the tokenizer reads back\<close>

text \<open>A byte string the builder writes as data, not as a small-integer opcode.\<close>

definition is_small_push :: "bytes \<Rightarrow> bool" where
  "is_small_push d \<longleftrightarrow> length d = 1 \<and> (d ! 0 \<le> 16 \<or> d ! 0 = 0x81)"

definition push_bytes :: "bytes \<Rightarrow> bytes" where
  "push_bytes d = sb_script (addData d NewScriptBuilder)"

lemma addData_push_bytes: "addData d b = b\<lparr>sb_script := sb_script b @ push_bytes d\<rparr>"
  by (simp add: addData_def push_bytes_def NewScriptBuilder_def Let_def)

lemma length_push_bytes: "length (push_bytes d) = canonicalDataSize d"
  by (auto simp: push_bytes_def NewScriptBuilder_def addData_def canonicalDataSize_def Let_def)

lemma opcode_length_data:
  assumes "0 < n" and "n < 76"
  shows "opcode_length (of_nat n) = int n + 1"
proof -
  have "unat (of_nat n :: byte) = n" using assms by (simp add: unat_of_nat_byte)
  then have "uint (of_nat n :: byte) = int n" by (metis uint_nat)
  with assms show ?thesis by (simp add: opcode_length_def op_defs word_le_def word_less_def)
qed

lemma push_bytes_small:
  assumes "d \<noteq> []" and "length d < 76" and "\<not> is_small_push d"
  shows "push_bytes d = of_nat (length d) # d"
  using assms
  by (auto simp: push_bytes_def addData_def NewScriptBuilder_def Let_def op_defs is_small_push_def)

lemma push_bytes_1:
  assumes "76 \<le> length d" and "length d \<le> 255"
  shows "push_bytes d = OP_PUSHDATA1 # le_bytes 1 (length d) @ d"
  using assms by (auto simp: push_bytes_def addData_def NewScriptBuilder_def Let_def op_defs)

lemma push_bytes_2:
  assumes "256 \<le> length d" and "length d \<le> 65535"
  shows "push_bytes d = OP_PUSHDATA2 # le_bytes 2 (length d) @ d"
  using assms by (auto simp: push_bytes_def addData_def NewScriptBuilder_def Let_def op_defs)

lemma parse_op_data:
  assumes "d \<noteq> []" and "length d < 76"
  shows "parse_op (of_nat (length d) # d @ r) = Inr (Some d, 1 + length d)"
  using assms by (simp add: parse_op_def opcode_length_data Let_def nat_add_distrib)

lemma parse_op_pushdata:
  assumes "opcode_length opc = - int n" and "0 < n" and "length d < 256 ^ n" and "length d < 2 ^ 31"
  shows "parse_op (opc # le_bytes n (length d) @ d @ r) = Inr (Some d, 1 + n + length d)"
proof -
  have "wrap32 (int (length d)) = int (length d)"
    using assms(4) by (intro wrap32_id) (simp add: is_int32_def)
  with assms show ?thesis by (simp add: parse_op_def Let_def le_val_le_bytes)
qed

lemma parse_op_push_bytes:
  assumes "d \<noteq> []" and "\<not> is_small_push d" and "length d \<le> 65535"
  shows "parse_op (push_bytes d @ r) = Inr (Some d, length (push_bytes d))"
proof -
  consider "length d < 76" | "76 \<le> length d" "length d \<le> 255" | "256 \<le> length d" by linarith
  then show ?thesis
  proof cases
    case 1
    with assms show ?thesis by (simp add: push_bytes_small parse_op_data)
  next
    case 2
    have "opcode_length OP_PUSHDATA1 = - int 1" by (simp add: opcode_length_def op_defs)
    from parse_op_pushdata [OF this, of d r] 2 show ?thesis by (simp add: push_bytes_1)
  next
    case 3
    have "opcode_length OP_PUSHDATA2 = - int 2" by (simp add: opcode_length_def op_defs)
    from parse_op_pushdata [OF this, of d r] 3 assms show ?thesis by (simp add: push_bytes_2)
  qed
qed

lemma parse_script_push_bytes:
  assumes "\<not> is_small_push d" and "length d \<le> 65535"
  shows "\<exists>opc. parse_script (push_bytes d @ r) =
      ((opc, if d = [] then None else Some d) # fst (parse_script r), snd (parse_script r))
      \<and> (d = [] \<longrightarrow> opc = OP_0)"
proof (cases "d = []")
  case True
  have "parse_op (OP_0 # r) = Inr (None, 1)"
    by (simp add: parse_op_def opcode_length_def op_defs)
  from parse_script_step [OF this] True show ?thesis
    by (simp add: push_bytes_def addData_def NewScriptBuilder_def)
next
  case False
  have "push_bytes d \<noteq> []" using False assms length_push_bytes [of d]
    by (auto simp: canonicalDataSize_def Let_def split: if_splits)
  then show ?thesis
    using parse_script_step [OF parse_op_push_bytes [OF False assms, of r]] False by simp
qed

lemma Script_fold_AddData:
  assumes "Script (fold AddData ds b) = Inr s"
  shows "s = sb_script b @ concat (map push_bytes ds) \<and> sb_err b = None
    \<and> (\<forall>d \<in> set ds. length d \<le> MaxScriptElementSize)"
  using assms
proof (induction ds arbitrary: b)
  case Nil
  then show ?case by (simp add: Script_def split: option.splits)
next
  case (Cons d ds)
  from Cons.IH [of "AddData d b"] Cons.prems
  have IH: "s = sb_script (AddData d b) @ concat (map push_bytes ds)"
    "sb_err (AddData d b) = None" "\<forall>d \<in> set ds. length d \<le> MaxScriptElementSize"
    by simp_all
  then have "AddData d b = addData d b" "length d \<le> MaxScriptElementSize" "sb_err b = None"
    by (auto simp: AddData_def split: if_splits)
  with IH show ?case by (simp add: addData_push_bytes)
qed

lemma pushes_parse_push_bytes:
  assumes "\<forall>d \<in> set ds. \<not> is_small_push d \<and> length d \<le> 65535"
  shows "pushes (fst (parse_script (concat (map push_bytes ds)))) = ds
    \<and> snd (parse_script (concat (map push_bytes ds))) = None"
  using assms
proof (induction ds)
  case (Cons d ds)
  then show ?case
    using parse_script_push_bytes [of d "concat (map push_bytes ds)"] by auto
qed simp

lemma PushedData_Script_fold_AddData:
  assumes "Script (fold AddData ds NewScriptBuilder) = Inr s"
    and "\<forall>d \<in> set ds. \<not> is_small_push d"
  shows "PushedData s = Inr ds"
proof -
  note f = Script_fold_AddData [OF assms(1)]
  have "\<forall>d \<in> set ds. \<not> is_small_push d \<and> length d \<le> 65535"
    using f assms(2) by (auto simp: MaxScriptElementSize_def)
  from pushes_parse_push_bytes [OF this] show ?thesis
    using f by (auto simp: PushedData_parse NewScriptBuilder_def split: prod.splits option.splits)
qed

lemma parse_script_OP_RETURN:
  "parse_script (OP_RETURN # s) = ((OP_RETURN, None) # fst (parse_script s), snd (parse_script s))"
proof -
  have "parse_op (OP_RETURN # s) = Inr (None, 1)"
    by (simp add: parse_op_def opcode_length_def op_defs)
  from parse_script_step [OF this] show ?thesis by simp
qed

lemma OP_RETURN_neq_OP_0 [simp]: "OP_RETURN \<noteq> OP_0"
  by (simp add: op_defs)

text \<open>A null-data script: \<open>OP_RETURN\<close> and one data push.\<close>

lemma PushedData_OP_RETURN_push:
  assumes "\<not> is_small_push d" and "length d \<le> 65535"
  shows "PushedData (OP_RETURN # push_bytes d) = Inr [d]"
  using pushes_parse_push_bytes [of "[d]"] assms
  by (auto simp: PushedData_parse parse_script_OP_RETURN split: prod.splits option.splits)

lemma Script_OP_RETURN_AddData:
  assumes "length d \<le> MaxScriptElementSize"
  shows "Script (AddData d (AddOp OP_RETURN NewScriptBuilder)) = Inr (OP_RETURN # push_bytes d)"
proof -
  have "canonicalDataSize d \<le> 525"
    using assms by (auto simp: canonicalDataSize_def MaxScriptElementSize_def Let_def)
  with assms show ?thesis
    by (simp add: AddData_def AddOp_def NewScriptBuilder_def MaxScriptSize_def addData_push_bytes
        Script_def)
qed

section \<open>Properties\<close>

text \<open>What the script builder writes, the tokenizer reads.  A script the builder returns for a
  list of data pushes tokenizes without an error into exactly those pushes, in order; the exception
  are the strings of one byte that the builder writes as a small-integer opcode.\<close>

theorem builder_round_trip:
  assumes "Script (fold AddData ds NewScriptBuilder) = Inr s" and "\<forall>d \<in> set ds. \<not> is_small_push d"
  shows "PushedData s = Inr ds \<and> tk_err (snd (tokenize (MakeScriptTokenizer 0 s))) = None"
proof -
  have p: "PushedData s = Inr ds" by (rule PushedData_Script_fold_AddData [OF assms])
  then have "snd (parse_script s) = None" by (auto simp: PushedData_parse split: prod.splits option.splits)
  with p show ?thesis by (simp add: tokenize_Make)
qed

theorem builder_round_trip_witness:
  "PushedData (sb_script (fold AddData [[1, 2, 3], []] NewScriptBuilder)) = Inr [[1, 2, 3], []]"
proof -
  let ?b = "fold AddData [[1, 2, 3], []] NewScriptBuilder"
  have "Script ?b = Inr (sb_script ?b)" by code_simp
  moreover have "\<forall>d \<in> set [[1, 2, 3 :: byte], []]. \<not> is_small_push d" by (simp add: is_small_push_def)
  ultimately show ?thesis using builder_round_trip [of "[[1, 2, 3], []]" "sb_script ?b"] by blast
qed

end
