(* ===== verification/Expiry_Commitment.thy ===== *)
theory Expiry_Commitment
  imports Wire_Tx Txscript
begin

text \<open>
  The coinbase commitment to the expiry state (\<open>blockchain/expiryindex/commitment.go\<close>): building the
  output script, finding it in a coinbase, and counting the outputs that carry the tag.
\<close>

definition ExpiryCommitmentTag :: bytes where
  "ExpiryCommitmentTag = [0x4F, 0x45, 0x58, 0x50]"

definition ExpiryCommitmentVersion :: byte where "ExpiryCommitmentVersion = 0x01"

definition OP_DATA_37 :: byte where "OP_DATA_37 = 0x25"

definition ExpiryCommitmentScriptLen :: nat where "ExpiryCommitmentScriptLen = 39"

definition BuildExpiryCommitmentScript :: "hash \<Rightarrow> bytes" where
  "BuildExpiryCommitmentScript root =
     [OP_RETURN, OP_DATA_37] @ ExpiryCommitmentTag @ [ExpiryCommitmentVersion] @ hash_bytes root"

text \<open>The guards of the loops of \<open>ExtractExpiryCommitment\<close> and \<open>CountExpiryCommitments\<close>.\<close>

definition isExpiryCommitmentScript :: "bytes \<Rightarrow> bool" where
  "isExpiryCommitmentScript pk \<longleftrightarrow> length pk = ExpiryCommitmentScriptLen
     \<and> pk ! 0 = OP_RETURN \<and> pk ! 1 = OP_DATA_37
     \<and> take 4 (drop 2 pk) = ExpiryCommitmentTag"

fun extractFrom :: "TxOut list \<Rightarrow> (byte \<times> hash) option" where
  "extractFrom [] = None"
| "extractFrom (txOut # rest) =
     (let pk = PkScript txOut in
      if \<not> isExpiryCommitmentScript pk then extractFrom rest
      else Some (pk ! 6, hash_of_bytes (take 32 (drop 7 pk))))"

definition ExtractExpiryCommitment :: "MsgTx \<Rightarrow> (byte \<times> hash) option" where
  "ExtractExpiryCommitment tx = extractFrom (rev (TxOut tx))"

definition CountExpiryCommitments :: "MsgTx \<Rightarrow> nat" where
  "CountExpiryCommitments tx =
     length (filter (\<lambda>txOut. isExpiryCommitmentScript (PkScript txOut)) (TxOut tx))"

section \<open>Building and finding the commitment\<close>

lemma length_BuildExpiryCommitmentScript [simp]:
  "length (BuildExpiryCommitmentScript root) = ExpiryCommitmentScriptLen"
  by (simp add: BuildExpiryCommitmentScript_def ExpiryCommitmentTag_def ExpiryCommitmentScriptLen_def)

lemma isExpiryCommitmentScript_Build [simp]:
  "isExpiryCommitmentScript (BuildExpiryCommitmentScript root)"
  unfolding isExpiryCommitmentScript_def
  by (simp only: length_BuildExpiryCommitmentScript)
    (simp add: BuildExpiryCommitmentScript_def ExpiryCommitmentTag_def)

lemma Build_payload [simp]:
  "BuildExpiryCommitmentScript root ! 6 = ExpiryCommitmentVersion"
  "take 32 (drop 7 (BuildExpiryCommitmentScript root)) = hash_bytes root"
  by (simp_all add: BuildExpiryCommitmentScript_def ExpiryCommitmentTag_def)

lemma BuildExpiryCommitmentScript_inject [simp]:
  "BuildExpiryCommitmentScript a = BuildExpiryCommitmentScript b \<longleftrightarrow> a = b"
  by (metis Build_payload(2) hash_bytes_inject)

text \<open>A script with the tag is exactly a built script, up to the version byte.\<close>

lemma isExpiryCommitmentScript_cases:
  assumes "isExpiryCommitmentScript pk"
  shows "pk = [OP_RETURN, OP_DATA_37] @ ExpiryCommitmentTag @ [pk ! 6]
    @ hash_bytes (hash_of_bytes (take 32 (drop 7 pk)))"
proof -
  have len: "length pk = 39" and hd: "pk ! 0 = OP_RETURN" "pk ! 1 = OP_DATA_37"
    "take 4 (drop 2 pk) = ExpiryCommitmentTag"
    using assms by (simp_all add: isExpiryCommitmentScript_def ExpiryCommitmentScriptLen_def)
  have "pk = take 2 pk @ take 4 (drop 2 pk) @ take 1 (drop 6 pk) @ drop 7 pk"
    using append_take_drop_id [of 2 pk] append_take_drop_id [of 4 "drop 2 pk"]
      append_take_drop_id [of 1 "drop 6 pk"] by simp
  moreover have "take 2 pk = [pk ! 0, pk ! 1]"
    using len by (simp add: list_eq_iff_nth_eq less_2_cases_iff)
  moreover have "take 1 (drop 6 pk) = [pk ! 6]"
    using len by (simp add: list_eq_iff_nth_eq)
  moreover have "hash_bytes (hash_of_bytes (take 32 (drop 7 pk))) = drop 7 pk"
    using len by (simp add: hash_bytes_hash_of_bytes)
  ultimately have "pk = [pk ! 0, pk ! 1] @ take 4 (drop 2 pk) @ [pk ! 6]
      @ hash_bytes (hash_of_bytes (take 32 (drop 7 pk)))" by simp
  then show ?thesis by (simp only: hd)
qed

lemma isExpiryCommitmentScript_version:
  assumes "isExpiryCommitmentScript pk" and "pk ! 6 = ExpiryCommitmentVersion"
  shows "pk = BuildExpiryCommitmentScript (hash_of_bytes (take 32 (drop 7 pk)))"
  using isExpiryCommitmentScript_cases [OF assms(1)] assms(2)
  by (simp add: BuildExpiryCommitmentScript_def)

lemma extractFrom_None_iff:
  "extractFrom outs = None \<longleftrightarrow> (\<forall>t \<in> set outs. \<not> isExpiryCommitmentScript (PkScript t))"
  by (induction outs) (auto simp: Let_def)

lemma extractFrom_Some:
  "extractFrom outs = Some (v, root) \<Longrightarrow>
     \<exists>t \<in> set outs. isExpiryCommitmentScript (PkScript t) \<and> v = PkScript t ! 6
       \<and> root = hash_of_bytes (take 32 (drop 7 (PkScript t)))"
  by (induction outs) (auto simp: Let_def split: if_splits)

lemma extractFrom_filter:
  "extractFrom outs = extractFrom (filter (\<lambda>t. isExpiryCommitmentScript (PkScript t)) outs)"
  by (induction outs) (auto simp: Let_def)

lemma Extract_None_iff_Count: "ExtractExpiryCommitment tx = None \<longleftrightarrow> CountExpiryCommitments tx = 0"
  by (auto simp: ExtractExpiryCommitment_def CountExpiryCommitments_def extractFrom_None_iff
      filter_empty_conv)

lemma Extract_AddTxOut_Build:
  "ExtractExpiryCommitment (AddTxOut \<lparr>Value = v, PkScript = BuildExpiryCommitmentScript root\<rparr> tx)
     = Some (ExpiryCommitmentVersion, root)"
  by (simp add: ExtractExpiryCommitment_def AddTxOut_def Let_def)

lemma Count_AddTxOut_Build:
  "CountExpiryCommitments (AddTxOut \<lparr>Value = v, PkScript = BuildExpiryCommitmentScript root\<rparr> tx)
     = Suc (CountExpiryCommitments tx)"
  by (simp add: CountExpiryCommitments_def AddTxOut_def)

text \<open>The commitment output is unspendable, so it never enters the UTXO set.\<close>

lemma IsUnspendable_Build: "IsUnspendable (BuildExpiryCommitmentScript root)"
  by (simp add: IsUnspendable_def BuildExpiryCommitmentScript_def)

end
