(* ===== verification/Chaincfg_Obtc.thy ===== *)
theory Chaincfg_Obtc
  imports Go_Prelude
begin

text \<open>
  The OBTC network parameters of \<open>chaincfg/params_obtc.go\<close>: which networks are OBTC networks, the
  expiry and REAP parameters of each, the activation heights, the expiry key of an output, and the
  start-up check that the OBTC address and key namespaces do not collide with Bitcoin's.
\<close>

section \<open>Networks\<close>

definition MainNet :: u32 where "MainNet = 0xd9b4bef9"
definition ObtcMainNet :: u32 where "ObtcMainNet = 0x4F425443"
definition ObtcTestNet :: u32 where "ObtcTestNet = 0x4F544553"
definition ObtcRegNet :: u32 where "ObtcRegNet = 0x4F524547"

definition ObtcMainNetForkHeight :: int32 where "ObtcMainNetForkHeight = 1000000"
definition ObtcMainNetFirstBlockHeight :: int32 where
  "ObtcMainNetFirstBlockHeight = ObtcMainNetForkHeight + 1"
definition ObtcMainNetActivationHeight :: int32 where
  "ObtcMainNetActivationHeight = ObtcMainNetForkHeight + 2016"
definition ObtcTestNetForkHeight :: int32 where "ObtcTestNetForkHeight = 0"
definition ObtcRegTestForkHeight :: int32 where "ObtcRegTestForkHeight = 100"

lemmas net_defs = MainNet_def ObtcMainNet_def ObtcTestNet_def ObtcRegNet_def
lemmas height_defs = ObtcMainNetForkHeight_def ObtcMainNetFirstBlockHeight_def
  ObtcMainNetActivationHeight_def ObtcTestNetForkHeight_def ObtcRegTestForkHeight_def

text \<open>The fields of \<open>chaincfg.Params\<close> that separate a network's namespace from another's.\<close>

record NetNamespace =
  Name :: string
  DefaultPort :: string
  Bech32HRPSegwit :: string
  PubKeyHashAddrID :: byte
  ScriptHashAddrID :: byte
  PrivateKeyID :: byte
  WitnessPubKeyHashAddrID :: byte
  WitnessScriptHashAddrID :: byte
  HDPrivateKeyID :: bytes
  HDPublicKeyID :: bytes
  HDCoinType :: u32

text \<open>A vote on a rule change: the bit of the block version it uses, its optional overrides, and
  the median times at which it starts and ends (\<open>None\<close> is the zero time, which is not the Unix
  epoch).  The deployments of the OBTC networks are the same on all three.\<close>

record ConsensusDeployment =
  BitNumber :: byte
  MinActivationHeight :: u32
  CustomActivationThreshold :: u32
  AlwaysActiveHeight :: u32
  DeploymentStarter :: "int64 option"
  DeploymentEnder :: "int64 option"

definition obtcDeployment :: "byte \<Rightarrow> u32 \<Rightarrow> ConsensusDeployment" where
  "obtcDeployment b always = \<lparr>BitNumber = b, MinActivationHeight = 0,
     CustomActivationThreshold = 0, AlwaysActiveHeight = always,
     DeploymentStarter = Some 0, DeploymentEnder = Some 0\<rparr>"

definition DeploymentTestDummy :: nat where "DeploymentTestDummy = 0"
definition DeploymentTestDummyMinActivation :: nat where "DeploymentTestDummyMinActivation = 1"
definition DeploymentCSV :: nat where "DeploymentCSV = 2"
definition DeploymentSegwit :: nat where "DeploymentSegwit = 3"
definition DeploymentTaproot :: nat where "DeploymentTaproot = 4"
definition DeploymentTestDummyAlwaysActive :: nat where "DeploymentTestDummyAlwaysActive = 5"

definition obtcDeployments :: "ConsensusDeployment list" where
  "obtcDeployments =
     [obtcDeployment 28 0, obtcDeployment 22 0, obtcDeployment 0 1, obtcDeployment 1 1,
      obtcDeployment 2 1, obtcDeployment 30 1]"

text \<open>A \<open>time.Duration\<close> counts nanoseconds.\<close>

definition Second :: int64 where "Second = 1000000000"
definition Minute :: int64 where "Minute = 60 * Second"
definition Hour :: int64 where "Hour = 60 * Minute"

lemmas duration_defs = Second_def Minute_def Hour_def

definition obtcPowLimit :: int where "obtcPowLimit = 2 ^ 224 - 1"
definition regressionPowLimit :: int where "regressionPowLimit = 2 ^ 255 - 1"

text \<open>The further fields of \<open>chaincfg.Params\<close> the validation and mining rules read.  A field the
  source leaves out is zero.\<close>

record Params = NetNamespace +
  Net :: u32
  CoinbaseMaturity :: u16
  SubsidyReductionInterval :: int32
  BIP0034Height :: int32
  BIP0065Height :: int32
  BIP0066Height :: int32
  PowLimit :: int
  PowLimitBits :: u32
  PoWNoRetargeting :: bool
  EnforceBIP94 :: bool
  TargetTimespan :: int64
  TargetTimePerBlock :: int64
  RetargetAdjustmentFactor :: int64
  ReduceMinDifficulty :: bool
  MinDiffReductionTime :: int64
  ForkDAAStartHeight :: int32
  ForkDAABootstrapEndHeight :: int32
  ForkDAAForkResetBits :: u32
  ForkDAABootstrapHalfLife :: int64
  ForkDAANormalHalfLife :: int64
  Checkpoints :: "(int32 \<times> hash) list"
  RuleChangeActivationThreshold :: u32
  MinerConfirmationWindow :: u32
  Deployments :: "ConsensusDeployment list"

definition ObtcMainNetParams :: Params where
  "ObtcMainNetParams = \<lparr>Name = ''obtcmainnet'', DefaultPort = ''9527'', Bech32HRPSegwit = ''obtc'',
     PubKeyHashAddrID = 0x47, ScriptHashAddrID = 0x32, PrivateKeyID = 0x9A,
     WitnessPubKeyHashAddrID = 0x2A, WitnessScriptHashAddrID = 0x2B,
     HDPrivateKeyID = [0x0B, 0x47, 0xB0, 0x1E], HDPublicKeyID = [0x0B, 0x47, 0xB5, 0xD4],
     HDCoinType = 20260,
     Net = ObtcMainNet, CoinbaseMaturity = 100, SubsidyReductionInterval = 210000,
     BIP0034Height = 1, BIP0065Height = 1, BIP0066Height = 1,
     PowLimit = obtcPowLimit, PowLimitBits = 0x1d00ffff, PoWNoRetargeting = False, EnforceBIP94 = True,
     TargetTimespan = 14 * 24 * Hour, TargetTimePerBlock = 10 * Minute,
     RetargetAdjustmentFactor = 4, ReduceMinDifficulty = False, MinDiffReductionTime = 0,
     ForkDAAStartHeight = ObtcMainNetFirstBlockHeight,
     ForkDAABootstrapEndHeight = ObtcMainNetActivationHeight, ForkDAAForkResetBits = 0x1d00ffff,
     ForkDAABootstrapHalfLife = Hour, ForkDAANormalHalfLife = 48 * Hour,
     Checkpoints = [], RuleChangeActivationThreshold = 1916, MinerConfirmationWindow = 2016,
     Deployments = obtcDeployments\<rparr>"

definition ObtcTestNetParams :: Params where
  "ObtcTestNetParams = \<lparr>Name = ''obtctestnet'', DefaultPort = ''19527'', Bech32HRPSegwit = ''obtct'',
     PubKeyHashAddrID = 0x71, ScriptHashAddrID = 0xD1, PrivateKeyID = 0xF1,
     WitnessPubKeyHashAddrID = 0x2C, WitnessScriptHashAddrID = 0x2D,
     HDPrivateKeyID = [0x0B, 0x48, 0xB0, 0x1E], HDPublicKeyID = [0x0B, 0x48, 0xB5, 0xD4],
     HDCoinType = 20261,
     Net = ObtcTestNet, CoinbaseMaturity = 20, SubsidyReductionInterval = 210000,
     BIP0034Height = 1, BIP0065Height = 1, BIP0066Height = 1,
     PowLimit = regressionPowLimit, PowLimitBits = 0x207fffff, PoWNoRetargeting = True, EnforceBIP94 = False,
     TargetTimespan = 14 * 24 * Hour, TargetTimePerBlock = 10 * Minute,
     RetargetAdjustmentFactor = 4, ReduceMinDifficulty = False, MinDiffReductionTime = 0,
     ForkDAAStartHeight = 0, ForkDAABootstrapEndHeight = 0, ForkDAAForkResetBits = 0,
     ForkDAABootstrapHalfLife = 0, ForkDAANormalHalfLife = 0,
     Checkpoints = [], RuleChangeActivationThreshold = 1512, MinerConfirmationWindow = 2016,
     Deployments = obtcDeployments\<rparr>"

definition ObtcRegTestParams :: Params where
  "ObtcRegTestParams = \<lparr>Name = ''obtcregtest'', DefaultPort = ''29527'', Bech32HRPSegwit = ''obtcrt'',
     PubKeyHashAddrID = 0x72, ScriptHashAddrID = 0xD2, PrivateKeyID = 0xF2,
     WitnessPubKeyHashAddrID = 0x2E, WitnessScriptHashAddrID = 0x2F,
     HDPrivateKeyID = [0x0B, 0x49, 0xB0, 0x1E], HDPublicKeyID = [0x0B, 0x49, 0xB5, 0xD4],
     HDCoinType = 20262,
     Net = ObtcRegNet, CoinbaseMaturity = 100, SubsidyReductionInterval = 150,
     BIP0034Height = 100000000, BIP0065Height = 1351, BIP0066Height = 1251,
     PowLimit = regressionPowLimit, PowLimitBits = 0x207fffff, PoWNoRetargeting = True, EnforceBIP94 = False,
     TargetTimespan = 14 * 24 * Hour, TargetTimePerBlock = 10 * Minute,
     RetargetAdjustmentFactor = 4, ReduceMinDifficulty = False, MinDiffReductionTime = 0,
     ForkDAAStartHeight = 0, ForkDAABootstrapEndHeight = 0, ForkDAAForkResetBits = 0,
     ForkDAABootstrapHalfLife = 0, ForkDAANormalHalfLife = 0,
     Checkpoints = [], RuleChangeActivationThreshold = 108, MinerConfirmationWindow = 144,
     Deployments = obtcDeployments\<rparr>"

text \<open>The namespaces of the Bitcoin networks of \<open>chaincfg/params.go\<close>; a field the source leaves
  out is zero.\<close>

definition MainNetNamespace :: NetNamespace where
  "MainNetNamespace = \<lparr>Name = ''mainnet'', DefaultPort = ''8333'', Bech32HRPSegwit = ''bc'',
     PubKeyHashAddrID = 0x00, ScriptHashAddrID = 0x05, PrivateKeyID = 0x80,
     WitnessPubKeyHashAddrID = 0x06, WitnessScriptHashAddrID = 0x0A,
     HDPrivateKeyID = [0x04, 0x88, 0xad, 0xe4], HDPublicKeyID = [0x04, 0x88, 0xb2, 0x1e],
     HDCoinType = 0\<rparr>"

definition RegressionNetNamespace :: NetNamespace where
  "RegressionNetNamespace = \<lparr>Name = ''regtest'', DefaultPort = ''18444'', Bech32HRPSegwit = ''bcrt'',
     PubKeyHashAddrID = 0x6f, ScriptHashAddrID = 0xc4, PrivateKeyID = 0xef,
     WitnessPubKeyHashAddrID = 0, WitnessScriptHashAddrID = 0,
     HDPrivateKeyID = [0x04, 0x35, 0x83, 0x94], HDPublicKeyID = [0x04, 0x35, 0x87, 0xcf],
     HDCoinType = 1\<rparr>"

definition TestNet3Namespace :: NetNamespace where
  "TestNet3Namespace = \<lparr>Name = ''testnet3'', DefaultPort = ''18333'', Bech32HRPSegwit = ''tb'',
     PubKeyHashAddrID = 0x6f, ScriptHashAddrID = 0xc4, PrivateKeyID = 0xef,
     WitnessPubKeyHashAddrID = 0x03, WitnessScriptHashAddrID = 0x28,
     HDPrivateKeyID = [0x04, 0x35, 0x83, 0x94], HDPublicKeyID = [0x04, 0x35, 0x87, 0xcf],
     HDCoinType = 1\<rparr>"

definition TestNet4Namespace :: NetNamespace where
  "TestNet4Namespace = TestNet3Namespace\<lparr>Name := ''testnet4'', DefaultPort := ''48333''\<rparr>"

definition SimNetNamespace :: NetNamespace where
  "SimNetNamespace = \<lparr>Name = ''simnet'', DefaultPort = ''18555'', Bech32HRPSegwit = ''sb'',
     PubKeyHashAddrID = 0x3f, ScriptHashAddrID = 0x7b, PrivateKeyID = 0x64,
     WitnessPubKeyHashAddrID = 0x19, WitnessScriptHashAddrID = 0x28,
     HDPrivateKeyID = [0x04, 0x20, 0xb9, 0x00], HDPublicKeyID = [0x04, 0x20, 0xbd, 0x3a],
     HDCoinType = 115\<rparr>"

definition SigNetNamespace :: NetNamespace where
  "SigNetNamespace = TestNet3Namespace\<lparr>Name := ''signet'', DefaultPort := ''38333''\<rparr>"

section \<open>Expiry parameters\<close>

record ExpiryParams =
  WindowBlocks :: u64
  ListBatchLimit :: int
  StartScanHeight :: int32
  EnableAtHeight :: int32
  ReapConsensusAtHeight :: int32
  ReplayProtectionAtHeight :: int32
  ReapMaxInputs :: int
  ReapDustMaxInputs :: int
  ReapMaxWeight :: int64
  ReapTaxNumerator :: int64
  ReapTaxDenominator :: int64
  ReapDustThresholdSat :: int64
  ExpiryCommitmentEnableAtHeight :: int32

definition IsOBTC :: "'a Params_scheme \<Rightarrow> bool" where
  "IsOBTC params \<longleftrightarrow> Net params = ObtcMainNet \<or> Net params = ObtcTestNet \<or> Net params = ObtcRegNet"

definition GetOBTCForkHeight :: "'a Params_scheme \<Rightarrow> int32" where
  "GetOBTCForkHeight params =
     (if Net params = ObtcMainNet then ObtcMainNetForkHeight
      else if Net params = ObtcTestNet then ObtcTestNetForkHeight
      else if Net params = ObtcRegNet then ObtcRegTestForkHeight
      else -1)"

definition IsPostOBTCFork :: "'a Params_scheme \<Rightarrow> int32 \<Rightarrow> bool" where
  "IsPostOBTCFork params height =
     (if \<not> IsOBTC params then False else GetOBTCForkHeight params \<le> height)"

definition mainnetExpiryParams :: ExpiryParams where
  "mainnetExpiryParams = \<lparr>WindowBlocks = 362880, ListBatchLimit = 10000, StartScanHeight = 0,
     EnableAtHeight = ObtcMainNetActivationHeight,
     ReapConsensusAtHeight = ObtcMainNetActivationHeight,
     ReplayProtectionAtHeight = ObtcMainNetFirstBlockHeight,
     ReapMaxInputs = 256, ReapDustMaxInputs = 1024, ReapMaxWeight = 400000,
     ReapTaxNumerator = 30, ReapTaxDenominator = 100, ReapDustThresholdSat = 720,
     ExpiryCommitmentEnableAtHeight = ObtcMainNetActivationHeight\<rparr>"

definition testnetExpiryParams :: ExpiryParams where
  "testnetExpiryParams = \<lparr>WindowBlocks = 144, ListBatchLimit = 5000, StartScanHeight = 0,
     EnableAtHeight = 100, ReapConsensusAtHeight = 120, ReplayProtectionAtHeight = 130,
     ReapMaxInputs = 500, ReapDustMaxInputs = 1000, ReapMaxWeight = 400000,
     ReapTaxNumerator = 30, ReapTaxDenominator = 100, ReapDustThresholdSat = 720,
     ExpiryCommitmentEnableAtHeight = 100\<rparr>"

definition regtestExpiryParams :: ExpiryParams where
  "regtestExpiryParams = \<lparr>WindowBlocks = 144, ListBatchLimit = 1000, StartScanHeight = 0,
     EnableAtHeight = ObtcRegTestForkHeight + 10,
     ReapConsensusAtHeight = ObtcRegTestForkHeight + 12,
     ReplayProtectionAtHeight = ObtcRegTestForkHeight + 14,
     ReapMaxInputs = 200, ReapDustMaxInputs = 400, ReapMaxWeight = 400000,
     ReapTaxNumerator = 30, ReapTaxDenominator = 100, ReapDustThresholdSat = 720,
     ExpiryCommitmentEnableAtHeight = ObtcRegTestForkHeight + 10\<rparr>"

lemmas expiry_param_defs = mainnetExpiryParams_def testnetExpiryParams_def regtestExpiryParams_def

text \<open>\<open>nil\<close> is \<open>None\<close>.\<close>

definition GetExpiryParams :: "'a Params_scheme \<Rightarrow> ExpiryParams option" where
  "GetExpiryParams params =
     (if \<not> IsOBTC params then None
      else if Net params = ObtcMainNet then Some mainnetExpiryParams
      else if Net params = ObtcTestNet then Some testnetExpiryParams
      else if Net params = ObtcRegNet then Some regtestExpiryParams
      else None)"

definition GetOBTCReplayProtectionHeight :: "'a Params_scheme \<Rightarrow> int32" where
  "GetOBTCReplayProtectionHeight params =
     (case GetExpiryParams params of
        None \<Rightarrow> -1
      | Some p \<Rightarrow> if ReplayProtectionAtHeight p \<le> 0 then -1 else ReplayProtectionAtHeight p)"

definition IsOBTCReplayProtectionActive :: "'a Params_scheme \<Rightarrow> int32 \<Rightarrow> bool" where
  "IsOBTCReplayProtectionActive params height =
     (if GetOBTCReplayProtectionHeight params < 0 then False
      else GetOBTCReplayProtectionHeight params \<le> height)"

text \<open>\<open>uint64(createHeight) + p.WindowBlocks\<close>: the height is sign-extended, the sum wraps.\<close>

definition CalculateExpiryKey :: "'a ExpiryParams_scheme \<Rightarrow> int32 \<Rightarrow> u64" where
  "CalculateExpiryKey p createHeight = of_int createHeight + WindowBlocks p"

section \<open>Namespace isolation\<close>

datatype ns_error =
    CollisionWithinOBTC string string string
  | CollisionBetween string string string
  | IdenticalHDVersions string

definition obtcNets :: "(string \<times> NetNamespace) list" where
  "obtcNets = [(''obtc mainnet'', NetNamespace.truncate ObtcMainNetParams),
     (''obtc testnet'', NetNamespace.truncate ObtcTestNetParams),
     (''obtc regtest'', NetNamespace.truncate ObtcRegTestParams)]"

definition btcNets :: "(string \<times> NetNamespace) list" where
  "btcNets = [(''bitcoin mainnet'', MainNetNamespace), (''bitcoin testnet3'', TestNet3Namespace),
     (''bitcoin testnet4'', TestNet4Namespace), (''bitcoin regtest'', RegressionNetNamespace),
     (''bitcoin simnet'', SimNetNamespace), (''bitcoin signet'', SigNetNamespace)]"

text \<open>The loop over the OBTC networks: \<open>seen\<close> maps a value to the network that uses it.\<close>

fun check_within :: "string \<Rightarrow> (NetNamespace \<Rightarrow> 'v) \<Rightarrow> (string \<times> NetNamespace) list \<Rightarrow>
    ('v \<rightharpoonup> string) \<Rightarrow> ns_error + ('v \<rightharpoonup> string)" where
  "check_within field getter [] seen = Inr seen"
| "check_within field getter ((n, p) # nets) seen =
     (case seen (getter p) of
        Some prev \<Rightarrow> Inl (CollisionWithinOBTC field prev n)
      | None \<Rightarrow> check_within field getter nets (seen(getter p \<mapsto> n)))"

fun check_between :: "string \<Rightarrow> (NetNamespace \<Rightarrow> 'v) \<Rightarrow> (string \<times> NetNamespace) list \<Rightarrow>
    ('v \<rightharpoonup> string) \<Rightarrow> ns_error + unit" where
  "check_between field getter [] seen = Inr ()"
| "check_between field getter ((n, p) # nets) seen =
     (case seen (getter p) of
        Some prev \<Rightarrow> Inl (CollisionBetween field prev n)
      | None \<Rightarrow> check_between field getter nets seen)"

definition check_field :: "string \<Rightarrow> (NetNamespace \<Rightarrow> 'v) \<Rightarrow> (string \<times> NetNamespace) list \<Rightarrow>
    (string \<times> NetNamespace) list \<Rightarrow> ns_error + unit" where
  "check_field field getter ours theirs =
     bind_r (check_within field getter ours Map.empty) (check_between field getter theirs)"

fun check_hd_versions :: "(string \<times> NetNamespace) list \<Rightarrow> ns_error + unit" where
  "check_hd_versions [] = Inr ()"
| "check_hd_versions ((n, p) # nets) =
     (if HDPrivateKeyID p = HDPublicKeyID p then Inl (IdenticalHDVersions n)
      else check_hd_versions nets)"

definition validateNamespaceIsolation ::
    "(string \<times> NetNamespace) list \<Rightarrow> (string \<times> NetNamespace) list \<Rightarrow> ns_error + unit" where
  "validateNamespaceIsolation ours theirs =
     bind_r (check_hd_versions ours) (\<lambda>_.
     bind_r (check_field ''Bech32 HRP'' Bech32HRPSegwit ours theirs) (\<lambda>_.
     bind_r (check_field ''DefaultPort'' DefaultPort ours theirs) (\<lambda>_.
     bind_r (check_field ''PubKeyHashAddrID'' PubKeyHashAddrID ours theirs) (\<lambda>_.
     bind_r (check_field ''ScriptHashAddrID'' ScriptHashAddrID ours theirs) (\<lambda>_.
     bind_r (check_field ''PrivateKeyID'' PrivateKeyID ours theirs) (\<lambda>_.
     bind_r (check_field ''WitnessPubKeyHashAddrID'' WitnessPubKeyHashAddrID ours theirs) (\<lambda>_.
     bind_r (check_field ''WitnessScriptHashAddrID'' WitnessScriptHashAddrID ours theirs) (\<lambda>_.
     bind_r (check_field ''HDPrivateKeyID'' HDPrivateKeyID ours theirs) (\<lambda>_.
     bind_r (check_field ''HDPublicKeyID'' HDPublicKeyID ours theirs) (\<lambda>_.
     check_field ''HDCoinType'' HDCoinType ours theirs))))))))))"

definition validateOBTCNamespaceIsolation :: "ns_error + unit" where
  "validateOBTCNamespaceIsolation = validateNamespaceIsolation obtcNets btcNets"

section \<open>Facts on the parameters\<close>

lemma GetExpiryParams_cases:
  assumes "GetExpiryParams params = Some p"
  obtains "Net params = ObtcMainNet" "p = mainnetExpiryParams"
    | "Net params = ObtcTestNet" "p = testnetExpiryParams"
    | "Net params = ObtcRegNet" "p = regtestExpiryParams"
  using assms by (auto simp: GetExpiryParams_def split: if_splits)

lemma GetExpiryParams_None_iff: "GetExpiryParams params = None \<longleftrightarrow> \<not> IsOBTC params"
  by (auto simp: GetExpiryParams_def IsOBTC_def)

text \<open>The shared shape of the three parameter sets, which the rules depend on.\<close>

definition wf_expiry_params :: "'a ExpiryParams_scheme \<Rightarrow> bool" where
  "wf_expiry_params p \<longleftrightarrow> 0 < unat (WindowBlocks p) \<and> unat (WindowBlocks p) < 2 ^ 30 \<and>
     0 \<le> StartScanHeight p \<and> 0 < EnableAtHeight p \<and> EnableAtHeight p \<le> ReapConsensusAtHeight p \<and>
     0 < ReapMaxInputs p \<and> 0 < ReapDustMaxInputs p \<and> 0 < ReapMaxWeight p \<and>
     ReapMaxInputs p + ReapDustMaxInputs p < 2 ^ 31 \<and>
     0 < ReapTaxNumerator p \<and> ReapTaxNumerator p < ReapTaxDenominator p \<and>
     ReapTaxDenominator p \<le> 100 \<and> 0 < ReapDustThresholdSat p"

lemma wf_GetExpiryParams: "GetExpiryParams params = Some p \<Longrightarrow> wf_expiry_params p"
  by (erule GetExpiryParams_cases)
    (simp_all add: wf_expiry_params_def expiry_param_defs height_defs)

text \<open>On a non-negative height the key is the plain sum: the 64-bit addition does not wrap.\<close>

lemma unat_of_int_height:
  assumes "0 \<le> h" and "h < 2 ^ 31"
  shows "unat (of_int h :: u64) = nat h"
proof -
  have "(of_int h :: u64) = of_nat (nat h)" using assms(1) by simp
  moreover have "nat h mod 2 ^ LENGTH(64) = nat h" using assms by simp
  ultimately show ?thesis by (simp only: unat_of_nat)
qed

lemma unat_CalculateExpiryKey:
  assumes "0 \<le> h" and "h < 2 ^ 31" and "unat (WindowBlocks p) < 2 ^ 30"
  shows "unat (CalculateExpiryKey p h) = nat h + unat (WindowBlocks p)"
proof -
  have "nat h + unat (WindowBlocks p) < 2 ^ LENGTH(64)" using assms by simp
  then show ?thesis
    by (simp only: CalculateExpiryKey_def unat_word_ariths unat_of_int_height [OF assms(1,2)] mod_less)
qed

lemma CalculateExpiryKey_inject:
  assumes "is_int32 h" and "is_int32 h'" and "CalculateExpiryKey p h = CalculateExpiryKey p h'"
  shows "h = h'"
proof -
  from assms(3) have "(of_int h :: u64) = of_int h'" by (simp add: CalculateExpiryKey_def)
  then have "sint (of_int h :: u64) = sint (of_int h' :: u64)" by (rule arg_cong)
  then have "signed_take_bit 63 h = signed_take_bit 63 h'"
    by (simp add: signed_of_int)
  then show ?thesis
    using assms(1,2) wrap64_id [of h] wrap64_id [of h']
    by (simp add: wrap64_def is_int32_def is_int64_def)
qed

section \<open>What the namespace check establishes\<close>

lemma check_within_Inr:
  assumes "check_within f g ns seen = Inr seen'"
  shows "distinct (map (g \<circ> snd) ns) \<and> dom seen' = dom seen \<union> (g \<circ> snd) ` set ns
    \<and> (g \<circ> snd) ` set ns \<inter> dom seen = {}"
  using assms
proof (induction ns arbitrary: seen)
  case (Cons np ns)
  obtain n p where np: "np = (n, p)" by (cases np)
  then have none: "seen (g p) = None" using Cons.prems by (simp split: option.splits)
  then have "check_within f g ns (seen(g p \<mapsto> n)) = Inr seen'" using Cons.prems np by simp
  from Cons.IH [OF this] show ?case using np none by (auto simp: domIff)
qed simp

lemma check_within_ok:
  assumes "distinct (map (g \<circ> snd) ns)" and "(g \<circ> snd) ` set ns \<inter> dom seen = {}"
  shows "is_ok (check_within f g ns seen)"
  using assms
proof (induction ns arbitrary: seen)
  case (Cons np ns)
  obtain n p where np: "np = (n, p)" by (cases np)
  then have "seen (g p) = None" using Cons.prems(2) by (auto simp: domIff)
  moreover have "(g \<circ> snd) ` set ns \<inter> dom (seen(g p \<mapsto> n)) = {}"
    using Cons.prems np by (simp add: Int_insert_right)
  then have "is_ok (check_within f g ns (seen(g p \<mapsto> n)))"
    using Cons.IH Cons.prems(1) by simp
  ultimately show ?case using np by simp
qed simp

lemma check_between_iff: "check_between f g ns seen = Inr () \<longleftrightarrow> (g \<circ> snd) ` set ns \<inter> dom seen = {}"
proof (induction ns)
  case (Cons np ns)
  obtain n p where "np = (n, p)" by (cases np)
  with Cons show ?case by (cases "seen (g p)") (auto simp: domIff)
qed simp

text \<open>The values of a field separate the networks: no two of ours share one, and none of ours is one of
  theirs.\<close>

definition separates :: "(NetNamespace \<Rightarrow> 'v) \<Rightarrow> (string \<times> NetNamespace) list \<Rightarrow> (string \<times> NetNamespace) list \<Rightarrow> bool" where
  "separates g ours theirs \<longleftrightarrow> distinct (map (g \<circ> snd) ours) \<and> (g \<circ> snd) ` set ours \<inter> (g \<circ> snd) ` set theirs = {}"

lemma check_field_iff: "check_field f g ours theirs = Inr () \<longleftrightarrow> separates g ours theirs"
proof
  assume "check_field f g ours theirs = Inr ()"
  then obtain seen where "check_within f g ours Map.empty = Inr seen" "check_between f g theirs seen = Inr ()"
    by (auto simp: check_field_def bind_r_eq_Inr)
  then show "separates g ours theirs"
    using check_within_Inr [of f g ours Map.empty seen] by (auto simp: check_between_iff separates_def)
next
  assume s: "separates g ours theirs"
  then obtain seen where c: "check_within f g ours Map.empty = Inr seen"
    using check_within_ok [of g ours Map.empty f] by (auto simp: separates_def is_ok_iff)
  from s check_within_Inr [OF c] have "(g \<circ> snd) ` set theirs \<inter> dom seen = {}" by (auto simp: separates_def)
  then show "check_field f g ours theirs = Inr ()" using c by (simp add: check_field_def check_between_iff)
qed

lemma check_hd_versions_iff:
  "check_hd_versions ns = Inr () \<longleftrightarrow> list_all (\<lambda>(n, p). HDPrivateKeyID p \<noteq> HDPublicKeyID p) ns"
  by (induction ns rule: check_hd_versions.induct) auto

lemma bind_unit_iff: "bind_r m (\<lambda>_. k) = Inr () \<longleftrightarrow> m = Inr () \<and> k = Inr ()"
  for m :: "'e + unit" and k :: "'e + unit"
  by (cases m) auto

section \<open>Properties\<close>

lemmas namespace_defs = ObtcMainNetParams_def ObtcTestNetParams_def ObtcRegTestParams_def MainNetNamespace_def
  RegressionNetNamespace_def TestNet3Namespace_def TestNet4Namespace_def SimNetNamespace_def SigNetNamespace_def

text \<open>C26: the start-up check of network namespaces passes exactly when each of the address, key, port
  and coin-type fields separates the OBTC networks from each other and from the Bitcoin networks; on
  the parameters of this repository it passes.\<close>

theorem namespace_isolation:
  "(validateNamespaceIsolation ours theirs = Inr () \<longleftrightarrow>
     list_all (\<lambda>(n, p). HDPrivateKeyID p \<noteq> HDPublicKeyID p) ours
     \<and> separates Bech32HRPSegwit ours theirs \<and> separates DefaultPort ours theirs
     \<and> separates PubKeyHashAddrID ours theirs \<and> separates ScriptHashAddrID ours theirs
     \<and> separates PrivateKeyID ours theirs \<and> separates WitnessPubKeyHashAddrID ours theirs
     \<and> separates WitnessScriptHashAddrID ours theirs \<and> separates HDPrivateKeyID ours theirs
     \<and> separates HDPublicKeyID ours theirs \<and> separates HDCoinType ours theirs)
   \<and> validateOBTCNamespaceIsolation = Inr ()"
proof (intro conjI)
  show "validateOBTCNamespaceIsolation = Inr ()"
    unfolding validateOBTCNamespaceIsolation_def validateNamespaceIsolation_def bind_unit_iff check_field_iff
      check_hd_versions_iff
    by (simp add: separates_def obtcNets_def btcNets_def NetNamespace.defs namespace_defs)
qed (simp add: validateNamespaceIsolation_def bind_unit_iff check_field_iff check_hd_versions_iff)

end
