(* ===== verification/Expiry_Index.thy ===== *)
theory Expiry_Index
  imports Expiry_Entries Expiry_Commitment Chaincfg_Obtc
begin

text \<open>
  The expiry index of \<open>blockchain/expiryindex/expiryindex.go\<close> (with \<open>params.go\<close>): connecting and
  disconnecting blocks, the coinbase commitment check, the queries, and the rebuild strategies.

  The index state is the record \<open>ExpiryIndex\<close> and the database transaction the operation is given.
  The chain accessor is code of the blockchain component: a parameter, with what the index reads of
  it as fields.  Log calls are left out, except that \<open>ConnectBlock\<close> computes the digest it logs, which
  can panic.  A panic (a nil bucket, a block with no transactions) is an error value.
\<close>

section \<open>Parameters\<close>

definition IsExpiryEnabled :: "'a ExpiryParams_scheme \<Rightarrow> int32 \<Rightarrow> bool" where
  "IsExpiryEnabled p height \<longleftrightarrow> EnableAtHeight p \<le> height"

definition IsIndexingEnabled :: "'a ExpiryParams_scheme \<Rightarrow> int32 \<Rightarrow> bool" where
  "IsIndexingEnabled p height \<longleftrightarrow> StartScanHeight p \<le> height"

definition ValidateListParams :: "'a ExpiryParams_scheme \<Rightarrow> int \<Rightarrow> index_error + unit" where
  "ValidateListParams p limit =
     (if limit \<le> 0 then Inl ErrBadLimit
      else if limit > ListBatchLimit p then Inl ErrBadLimit
      else Inr ())"

definition CalculateExpiryRange :: "u64 \<Rightarrow> u64 \<Rightarrow> u64 \<times> u64" where
  "CalculateExpiryRange fromHeight horizonBlocks =
     (let toKey = fromHeight + horizonBlocks
      in (fromHeight, if toKey < fromHeight then - 1 else toKey))"

definition GetDefaultHorizon :: u64 where "GetDefaultHorizon = 144"

section \<open>State\<close>

record SpentTxOut =
  st_Amount :: int64
  st_PkScript :: bytes
  st_Height :: int32
  st_IsCoinBase :: bool

record ExpiryIndex =
  idx_params :: Params
  idx_expiryParams :: ExpiryParams
  idx_curTipHeight :: int32
  idx_disabled :: bool

text \<open>
  The chain accessor.  An iteration over the UTXO set is the outputs it visits and the error it ends
  with, if any; \<open>ForEachUTXOWithAmount\<close> is \<open>None\<close> for an accessor without that method.
\<close>

record ChainAccessor =
  BestHeight :: int32
  BlockByHeight :: "int32 \<Rightarrow> index_error + Block"
  FetchSpendJournal :: "Block \<Rightarrow> index_error + SpentTxOut list"
  ForEachUTXO :: "(OutPoint \<times> int32) list \<times> index_error option"
  ForEachUTXOWithAmount :: "((OutPoint \<times> int32 \<times> int64) list \<times> index_error option) option"

definition NewExpiryIndex :: "Params \<Rightarrow> index_error + ExpiryIndex" where
  "NewExpiryIndex params =
     (case GetExpiryParams params of
        None \<Rightarrow> Inl ErrNotOBTC
      | Some p \<Rightarrow> Inr \<lparr>idx_params = params, idx_expiryParams = p, idx_curTipHeight = -1,
                       idx_disabled = False\<rparr>)"

definition Index_Create :: "ExpiryIndex \<Rightarrow> expiry_db \<Rightarrow> index_error + expiry_db" where
  "Index_Create idx db =
     (if idx_disabled idx then Inr db
      else dbPutIndexVersion CurrentIndexVersion (createExpiryIndexBuckets db))"

section \<open>Connecting and disconnecting outputs\<close>

definition shouldIndexCreateHeight :: "ExpiryIndex \<Rightarrow> int32 \<Rightarrow> bool" where
  "shouldIndexCreateHeight idx createHeight \<longleftrightarrow>
     createHeight > 0 \<and> createHeight \<ge> StartScanHeight (idx_expiryParams idx)"

definition connectTxOut :: "ExpiryIndex \<Rightarrow> OutPoint \<Rightarrow> int32 \<Rightarrow> int64 \<Rightarrow> expiry_db \<Rightarrow> index_error + expiry_db" where
  "connectTxOut idx outpoint createHeight amount db =
     (if \<not> shouldIndexCreateHeight idx createHeight then Inr db
      else putTxOutMapping outpoint (CalculateExpiryKey (idx_expiryParams idx) createHeight) amount db)"

section \<open>The commitment\<close>

definition isCommitmentActive :: "ExpiryIndex \<Rightarrow> int32 \<Rightarrow> bool" where
  "isCommitmentActive idx height =
     (let h = ExpiryCommitmentEnableAtHeight (idx_expiryParams idx) in h > 0 \<and> height \<ge> h)"

definition validateExpiryCommitment :: "ExpiryIndex \<Rightarrow> Block \<Rightarrow> hash \<Rightarrow> index_error + unit" where
  "validateExpiryCommitment idx block expectedRoot =
     (if \<not> isCommitmentActive idx (Height block) then Inr ()
      else case Transactions block of
        [] \<Rightarrow> Inl ErrPanic
      | coinbaseTx # _ \<Rightarrow>
          if CountExpiryCommitments coinbaseTx > 1 then Inl ErrCommitmentDuplicate
          else case ExtractExpiryCommitment coinbaseTx of
            None \<Rightarrow> Inl ErrCommitmentMissing
          | Some (version, root) \<Rightarrow>
              if version \<noteq> ExpiryCommitmentVersion then Inl ErrCommitmentVersion
              else if root \<noteq> expectedRoot then Inl ErrCommitmentMismatch
              else Inr ())"

section \<open>ConnectBlock\<close>

type_synonym acc_db = "MuHash \<times> expiry_db"

definition connectInput :: "TxIn \<Rightarrow> acc_db \<Rightarrow> index_error + acc_db" where
  "connectInput txIn = (\<lambda>(mh, db).
     let op = PreviousOutPoint txIn in
     bind_r (in_bucket (bktOutpoint2Expiry db)) (\<lambda>outpointBucket.
     let mh = (case bucket_Get (encodeOutPoint op) outpointBucket of
                 None \<Rightarrow> mh
               | Some encodedEK \<Rightarrow>
                   let ek = (case decodeExpiryKey encodedEK of Inl _ \<Rightarrow> 0 | Inr ek \<Rightarrow> ek)
                   in MuHash_Remove (computeEntryData op ek) mh)
     in bind_r (disconnectTxOut op db) (\<lambda>db. Inr (mh, db))))"

definition connectOutput ::
    "ExpiryIndex \<Rightarrow> int32 \<Rightarrow> hash \<Rightarrow> nat \<times> TxOut \<Rightarrow> acc_db \<Rightarrow> index_error + acc_db" where
  "connectOutput idx blockHeight txHash = (\<lambda>(voutIdx, txOut) (mh, db).
     if \<not> shouldIndexCreateHeight idx blockHeight then Inr (mh, db)
     else if IsUnspendable (PkScript txOut) then Inr (mh, db)
     else
       let outpoint = \<lparr>Hash = txHash, Index = of_nat voutIdx\<rparr>;
           expiryKey = CalculateExpiryKey (idx_expiryParams idx) blockHeight;
           mh = MuHash_Add (computeEntryData outpoint expiryKey) mh
       in bind_r (connectTxOut idx outpoint blockHeight (Value txOut) db) (\<lambda>db. Inr (mh, db)))"

definition connectTx :: "ExpiryIndex \<Rightarrow> int32 \<Rightarrow> MsgTx \<Rightarrow> acc_db \<Rightarrow> index_error + acc_db" where
  "connectTx idx blockHeight msgTx s =
     bind_r (if \<not> IsCoinBaseTx msgTx then fold_r connectInput (TxIn msgTx) s else Inr s) (\<lambda>s.
     fold_r (connectOutput idx blockHeight (TxHash msgTx)) (enumerate 0 (TxOut msgTx)) s)"

definition ConnectBlock ::
    "ExpiryIndex \<Rightarrow> Block \<Rightarrow> SpentTxOut list \<Rightarrow> expiry_db \<Rightarrow> index_error + (ExpiryIndex \<times> expiry_db)" where
  "ConnectBlock idx block stxos db =
     (let blockHeight = Height block in
      if idx_disabled idx then Inr (idx, db)
      else if \<not> IsIndexingEnabled (idx_expiryParams idx) blockHeight then
        bind_r (dbPutTipHeightIndexed blockHeight db) (\<lambda>db.
        bind_r (dbPutAccumulatorTipHash (Some (BlockHash block)) db) (\<lambda>db. Inr (idx, db)))
      else
        bind_r (dbGetAccumulatorState db) (\<lambda>mh.
        bind_r (MuHash_Digest mh) (\<lambda>root.
        bind_r (validateExpiryCommitment idx block root) (\<lambda>_.
        bind_r (fold_r (connectTx idx blockHeight) (Transactions block) (mh, db)) (\<lambda>(mh, db).
        bind_r (putSnapshot mh (BlockHash block) blockHeight db) (\<lambda>db.
        bind_r (MuHash_Digest mh) (\<lambda>_.
        Inr (idx\<lparr>idx_curTipHeight := blockHeight\<rparr>, db))))))))"

section \<open>DisconnectBlock\<close>

text \<open>The first journal entry of each transaction; the coinbase has none.\<close>

fun stxoOffsets :: "nat \<Rightarrow> nat \<Rightarrow> MsgTx list \<Rightarrow> nat list" where
  "stxoOffsets offset txIdx [] = []"
| "stxoOffsets offset txIdx (tx # txs) =
     offset # stxoOffsets (if txIdx \<noteq> 0 then offset + length (TxIn tx) else offset) (Suc txIdx) txs"

definition disconnectOutput ::
    "ExpiryIndex \<Rightarrow> int32 \<Rightarrow> hash \<Rightarrow> nat \<times> TxOut \<Rightarrow> acc_db \<Rightarrow> index_error + acc_db" where
  "disconnectOutput idx blockHeight txHash = (\<lambda>(voutIdx, txOut) (mh, db).
     if \<not> shouldIndexCreateHeight idx blockHeight then Inr (mh, db)
     else if IsUnspendable (PkScript txOut) then Inr (mh, db)
     else
       let outpoint = \<lparr>Hash = txHash, Index = of_nat voutIdx\<rparr>;
           expiryKey = CalculateExpiryKey (idx_expiryParams idx) blockHeight;
           mh = MuHash_Remove (computeEntryData outpoint expiryKey) mh
       in bind_r (disconnectTxOut outpoint db) (\<lambda>db. Inr (mh, db)))"

definition restoreInput ::
    "ExpiryIndex \<Rightarrow> SpentTxOut list \<Rightarrow> nat \<Rightarrow> nat \<times> TxIn \<Rightarrow> acc_db \<Rightarrow> index_error + acc_db" where
  "restoreInput idx stxos baseOffset = (\<lambda>(vinIdx, txIn) (mh, db).
     let stxoIdx = baseOffset + vinIdx in
     if stxoIdx \<ge> length stxos then Inl ErrStxoOutOfRange
     else
       let stxo = stxos ! stxoIdx in
       if \<not> shouldIndexCreateHeight idx (st_Height stxo) then Inr (mh, db)
       else
         let op = PreviousOutPoint txIn;
             expiryKey = CalculateExpiryKey (idx_expiryParams idx) (st_Height stxo);
             mh = MuHash_Add (computeEntryData op expiryKey) mh
         in bind_r (connectTxOut idx op (st_Height stxo) (st_Amount stxo) db) (\<lambda>db. Inr (mh, db)))"

definition disconnectTx ::
    "ExpiryIndex \<Rightarrow> int32 \<Rightarrow> SpentTxOut list \<Rightarrow> nat \<times> nat \<times> MsgTx \<Rightarrow> acc_db \<Rightarrow> index_error + acc_db" where
  "disconnectTx idx blockHeight stxos = (\<lambda>(txIdx, baseOffset, msgTx) s.
     bind_r (fold_r (disconnectOutput idx blockHeight (TxHash msgTx))
               (rev (enumerate 0 (TxOut msgTx))) s) (\<lambda>s.
     if txIdx \<noteq> 0 then fold_r (restoreInput idx stxos baseOffset) (enumerate 0 (TxIn msgTx)) s
     else Inr s))"

definition DisconnectBlock ::
    "ExpiryIndex \<Rightarrow> Block \<Rightarrow> SpentTxOut list \<Rightarrow> expiry_db \<Rightarrow> index_error + (ExpiryIndex \<times> expiry_db)" where
  "DisconnectBlock idx block stxos db =
     (let blockHeight = Height block; prevHash = PrevBlock (Header block) in
      if idx_disabled idx then Inr (idx, db)
      else if \<not> IsIndexingEnabled (idx_expiryParams idx) blockHeight then
        bind_r (dbPutTipHeightIndexed (wrap32 (blockHeight - 1)) db) (\<lambda>db.
        bind_r (dbPutAccumulatorTipHash (Some prevHash) db) (\<lambda>db. Inr (idx, db)))
      else
        bind_r (dbGetAccumulatorState db) (\<lambda>mh.
        let transactions = Transactions block in
        bind_r (fold_r (disconnectTx idx blockHeight stxos)
                  (rev (enumerate 0 (zip (stxoOffsets 0 0 transactions) transactions)))
                  (mh, db)) (\<lambda>(mh, db).
        bind_r (putSnapshot mh prevHash (wrap32 (blockHeight - 1)) db) (\<lambda>db.
        Inr (idx\<lparr>idx_curTipHeight := wrap32 (blockHeight - 1)\<rparr>, db)))))"

section \<open>Queries\<close>

definition GetAccumulatorSnapshot :: "ExpiryIndex \<Rightarrow> expiry_db \<Rightarrow> index_error + AccumulatorSnapshot" where
  "GetAccumulatorSnapshot idx db =
     (if idx_disabled idx then Inl ErrIndexDisabled
      else
        bind_r (dbGetAccumulatorState db) (\<lambda>mh.
        bind_r (MuHash_Digest mh) (\<lambda>root.
        bind_r (dbGetTipHeightIndexed db) (\<lambda>tipHeight.
        bind_r (dbGetAccumulatorTipHash db) (\<lambda>tipHash.
        Inr \<lparr>snap_Root = root, snap_TipHash = tipHash, snap_TipHeight = tipHeight\<rparr>)))))"

definition GetAccumulatorDigest :: "ExpiryIndex \<Rightarrow> expiry_db \<Rightarrow> index_error + hash" where
  "GetAccumulatorDigest idx db =
     bind_r (GetAccumulatorSnapshot idx db) (\<lambda>snapshot. Inr (snap_Root snapshot))"

definition ReapPrefixTipHeight :: "ExpiryIndex \<Rightarrow> expiry_db \<Rightarrow> index_error + int32" where
  "ReapPrefixTipHeight idx db =
     (if idx_disabled idx then Inl ErrIndexDisabled else dbGetTipHeightIndexed db)"

record ReapPrefixCandidate =
  cand_OutPoint :: OutPoint
  cand_ExpiryKey :: u64
  cand_Amount :: int64

fun reapPrefixLoop :: "u64 \<Rightarrow> int \<Rightarrow> cursor \<Rightarrow> ReapPrefixCandidate list \<Rightarrow>
    index_error + ReapPrefixCandidate list" where
  "reapPrefixLoop toKey limit [] results = Inr results"
| "reapPrefixLoop toKey limit (kv # cursor) results =
     bind_r (decodeReapStrictCompositeKey (fst kv)) (\<lambda>(expiryKey, amount, outpoint).
       if expiryKey > toKey then Inr results
       else
         let results = results @ [\<lparr>cand_OutPoint = outpoint, cand_ExpiryKey = expiryKey,
                                   cand_Amount = amount\<rparr>] in
         if int (length results) \<ge> limit then Inr results
         else reapPrefixLoop toKey limit cursor results)"

definition ReapPrefixCandidates ::
    "ExpiryIndex \<Rightarrow> int32 \<Rightarrow> int \<Rightarrow> expiry_db \<Rightarrow> index_error + ReapPrefixCandidate list" where
  "ReapPrefixCandidates idx blockHeight limit db =
     (if idx_disabled idx then Inl ErrIndexDisabled
      else if limit \<le> 0 then Inr []
      else if blockHeight < 0 then Inr []
      else
        bind_r (in_bucket (bktReapStrictCandidates db)) (\<lambda>reapBucket.
        reapPrefixLoop (of_int blockHeight) limit (cursor_First reapBucket) []))"

record ExpiringUTXO =
  exp_OutPoint :: OutPoint
  exp_ExpiryKey :: u64

fun scanLoop :: "u64 \<Rightarrow> int \<Rightarrow> cursor \<Rightarrow> ExpiringUTXO list \<Rightarrow>
    index_error + (ExpiringUTXO list \<times> bool)" where
  "scanLoop toKey maxResults [] results = Inr (results, False)"
| "scanLoop toKey maxResults (kv # cursor) results =
     bind_r (decodeExpiryOutpointCompositeKey (fst kv)) (\<lambda>(expiryKey, outpoint).
       if expiryKey > toKey then Inr (results, False)
       else if int (length results) \<ge> maxResults then Inr (results, True)
       else scanLoop toKey maxResults cursor
              (results @ [\<lparr>exp_OutPoint = outpoint, exp_ExpiryKey = expiryKey\<rparr>]))"

definition ScanExpiringUTXOs :: "ExpiryIndex \<Rightarrow> u64 \<Rightarrow> u64 \<Rightarrow> int \<Rightarrow> OutPoint option \<Rightarrow> expiry_db \<Rightarrow>
    index_error + (ExpiringUTXO list \<times> bool)" where
  "ScanExpiringUTXOs idx fromKey toKey maxResults startAfter db =
     (if idx_disabled idx then Inl ErrIndexDisabled
      else if maxResults \<le> 0 then Inr ([], False)
      else
        bind_r (in_bucket (bktExpiry2Outpoints db)) (\<lambda>expiryBucket.
        let cursor =
          (case startAfter of
             Some op \<Rightarrow>
               (let seekKey = encodeExpiryOutpointCompositeKey fromKey op;
                    cursor = cursor_Seek seekKey expiryBucket
                in if cursor_Key cursor = Some seekKey then cursor_Next cursor else cursor)
           | None \<Rightarrow> cursor_Seek (expiryCompositePrefix fromKey) expiryBucket)
        in scanLoop toKey maxResults cursor []))"

text \<open>The binary search of \<open>findOutPointStartIndex\<close>, between \<open>low\<close> and \<open>high\<close>.\<close>

function searchStart :: "OutPoint list \<Rightarrow> OutPoint \<Rightarrow> nat \<Rightarrow> nat \<Rightarrow> nat" where
  "searchStart outpoints startAfter low high =
     (if low < high then
        let mid = (low + high) div 2 in
        if compareOutPoint (outpoints ! mid) startAfter \<le> 0
        then searchStart outpoints startAfter (mid + 1) high
        else searchStart outpoints startAfter low mid
      else low)"
  by pat_completeness auto
termination
  by (relation "measure (\<lambda>(_, _, low, high). high - low)") (auto simp: Let_def)

declare searchStart.simps [simp del]

definition findOutPointStartIndex :: "OutPoint list \<Rightarrow> OutPoint option \<Rightarrow> nat" where
  "findOutPointStartIndex outpoints startAfter =
     (case startAfter of
        None \<Rightarrow> 0
      | Some op \<Rightarrow> if outpoints = [] then 0 else searchStart outpoints op 0 (length outpoints))"

record ExpiryIndexStats =
  stats_Disabled :: bool
  stats_TipHeight :: int32
  stats_TotalUTXOs :: nat
  stats_TotalExpiryKeys :: nat

fun countExpiryKeys :: "cursor \<Rightarrow> u64 option \<Rightarrow> nat \<Rightarrow> index_error + nat" where
  "countExpiryKeys [] lastExpiry utxoCount = Inr utxoCount"
| "countExpiryKeys (kv # cursor) lastExpiry utxoCount =
     (if length (fst kv) \<noteq> 44 then Inl ErrInvalidLength
      else bind_r (decodeExpiryKey (take 8 (fst kv))) (\<lambda>expiryKey.
        if lastExpiry \<noteq> Some expiryKey then countExpiryKeys cursor (Some expiryKey) (utxoCount + 1)
        else countExpiryKeys cursor lastExpiry utxoCount))"

definition GetStats :: "ExpiryIndex \<Rightarrow> expiry_db \<Rightarrow> index_error + ExpiryIndexStats" where
  "GetStats idx db =
     (if idx_disabled idx
      then Inr \<lparr>stats_Disabled = True, stats_TipHeight = 0, stats_TotalUTXOs = 0,
                stats_TotalExpiryKeys = 0\<rparr>
      else
        bind_r (dbGetTipHeightIndexed db) (\<lambda>tipHeight.
        let utxoCount = (case bktOutpoint2Expiry db of None \<Rightarrow> 0 | Some b \<Rightarrow> length (cursor_First b)) in
        bind_r (case bktExpiry2Outpoints db of
                  None \<Rightarrow> Inr 0 | Some b \<Rightarrow> countExpiryKeys (cursor_First b) None 0) (\<lambda>keys.
        Inr \<lparr>stats_Disabled = False, stats_TipHeight = tipHeight, stats_TotalUTXOs = utxoCount,
             stats_TotalExpiryKeys = keys\<rparr>)))"

section \<open>Rebuilding\<close>

text \<open>
  These operations run several database transactions and change the index even when they fail, so
  they return the new state beside the error.  \<open>db_update\<close> is \<open>database.Update\<close>: a transaction that
  fails is rolled back.
\<close>

type_synonym index_state = "ExpiryIndex \<times> expiry_db"

definition db_update :: "(expiry_db \<Rightarrow> index_error + expiry_db) \<Rightarrow> expiry_db \<Rightarrow> expiry_db \<times> index_error option" where
  "db_update f db = (case f db of Inl e \<Rightarrow> (db, Some e) | Inr db' \<Rightarrow> (db', None))"

definition getChainTipHeight :: "ExpiryIndex \<Rightarrow> ChainAccessor option \<Rightarrow> int32" where
  "getChainTipHeight idx chain = (case chain of None \<Rightarrow> idx_curTipHeight idx | Some c \<Rightarrow> BestHeight c)"

definition getBlockByHeight :: "ChainAccessor option \<Rightarrow> int32 \<Rightarrow> index_error + Block" where
  "getBlockByHeight chain height = (case chain of None \<Rightarrow> Inl ErrNoChain | Some c \<Rightarrow> BlockByHeight c height)"

definition getSpentTxOuts :: "ChainAccessor option \<Rightarrow> int32 \<Rightarrow> index_error + SpentTxOut list" where
  "getSpentTxOuts chain height =
     (case chain of
        None \<Rightarrow> Inl ErrNoChain
      | Some c \<Rightarrow> bind_r (BlockByHeight c height) (FetchSpendJournal c))"

type_synonym batch_entry = "OutPoint \<times> u64 \<times> int64"

definition flushBatch :: "batch_entry list \<Rightarrow> expiry_db \<Rightarrow> index_error + expiry_db" where
  "flushBatch batch = fold_r (\<lambda>(op, expiryKey, amount). putTxOutMapping op expiryKey amount) batch"

text \<open>The callback of the iteration, on the accumulator, the pending batch and the database; a failed
  flush leaves the database as it was.\<close>

definition processUTXO :: "ExpiryIndex \<Rightarrow> OutPoint \<times> int32 \<times> int64 \<Rightarrow>
    MuHash \<times> batch_entry list \<times> expiry_db \<Rightarrow>
    (index_error \<times> expiry_db) + (MuHash \<times> batch_entry list \<times> expiry_db)" where
  "processUTXO idx = (\<lambda>(outpoint, createHeight, amount) (mh, batch, db).
     if \<not> shouldIndexCreateHeight idx createHeight then Inr (mh, batch, db)
     else
       let expiryKey = CalculateExpiryKey (idx_expiryParams idx) createHeight;
           mh = MuHash_Add (computeEntryData outpoint expiryKey) mh;
           batch = batch @ [(outpoint, expiryKey, amount)]
       in if length batch \<ge> DefaultBatchSize
          then (case flushBatch batch db of Inl e \<Rightarrow> Inl (e, db) | Inr db \<Rightarrow> Inr (mh, [], db))
          else Inr (mh, batch, db))"

definition resetToEmpty :: "index_state \<Rightarrow> index_state" where
  "resetToEmpty = (\<lambda>(idx, db).
     (idx\<lparr>idx_curTipHeight := -1\<rparr>, fst (db_update clearExpiryIndexBuckets db)))"

definition utxo_iteration :: "ChainAccessor \<Rightarrow> (OutPoint \<times> int32 \<times> int64) list \<times> index_error option" where
  "utxo_iteration c =
     (case ForEachUTXOWithAmount c of
        Some it \<Rightarrow> it
      | None \<Rightarrow> (map (\<lambda>(op, h). (op, h, 0)) (fst (ForEachUTXO c)), snd (ForEachUTXO c)))"

text \<open>The iteration and the last flush.\<close>

definition populate :: "ExpiryIndex \<Rightarrow> ChainAccessor \<Rightarrow> expiry_db \<Rightarrow>
    (index_error \<times> expiry_db) + (MuHash \<times> expiry_db)" where
  "populate idx c db =
     (let (utxos, iterErr) = utxo_iteration c in
      bind_r (fold_r (processUTXO idx) utxos (NewMuHash, [], db)) (\<lambda>(mh, batch, db).
      case iterErr of
        Some e \<Rightarrow> Inl (e, db)
      | None \<Rightarrow> (case flushBatch batch db of Inl e \<Rightarrow> Inl (e, db) | Inr db \<Rightarrow> Inr (mh, db))))"

definition finalizeRebuild :: "ChainAccessor \<Rightarrow> int32 \<Rightarrow> MuHash \<Rightarrow> expiry_db \<Rightarrow> index_error + expiry_db" where
  "finalizeRebuild c chainTipHeight mh db =
     bind_r (dbPutAccumulatorState mh db) (\<lambda>db.
     bind_r (if chainTipHeight \<ge> 0
             then bind_r (BlockByHeight c chainTipHeight) (\<lambda>block.
                    dbPutAccumulatorTipHash (Some (BlockHash block)) db)
             else dbPutAccumulatorTipHash (Some 0) db) (\<lambda>db.
     dbPutTipHeightIndexed chainTipHeight db))"

definition fastRebuildFromUTXO ::
    "ChainAccessor option \<Rightarrow> int32 \<Rightarrow> index_state \<Rightarrow> index_state \<times> index_error option" where
  "fastRebuildFromUTXO chain chainTipHeight = (\<lambda>(idx, db).
     case chain of
       None \<Rightarrow> ((idx, db), Some ErrNoChain)
     | Some c \<Rightarrow>
         (case clearExpiryIndexBuckets db of
            Inl e \<Rightarrow> ((idx, db), Some e)
          | Inr db \<Rightarrow>
              let idx = idx\<lparr>idx_curTipHeight := -1\<rparr> in
              case populate idx c db of
                Inl (e, db) \<Rightarrow> (resetToEmpty (idx, db), Some e)
              | Inr (mh, db) \<Rightarrow>
                  (case finalizeRebuild c chainTipHeight mh db of
                     Inl e \<Rightarrow> (resetToEmpty (idx, db), Some e)
                   | Inr db \<Rightarrow> ((idx\<lparr>idx_curTipHeight := chainTipHeight\<rparr>, db), None))))"

text \<open>The loop over the heights \<open>fromHeight + 1\<close> to \<open>toHeight\<close>, stopping at the first error.\<close>

definition catchUpStep :: "ChainAccessor option \<Rightarrow> int32 \<Rightarrow> index_state \<Rightarrow> index_error + index_state" where
  "catchUpStep chain height = (\<lambda>(idx, db).
     bind_r (getBlockByHeight chain height) (\<lambda>block.
     bind_r (getSpentTxOuts chain height) (\<lambda>stxos.
     ConnectBlock idx block stxos db)))"

fun catchUpLoop :: "ChainAccessor option \<Rightarrow> int32 list \<Rightarrow> index_state \<Rightarrow> index_state \<times> index_error option" where
  "catchUpLoop chain [] st = (st, None)"
| "catchUpLoop chain (height # heights) st =
     (case catchUpStep chain height st of
        Inl e \<Rightarrow> (st, Some e)
      | Inr st' \<Rightarrow> catchUpLoop chain heights st')"

definition incrementalCatchUp ::
    "ChainAccessor option \<Rightarrow> int32 \<Rightarrow> int32 \<Rightarrow> index_state \<Rightarrow> index_state \<times> index_error option" where
  "incrementalCatchUp chain fromHeight toHeight st =
     (if fromHeight \<ge> toHeight then (st, None) else catchUpLoop chain [fromHeight + 1..toHeight] st)"

definition tryFastRebuildOrFallback ::
    "ChainAccessor option \<Rightarrow> int32 \<Rightarrow> index_state \<Rightarrow> index_state \<times> index_error option" where
  "tryFastRebuildOrFallback chain chainTipHeight st =
     (case fastRebuildFromUTXO chain chainTipHeight st of
        (st, None) \<Rightarrow> (st, None)
      | (st, Some e) \<Rightarrow> incrementalCatchUp chain (idx_curTipHeight (fst st)) chainTipHeight st)"

definition smartRebuild ::
    "ChainAccessor option \<Rightarrow> int32 \<Rightarrow> index_state \<Rightarrow> index_state \<times> index_error option" where
  "smartRebuild chain indexTipHeight st =
     (let chainTipHeight = getChainTipHeight (fst st) chain;
          lag = wrap32 (chainTipHeight - indexTipHeight)
      in if indexTipHeight = -1 then tryFastRebuildOrFallback chain chainTipHeight st
         else if lag > 1000 then tryFastRebuildOrFallback chain chainTipHeight st
         else if lag > 0 then incrementalCatchUp chain indexTipHeight chainTipHeight st
         else (st, None))"

definition SetChainAccessor :: "ChainAccessor \<Rightarrow> index_state \<Rightarrow> index_state" where
  "SetChainAccessor chain st =
     (if idx_disabled (fst st) then st
      else fst (smartRebuild (Some chain) (idx_curTipHeight (fst st)) st))"

definition Index_Init :: "ChainAccessor option \<Rightarrow> index_state \<Rightarrow> index_state \<times> index_error option" where
  "Index_Init chain = (\<lambda>(idx, db).
     if idx_disabled idx then ((idx, db), None)
     else
       case bind_r (dbGetIndexVersion db) (\<lambda>version.
            bind_r (dbGetTipHeightIndexed db) (\<lambda>tip. Inr (version, tip))) of
         Inl e \<Rightarrow> ((idx, db), Some e)
       | Inr (storedVersion, indexTipHeight) \<Rightarrow>
           let needsReset = storedVersion \<noteq> 0 \<and> storedVersion \<noteq> CurrentIndexVersion;
               (db, err) =
                 (if needsReset
                  then db_update (\<lambda>db.
                         bind_r (clearExpiryIndexBuckets db) (\<lambda>db.
                         bind_r (dbPutTipHeightIndexed (-1) db) (\<lambda>db.
                         dbPutIndexVersion CurrentIndexVersion db))) db
                  else (db, None));
               indexTipHeight = (if needsReset then -1 else indexTipHeight)
           in case err of
                Some e \<Rightarrow> ((idx, db), Some e)
              | None \<Rightarrow>
                  let idx = idx\<lparr>idx_curTipHeight := indexTipHeight\<rparr> in
                  case chain of
                    Some _ \<Rightarrow> smartRebuild chain indexTipHeight (idx, db)
                  | None \<Rightarrow> ((idx, db), None))"

lemma validateExpiryCommitment_iff:
  assumes "Transactions block = cb # txs"
  shows "validateExpiryCommitment idx block root = Inr () \<longleftrightarrow>
    \<not> isCommitmentActive idx (Height block) \<or>
    (\<exists>v. filter (\<lambda>out. isExpiryCommitmentScript (PkScript out)) (TxOut cb) =
       [\<lparr>Value = v, PkScript = BuildExpiryCommitmentScript root\<rparr>])"
proof -
  let ?f = "filter (\<lambda>out. isExpiryCommitmentScript (PkScript out)) (TxOut cb)"
  have x: "ExtractExpiryCommitment cb = extractFrom (rev ?f)" "CountExpiryCommitments cb = length ?f"
    by (simp_all add: ExtractExpiryCommitment_def CountExpiryCommitments_def extractFrom_filter [of "rev (TxOut cb)"]
        rev_filter)
  consider (none) "?f = []" | (one) out where "?f = [out]" | (many) "1 < length ?f"
    by (cases ?f; cases "tl ?f") auto
  then show ?thesis
  proof cases
    case one
    have s: "isExpiryCommitmentScript (PkScript out)"
      using one filter_set [of "\<lambda>out. isExpiryCommitmentScript (PkScript out)" "TxOut cb"] by auto
    then have "extractFrom [out] = Some (PkScript out ! 6, hash_of_bytes (take 32 (drop 7 (PkScript out))))"
      by (simp add: Let_def)
    moreover have "PkScript out ! 6 = ExpiryCommitmentVersion \<and> hash_of_bytes (take 32 (drop 7 (PkScript out))) = root
        \<longleftrightarrow> PkScript out = BuildExpiryCommitmentScript root"
      using isExpiryCommitmentScript_version [OF s] by (auto simp: hash_of_bytes_hash_bytes)
    moreover have "(\<exists>v. out = \<lparr>Value = v, PkScript = BuildExpiryCommitmentScript root\<rparr>)
        \<longleftrightarrow> PkScript out = BuildExpiryCommitmentScript root"
      by (cases out) auto
    ultimately show ?thesis using one x by (auto simp: validateExpiryCommitment_def assms)
  qed (use x assms in \<open>auto simp: validateExpiryCommitment_def\<close>)
qed

section \<open>Properties\<close>

text \<open>C24: where it is active, the commitment rule accepts a block exactly when
  its coinbase has exactly one commitment output and that output is the script that
  \<open>BuildExpiryCommitmentScript\<close> builds for the expected root; where it is not, it accepts every block.\<close>

theorem commitment_rule_exact:
  "validateExpiryCommitment idx block root = Inr () \<longleftrightarrow>
    (if isCommitmentActive idx (Height block)
     then \<exists>cb txs v. Transactions block = cb # txs
       \<and> filter (\<lambda>out. isExpiryCommitmentScript (PkScript out)) (TxOut cb) =
           [\<lparr>Value = v, PkScript = BuildExpiryCommitmentScript root\<rparr>]
     else True)"
proof (cases "Transactions block")
  case Nil
  then show ?thesis by (simp add: validateExpiryCommitment_def)
next
  case (Cons cb txs)
  then show ?thesis using validateExpiryCommitment_iff [OF Cons] by simp
qed

end
