(* ===== verification/Expiry_Refine.thy ===== *)
theory Expiry_Refine
  imports Expiry_Index
begin

text \<open>
  What the expiry index promises: it is the map from the unspent outputs it has to track to their
  expiry key and amount, and its accumulator represents that map.  \<open>spec_block\<close> is the
  specification of a block as an update of the map; \<open>ConnectBlock\<close> refines it and
  \<open>DisconnectBlock\<close> undoes it.
\<close>

section \<open>The multiset an index map stands for\<close>

definition acc_mset :: "idx_map \<Rightarrow> bytes multiset" where
  "acc_mset M = image_mset (\<lambda>op. computeEntryData op (fst (the (M op)))) (mset_set (dom M))"

lemma acc_mset_empty [simp]: "acc_mset Map.empty = {#}"
  by (simp add: acc_mset_def)

lemma acc_mset_upd:
  assumes "finite (dom M)" and "M op = None"
  shows "acc_mset (M(op \<mapsto> (e, a))) = add_mset (computeEntryData op e) (acc_mset M)"
proof -
  have notin: "op \<notin> dom M" using assms(2) by auto
  have "image_mset (\<lambda>x. computeEntryData x (fst (the ((M(op \<mapsto> (e, a))) x)))) (mset_set (dom M))
      = acc_mset M"
    unfolding acc_mset_def using assms notin by (intro image_mset_cong) (auto simp: domIff)
  then show ?thesis using assms(1) notin by (simp add: acc_mset_def)
qed

lemma acc_mset_del:
  assumes "finite (dom M)" and "M op = Some (e, a)"
  shows "acc_mset M = add_mset (computeEntryData op e) (acc_mset (M(op := None)))"
proof -
  have "M = (M(op := None))(op \<mapsto> (e, a))" using assms(2) by auto
  moreover have "finite (dom (M(op := None)))" using assms(1) by simp
  ultimately show ?thesis using acc_mset_upd [of "M(op := None)" op e a] by simp
qed

section \<open>The specification of a block\<close>

definition tracked :: "ExpiryIndex \<Rightarrow> int32 \<Rightarrow> TxOut \<Rightarrow> bool" where
  "tracked idx height txOut \<longleftrightarrow> shouldIndexCreateHeight idx height \<and> \<not> IsUnspendable (PkScript txOut)"

definition out_op :: "MsgTx \<Rightarrow> nat \<Rightarrow> OutPoint" where
  "out_op tx i = \<lparr>Hash = TxHash tx, Index = of_nat i\<rparr>"

definition spec_spend :: "TxIn \<Rightarrow> idx_map \<Rightarrow> idx_map" where
  "spec_spend ti M = M(PreviousOutPoint ti := None)"

definition spec_create :: "ExpiryIndex \<Rightarrow> int32 \<Rightarrow> MsgTx \<Rightarrow> nat \<times> TxOut \<Rightarrow> idx_map \<Rightarrow> idx_map" where
  "spec_create idx height tx = (\<lambda>(i, txOut) M.
     if tracked idx height txOut
     then M(out_op tx i \<mapsto> (CalculateExpiryKey (idx_expiryParams idx) height, Value txOut))
     else M)"

definition spec_spends :: "MsgTx \<Rightarrow> idx_map \<Rightarrow> idx_map" where
  "spec_spends tx M = (if IsCoinBaseTx tx then M else fold spec_spend (TxIn tx) M)"

definition spec_tx :: "ExpiryIndex \<Rightarrow> int32 \<Rightarrow> MsgTx \<Rightarrow> idx_map \<Rightarrow> idx_map" where
  "spec_tx idx height tx M =
     fold (spec_create idx height tx) (enumerate 0 (TxOut tx)) (spec_spends tx M)"

definition spec_block :: "ExpiryIndex \<Rightarrow> Block \<Rightarrow> idx_map \<Rightarrow> idx_map" where
  "spec_block idx block M = fold (spec_tx idx (Height block)) (Transactions block) M"

text \<open>
  What validation guarantees of a block before it is indexed: an output is new when it is created
  (no two unspent outputs share an outpoint) and its value is a valid amount.
\<close>

definition create_ok :: "ExpiryIndex \<Rightarrow> int32 \<Rightarrow> MsgTx \<Rightarrow> nat \<times> TxOut \<Rightarrow> idx_map \<Rightarrow> bool" where
  "create_ok idx height tx = (\<lambda>(i, txOut) M.
     tracked idx height txOut \<longrightarrow> M (out_op tx i) = None \<and> valid_amount (Value txOut))"

definition tx_ok :: "ExpiryIndex \<Rightarrow> int32 \<Rightarrow> MsgTx \<Rightarrow> idx_map \<Rightarrow> bool" where
  "tx_ok idx height tx M =
     fold_pre (create_ok idx height tx) (spec_create idx height tx) (enumerate 0 (TxOut tx))
       (spec_spends tx M)"

definition block_ok :: "ExpiryIndex \<Rightarrow> Block \<Rightarrow> idx_map \<Rightarrow> bool" where
  "block_ok idx block M =
     fold_pre (tx_ok idx (Height block)) (spec_tx idx (Height block)) (Transactions block) M"

section \<open>Simulation of the loops\<close>

text \<open>The state of a loop represents a map; the metadata bucket is not touched.\<close>

definition loop_rep :: "bucket option \<Rightarrow> acc_db \<Rightarrow> idx_map \<Rightarrow> bool" where
  "loop_rep meta s M \<longleftrightarrow> index_rep (snd s) M \<and> represents (fst s) (acc_mset M)
     \<and> bktExpiryMeta (snd s) = meta"

lemma loop_rep_finite: "loop_rep meta s M \<Longrightarrow> finite (dom M)"
  by (simp add: loop_rep_def index_rep_def wf_idx_map_def)

lemma index_rep_Get:
  assumes "index_rep db M"
  obtains b where "bktOutpoint2Expiry db = Some b"
    and "bucket_Get (encodeOutPoint op) b = map_option (\<lambda>(e, a). encodeExpiryKey e) (M op)"
  using assms by (auto simp: index_rep_def holds_def rep_o2e_def)

lemma connectInput_refines:
  assumes "loop_rep meta s M"
  shows "\<exists>s'. connectInput ti s = Inr s' \<and> loop_rep meta s' (spec_spend ti M)"
proof -
  obtain mh db where s: "s = (mh, db)" by (cases s)
  let ?op = "PreviousOutPoint ti"
  have rep: "index_rep db M" "represents mh (acc_mset M)" "bktExpiryMeta db = meta"
    using assms by (auto simp: loop_rep_def s)
  obtain b where b: "bktOutpoint2Expiry db = Some b"
    "bucket_Get (encodeOutPoint ?op) b = map_option (\<lambda>(e, a). encodeExpiryKey e) (M ?op)"
    using index_rep_Get [OF rep(1)] .
  obtain db' where d: "disconnectTxOut ?op db = Inr db'" "index_rep db' (M(?op := None))"
    "bktExpiryMeta db' = bktExpiryMeta db"
    using disconnectTxOut_refines [OF rep(1)] .
  show ?thesis
  proof (cases "M ?op")
    case None
    then have "M(?op := None) = M" by auto
    then show ?thesis
      using None b d rep by (auto simp: connectInput_def s in_bucket_def loop_rep_def spec_spend_def)
  next
    case (Some ea)
    obtain e a where M: "M ?op = Some (e, a)" using Some by (cases ea) auto
    have "represents (MuHash_Remove (computeEntryData ?op e) mh) (acc_mset (M(?op := None)))"
      using rep(2) acc_mset_del [of M ?op e a] M loop_rep_finite [OF assms]
      by (intro represents_Remove) simp
    then show ?thesis
      using M b d rep by (auto simp: connectInput_def s in_bucket_def loop_rep_def spec_spend_def)
  qed
qed

lemma connectOutput_refines:
  assumes "loop_rep meta s M" and "create_ok idx height tx x M"
  shows "\<exists>s'. connectOutput idx height (TxHash tx) x s = Inr s' \<and>
    loop_rep meta s' (spec_create idx height tx x M)"
proof -
  obtain mh db i txOut where s: "s = (mh, db)" and x: "x = (i, txOut)" by (cases s; cases x)
  let ?e = "CalculateExpiryKey (idx_expiryParams idx) height"
  show ?thesis
  proof (cases "tracked idx height txOut")
    case False
    then show ?thesis
      using assms by (auto simp: connectOutput_def spec_create_def s x tracked_def)
  next
    case True
    then have ok: "M (out_op tx i) = None" "valid_amount (Value txOut)"
      using assms(2) by (simp_all add: create_ok_def x)
    have rep: "index_rep db M" "represents mh (acc_mset M)" "bktExpiryMeta db = meta"
      using assms(1) by (auto simp: loop_rep_def s)
    obtain db' where d: "putTxOutMapping (out_op tx i) ?e (Value txOut) db = Inr db'"
      "index_rep db' (M(out_op tx i \<mapsto> (?e, Value txOut)))" "bktExpiryMeta db' = bktExpiryMeta db"
      by (rule putTxOutMapping_refines [OF rep(1), of "out_op tx i" ?e "Value txOut"])
        (use ok in auto)
    have "represents (MuHash_Add (computeEntryData (out_op tx i) ?e) mh)
        (acc_mset (M(out_op tx i \<mapsto> (?e, Value txOut))))"
      using represents_Add [OF rep(2)] acc_mset_upd [OF loop_rep_finite [OF assms(1)] ok(1)] by simp
    with True d rep show ?thesis
      by (auto simp: connectOutput_def spec_create_def s x tracked_def connectTxOut_def Let_def
          out_op_def loop_rep_def)
  qed
qed

lemma fold_spend_refines:
  "loop_rep meta s M \<Longrightarrow>
     \<exists>s'. fold_r connectInput tis s = Inr s' \<and> loop_rep meta s' (fold spec_spend tis M)"
proof -
  assume "loop_rep meta s M"
  moreover have "fold_pre (\<lambda>_ _. True) spec_spend tis M" by (induction tis arbitrary: M) auto
  ultimately show ?thesis
    using fold_r_refines [where P = "\<lambda>_ _. True" and g = spec_spend and R = "loop_rep meta"]
      connectInput_refines by blast
qed

lemma connectTx_refines:
  assumes "loop_rep meta s M" and "tx_ok idx height tx M"
  shows "\<exists>s'. connectTx idx height tx s = Inr s' \<and> loop_rep meta s' (spec_tx idx height tx M)"
proof -
  obtain s1 where s1: "(if \<not> IsCoinBaseTx tx then fold_r connectInput (TxIn tx) s else Inr s) = Inr s1"
    "loop_rep meta s1 (spec_spends tx M)"
    using fold_spend_refines [OF assms(1), of "TxIn tx"] assms(1)
    by (cases "IsCoinBaseTx tx") (auto simp: spec_spends_def)
  have "\<exists>s'. fold_r (connectOutput idx height (TxHash tx)) (enumerate 0 (TxOut tx)) s1 = Inr s' \<and>
      loop_rep meta s' (fold (spec_create idx height tx) (enumerate 0 (TxOut tx)) (spec_spends tx M))"
    by (rule fold_r_refines [where P = "create_ok idx height tx"])
      (use assms(2) s1(2) connectOutput_refines in \<open>auto simp: tx_ok_def\<close>)
  then show ?thesis using s1(1) by (simp add: connectTx_def spec_tx_def)
qed

lemma connectTxs_refines:
  assumes "loop_rep meta s M"
    and "fold_pre (tx_ok idx height) (spec_tx idx height) txs M"
  shows "\<exists>s'. fold_r (connectTx idx height) txs s = Inr s' \<and>
    loop_rep meta s' (fold (spec_tx idx height) txs M)"
  by (rule fold_r_refines [where P = "tx_ok idx height"])
    (use assms connectTx_refines in auto)

section \<open>ConnectBlock\<close>

text \<open>The state of the index between blocks: entries, accumulator and metadata describe one map.\<close>

definition index_inv :: "expiry_db \<Rightarrow> idx_map \<Rightarrow> MuHash \<Rightarrow> hash \<Rightarrow> int32 \<Rightarrow> bool" where
  "index_inv db M mh tipHash tip \<longleftrightarrow>
     index_rep db M \<and> represents mh (acc_mset M) \<and> snapshot_is mh tipHash tip db"

text \<open>An accumulator element with a modular inverse; all of them, since the modulus is prime.\<close>

definition invertible :: "bytes \<Rightarrow> bool" where
  "invertible d \<longleftrightarrow> coprime (hashToNum d) muhashPrime"

definition block_inputs :: "Block \<Rightarrow> OutPoint list" where
  "block_inputs block = concat (map (\<lambda>tx. if IsCoinBaseTx tx then [] else map PreviousOutPoint (TxIn tx))
     (Transactions block))"

lemma denominator_MuHash_Add [simp]: "denominator (MuHash_Add d m) = denominator m"
  by (simp add: MuHash_Add_def)

lemma coprime_MuHash_Remove:
  "coprime (denominator m) muhashPrime \<Longrightarrow> invertible d \<Longrightarrow>
     coprime (denominator (MuHash_Remove d m)) muhashPrime"
  using muhashPrime_gt_1 by (simp add: MuHash_Remove_def invertible_def coprime_mod_left_iff)

lemma connectInput_coprime:
  assumes "connectInput ti s = Inr s'" and "coprime (denominator (fst s)) muhashPrime"
    and "\<forall>e. invertible (computeEntryData (PreviousOutPoint ti) e)"
  shows "coprime (denominator (fst s')) muhashPrime"
  using assms
  by (cases s) (auto simp: connectInput_def bind_r_eq_Inr Let_def coprime_MuHash_Remove
      split: option.splits)

lemma connectOutput_denominator:
  "connectOutput idx h th x s = Inr s' \<Longrightarrow> denominator (fst s') = denominator (fst s)"
  by (cases s; cases x) (auto simp: connectOutput_def bind_r_eq_Inr Let_def split: if_splits)

lemma connectTx_coprime:
  assumes "connectTx idx h tx s = Inr s'" and "coprime (denominator (fst s)) muhashPrime"
    and "\<forall>ti \<in> set (TxIn tx). \<forall>e. \<not> IsCoinBaseTx tx \<longrightarrow> invertible (computeEntryData (PreviousOutPoint ti) e)"
  shows "coprime (denominator (fst s')) muhashPrime"
proof -
  obtain s1 where 1: "(if \<not> IsCoinBaseTx tx then fold_r connectInput (TxIn tx) s else Inr s) = Inr s1"
    "fold_r (connectOutput idx h (TxHash tx)) (enumerate 0 (TxOut tx)) s1 = Inr s'"
    using assms(1) by (auto simp: connectTx_def bind_r_eq_Inr)
  have c1: "coprime (denominator (fst s1)) muhashPrime"
  proof (cases "IsCoinBaseTx tx")
    case True then show ?thesis using 1(1) assms(2) by simp
  next
    case False
    then have "fold_r connectInput (TxIn tx) s = Inr s1" using 1(1) by simp
    then show ?thesis
      by (rule fold_r_invariant [where P = "\<lambda>s. coprime (denominator (fst s)) muhashPrime"])
        (use assms False connectInput_coprime in auto)
  qed
  show ?thesis
    using 1(2) c1
    by (rule fold_r_invariant [where P = "\<lambda>s. coprime (denominator (fst s)) muhashPrime"])
      (simp add: connectOutput_denominator)
qed

lemma connectTxs_coprime:
  assumes "fold_r (connectTx idx h) txs s = Inr s'" and "coprime (denominator (fst s)) muhashPrime"
    and "\<forall>tx \<in> set txs. \<forall>ti \<in> set (TxIn tx). \<forall>e. \<not> IsCoinBaseTx tx \<longrightarrow>
      invertible (computeEntryData (PreviousOutPoint ti) e)"
  shows "coprime (denominator (fst s')) muhashPrime"
  using assms(1,2)
  by (rule fold_r_invariant [where P = "\<lambda>s. coprime (denominator (fst s)) muhashPrime"])
    (use assms(3) connectTx_coprime in blast)

lemma snapshot_is_cong:
  "bktExpiryMeta db' = bktExpiryMeta db \<Longrightarrow> snapshot_is mh h n db' = snapshot_is mh h n db"
  by (simp add: snapshot_is_def has_meta_def dbGetAccumulatorState_def dbGetAccumulatorTipHash_def
      dbGetTipHeightIndexed_def dbGetIndexMeta_def)

lemma has_meta_cong: "bktExpiryMeta db' = bktExpiryMeta db \<Longrightarrow> has_meta db' = has_meta db"
  by (simp add: has_meta_def)

lemma ConnectBlock_refines:
  assumes inv: "index_inv db M mh tipHash tip"
    and en: "\<not> idx_disabled idx" "IsIndexingEnabled (idx_expiryParams idx) (Height block)"
    and h: "is_int32 (Height block)"
    and ok: "block_ok idx block M"
    and com: "validateExpiryCommitment idx block (mset_digest (acc_mset M)) = Inr ()"
    and cop: "coprime (denominator mh) muhashPrime"
    and spends: "\<forall>op \<in> set (block_inputs block). \<forall>e. invertible (computeEntryData op e)"
  shows "\<exists>db' mh'. ConnectBlock idx block stxos db = Inr (idx\<lparr>idx_curTipHeight := Height block\<rparr>, db')
    \<and> index_inv db' (spec_block idx block M) mh' (BlockHash block) (Height block)
    \<and> coprime (denominator mh') muhashPrime"
proof -
  have rep: "index_rep db M" "represents mh (acc_mset M)" and sn: "snapshot_is mh tipHash tip db"
    using inv by (auto simp: index_inv_def)
  have acc: "dbGetAccumulatorState db = Inr mh" and meta: "has_meta db"
    using sn by (auto simp: snapshot_is_def)
  have dig: "MuHash_Digest mh = Inr (mset_digest (acc_mset M))"
    using MuHash_Digest_represents [OF rep(2)] cop by simp
  have "loop_rep (bktExpiryMeta db) (mh, db) M" using rep by (simp add: loop_rep_def)
  from connectTxs_refines [OF this ok [unfolded block_ok_def]]
  obtain mh1 db1 where f: "fold_r (connectTx idx (Height block)) (Transactions block) (mh, db) = Inr (mh1, db1)"
    and r: "loop_rep (bktExpiryMeta db) (mh1, db1) (spec_block idx block M)"
    by (auto simp: spec_block_def)
  have rep1: "index_rep db1 (spec_block idx block M)" "represents mh1 (acc_mset (spec_block idx block M))"
    "bktExpiryMeta db1 = bktExpiryMeta db"
    using r by (auto simp: loop_rep_def)
  have cop1: "coprime (denominator mh1) muhashPrime"
    using connectTxs_coprime [OF f] cop spends by (auto simp: block_inputs_def)
  have dig1: "MuHash_Digest mh1 = Inr (mset_digest (acc_mset (spec_block idx block M)))"
    using MuHash_Digest_represents [OF rep1(2)] cop1 by simp
  have wf1: "wf_muhash mh1" using rep1(2) by (simp add: represents_def)
  have "has_meta db1" using meta has_meta_cong [OF rep1(3)] by simp
  from putSnapshot_ok [OF this wf1 h, of "BlockHash block"]
  obtain db2 where p: "putSnapshot mh1 (BlockHash block) (Height block) db1 = Inr db2"
    "same_entries db1 db2" "snapshot_is mh1 (BlockHash block) (Height block) db2" .
  have "index_inv db2 (spec_block idx block M) mh1 (BlockHash block) (Height block)"
    using rep1 p index_rep_same_entries by (auto simp: index_inv_def)
  moreover have "ConnectBlock idx block stxos db = Inr (idx\<lparr>idx_curTipHeight := Height block\<rparr>, db2)"
    using en acc dig com f p(1) dig1 by (simp add: ConnectBlock_def)
  ultimately show ?thesis using cop1 by blast
qed

section \<open>DisconnectBlock undoes ConnectBlock\<close>

text \<open>
  The spend journal agrees with the index: for the inputs of a transaction, taken at its offset, an
  entry created at a tracked height is the entry the index holds, and one created below it is not in
  the index.
\<close>

definition journal_entry :: "ExpiryIndex \<Rightarrow> SpentTxOut \<Rightarrow> (u64 \<times> int64) option" where
  "journal_entry idx st =
     (if shouldIndexCreateHeight idx (st_Height st)
      then Some (CalculateExpiryKey (idx_expiryParams idx) (st_Height st), st_Amount st)
      else None)"

definition spends_ok :: "ExpiryIndex \<Rightarrow> SpentTxOut list \<Rightarrow> nat \<Rightarrow> MsgTx \<Rightarrow> idx_map \<Rightarrow> bool" where
  "spends_ok idx stxos off tx M \<longleftrightarrow> distinct (map PreviousOutPoint (TxIn tx))
     \<and> off + length (TxIn tx) \<le> length stxos
     \<and> list_all (\<lambda>(i, ti). M (PreviousOutPoint ti) = journal_entry idx (stxos ! (off + i)))
         (enumerate 0 (TxIn tx))"

definition undo_ok :: "ExpiryIndex \<Rightarrow> int32 \<Rightarrow> SpentTxOut list \<Rightarrow> nat \<times> nat \<times> MsgTx \<Rightarrow> idx_map \<Rightarrow> bool" where
  "undo_ok idx height stxos = (\<lambda>(i, off, tx) M. tx_ok idx height tx M
     \<and> (IsCoinBaseTx tx \<longleftrightarrow> i = 0) \<and> (i \<noteq> 0 \<longrightarrow> spends_ok idx stxos off tx M))"

definition numbered_txs :: "Block \<Rightarrow> (nat \<times> nat \<times> MsgTx) list" where
  "numbered_txs block = enumerate 0 (zip (stxoOffsets 0 0 (Transactions block)) (Transactions block))"

definition journal_ok :: "ExpiryIndex \<Rightarrow> Block \<Rightarrow> SpentTxOut list \<Rightarrow> idx_map \<Rightarrow> bool" where
  "journal_ok idx block stxos M =
     fold_pre (undo_ok idx (Height block) stxos) (\<lambda>(_, _, tx). spec_tx idx (Height block) tx)
       (numbered_txs block) M"

lemma disconnectOutput_undoes:
  assumes "create_ok idx height tx x M" and "loop_rep meta s (spec_create idx height tx x M)"
  shows "\<exists>s'. disconnectOutput idx height (TxHash tx) x s = Inr s' \<and> loop_rep meta s' M"
proof -
  obtain mh db i txOut where s: "s = (mh, db)" and x: "x = (i, txOut)" by (cases s; cases x)
  let ?e = "CalculateExpiryKey (idx_expiryParams idx) height" and ?op = "out_op tx i"
  show ?thesis
  proof (cases "tracked idx height txOut")
    case False
    then show ?thesis
      using assms by (auto simp: disconnectOutput_def spec_create_def s x tracked_def)
  next
    case True
    let ?N = "M(?op \<mapsto> (?e, Value txOut))"
    have "M ?op = None" using assms(1) True by (simp add: create_ok_def x)
    then have undo: "?N(?op := None) = M" by auto
    have rep: "index_rep db ?N" "represents mh (acc_mset ?N)" "bktExpiryMeta db = meta"
      using assms(2) True by (auto simp: loop_rep_def s x spec_create_def)
    obtain db' where d: "disconnectTxOut ?op db = Inr db'" "index_rep db' M"
      "bktExpiryMeta db' = bktExpiryMeta db"
      using disconnectTxOut_refines [OF rep(1), of ?op] undo by metis
    have "finite (dom ?N)" using rep(1) by (simp add: index_rep_def wf_idx_map_def)
    then have "represents (MuHash_Remove (computeEntryData ?op ?e) mh) (acc_mset M)"
      using rep(2) acc_mset_del [of ?N ?op ?e "Value txOut"] undo
      by (intro represents_Remove) simp
    with True d rep show ?thesis
      by (auto simp: disconnectOutput_def s x tracked_def Let_def out_op_def loop_rep_def)
  qed
qed

definition spec_restore :: "ExpiryIndex \<Rightarrow> SpentTxOut list \<Rightarrow> nat \<Rightarrow> nat \<times> TxIn \<Rightarrow> idx_map \<Rightarrow> idx_map" where
  "spec_restore idx stxos off = (\<lambda>(i, ti) M.
     case journal_entry idx (stxos ! (off + i)) of
       None \<Rightarrow> M | Some v \<Rightarrow> M(PreviousOutPoint ti \<mapsto> v))"

definition restore_ok :: "ExpiryIndex \<Rightarrow> SpentTxOut list \<Rightarrow> nat \<Rightarrow> nat \<times> TxIn \<Rightarrow> idx_map \<Rightarrow> bool" where
  "restore_ok idx stxos off = (\<lambda>(i, ti) M. off + i < length stxos \<and>
     (case journal_entry idx (stxos ! (off + i)) of
        None \<Rightarrow> True | Some (e, a) \<Rightarrow> M (PreviousOutPoint ti) = None \<and> valid_amount a))"

lemma restoreInput_refines:
  assumes "loop_rep meta s M" and "restore_ok idx stxos off x M"
  shows "\<exists>s'. restoreInput idx stxos off x s = Inr s' \<and> loop_rep meta s' (spec_restore idx stxos off x M)"
proof -
  obtain mh db i ti where s: "s = (mh, db)" and x: "x = (i, ti)" by (cases s; cases x)
  let ?st = "stxos ! (off + i)" and ?op = "PreviousOutPoint ti"
  let ?e = "CalculateExpiryKey (idx_expiryParams idx) (st_Height ?st)"
  have len: "off + i < length stxos" using assms(2) by (simp add: restore_ok_def x)
  show ?thesis
  proof (cases "shouldIndexCreateHeight idx (st_Height ?st)")
    case False
    then show ?thesis
      using assms(1) len by (auto simp: restoreInput_def spec_restore_def s x journal_entry_def Let_def)
  next
    case True
    then have je: "journal_entry idx ?st = Some (?e, st_Amount ?st)" by (simp add: journal_entry_def)
    then have ok: "M ?op = None" "valid_amount (st_Amount ?st)"
      using assms(2) by (simp_all add: restore_ok_def x)
    have rep: "index_rep db M" "represents mh (acc_mset M)" "bktExpiryMeta db = meta"
      using assms(1) by (auto simp: loop_rep_def s)
    obtain db' where d: "putTxOutMapping ?op ?e (st_Amount ?st) db = Inr db'"
      "index_rep db' (M(?op \<mapsto> (?e, st_Amount ?st)))" "bktExpiryMeta db' = bktExpiryMeta db"
      by (rule putTxOutMapping_refines [OF rep(1), of ?op ?e "st_Amount ?st"]) (use ok in auto)
    have "represents (MuHash_Add (computeEntryData ?op ?e) mh) (acc_mset (M(?op \<mapsto> (?e, st_Amount ?st))))"
      using represents_Add [OF rep(2)] acc_mset_upd [OF loop_rep_finite [OF assms(1)] ok(1)] by simp
    with True len je d rep show ?thesis
      by (auto simp: restoreInput_def spec_restore_def s x connectTxOut_def Let_def loop_rep_def)
  qed
qed

lemma fold_spec_spend: "fold spec_spend tis M = M |` (- set (map PreviousOutPoint tis))"
  by (induction tis arbitrary: M) (auto simp: spec_spend_def restrict_map_def fun_eq_iff)

text \<open>Restoring the inputs in forward order brings the map back.\<close>

lemma fold_spec_restore:
  assumes "distinct (map PreviousOutPoint tis)" and "off + k + length tis \<le> length stxos"
    and "list_all (\<lambda>(i, ti). M (PreviousOutPoint ti) = journal_entry idx (stxos ! (off + i))) (enumerate k tis)"
    and "wf_idx_map M"
  shows "fold (spec_restore idx stxos off) (enumerate k tis) (M |` (- set (map PreviousOutPoint tis))) = M
    \<and> fold_pre (restore_ok idx stxos off) (spec_restore idx stxos off) (enumerate k tis)
        (M |` (- set (map PreviousOutPoint tis)))"
  using assms
proof (induction tis arbitrary: k)
  case (Cons ti tis)
  let ?op = "PreviousOutPoint ti" and ?D = "set (map PreviousOutPoint tis)"
  have je: "M ?op = journal_entry idx (stxos ! (off + k))" and notin: "?op \<notin> ?D"
    using Cons.prems by auto
  have step: "spec_restore idx stxos off (k, ti) (M |` (- insert ?op ?D)) = M |` (- ?D)"
    using je notin by (auto simp: spec_restore_def restrict_map_def fun_eq_iff split: option.splits)
  have "restore_ok idx stxos off (k, ti) (M |` (- insert ?op ?D))"
    using je Cons.prems(2,4) by (auto simp: restore_ok_def wf_idx_map_def split: option.splits)
  moreover have "fold (spec_restore idx stxos off) (enumerate (Suc k) tis) (M |` (- ?D)) = M
    \<and> fold_pre (restore_ok idx stxos off) (spec_restore idx stxos off) (enumerate (Suc k) tis) (M |` (- ?D))"
    using Cons.IH [of "Suc k"] Cons.prems by simp
  ultimately show ?case using step by simp
qed (simp add: restrict_map_def)

lemma disconnectTx_undoes:
  assumes ok: "undo_ok idx height stxos x M" and rep: "loop_rep meta s (spec_tx idx height (snd (snd x)) M)"
    and wf: "wf_idx_map M"
  shows "\<exists>s'. disconnectTx idx height stxos x s = Inr s' \<and> loop_rep meta s' M"
proof -
  obtain i off tx where x: "x = (i, off, tx)" by (cases x)
  have "\<exists>s1. fold_r (disconnectOutput idx height (TxHash tx)) (rev (enumerate 0 (TxOut tx))) s = Inr s1
      \<and> loop_rep meta s1 (spec_spends tx M)"
  proof (rule fold_r_undo [where P = "create_ok idx height tx"])
    show "fold_pre (create_ok idx height tx) (spec_create idx height tx) (enumerate 0 (TxOut tx))
        (spec_spends tx M)"
      using ok by (simp add: undo_ok_def x tx_ok_def)
    show "loop_rep meta s (fold (spec_create idx height tx) (enumerate 0 (TxOut tx)) (spec_spends tx M))"
      using rep by (simp add: x spec_tx_def)
  qed (rule disconnectOutput_undoes)
  then obtain s1 where s1: "fold_r (disconnectOutput idx height (TxHash tx))
      (rev (enumerate 0 (TxOut tx))) s = Inr s1" "loop_rep meta s1 (spec_spends tx M)" by blast
  show ?thesis
  proof (cases "i = 0")
    case True
    then show ?thesis
      using s1 ok by (simp add: disconnectTx_def x undo_ok_def spec_spends_def)
  next
    case False
    let ?N = "M |` (- set (map PreviousOutPoint (TxIn tx)))"
    have sp: "spends_ok idx stxos off tx M" and ncb: "\<not> IsCoinBaseTx tx"
      using ok False by (auto simp: undo_ok_def x)
    have f: "fold (spec_restore idx stxos off) (enumerate 0 (TxIn tx)) ?N = M"
      "fold_pre (restore_ok idx stxos off) (spec_restore idx stxos off) (enumerate 0 (TxIn tx)) ?N"
      using fold_spec_restore [of "TxIn tx" off 0 stxos M idx] sp wf by (auto simp: spends_ok_def)
    have "loop_rep meta s1 ?N" using s1(2) ncb by (simp add: spec_spends_def fold_spec_spend)
    from fold_r_refines [where R = "loop_rep meta" and f = "restoreInput idx stxos off",
        OF restoreInput_refines f(2) this]
    show ?thesis using s1(1) False f(1) by (auto simp: disconnectTx_def x)
  qed
qed

lemma wf_spec_tx:
  assumes "wf_idx_map M" and "tx_ok idx height tx M"
  shows "wf_idx_map (spec_tx idx height tx M)"
proof -
  have "wf_idx_map (spec_spends tx M)"
    using assms(1) by (auto simp: spec_spends_def fold_spec_spend wf_idx_map_def restrict_map_def
        dom_def split: if_splits elim: rev_finite_subset)
  moreover have "wf_idx_map (fold (spec_create idx height tx) xs N)"
    if "wf_idx_map N" "fold_pre (create_ok idx height tx) (spec_create idx height tx) xs N" for xs N
    using that
  proof (induction xs arbitrary: N)
    case (Cons x xs)
    have "wf_idx_map (spec_create idx height tx x N)"
      using Cons.prems by (cases x) (auto simp: spec_create_def create_ok_def wf_idx_map_upd)
    then show ?case using Cons by simp
  qed simp
  ultimately show ?thesis using assms(2) by (simp add: tx_ok_def spec_tx_def)
qed

lemma numbered_txs_snd:
  "length offs = length txs \<Longrightarrow>
     fold (\<lambda>(_, _, tx). f tx) (enumerate k (zip offs txs)) M = fold f txs M"
  by (induction offs txs arbitrary: k M rule: list_induct2) auto

lemma length_stxoOffsets [simp]: "length (stxoOffsets off i txs) = length txs"
  by (induction off i txs rule: stxoOffsets.induct) auto

lemma fold_numbered_txs:
  "fold (\<lambda>(_, _, tx). spec_tx idx height tx) (numbered_txs block) M =
     fold (spec_tx idx height) (Transactions block) M"
  unfolding numbered_txs_def by (rule numbered_txs_snd) simp

text \<open>A journal that agrees with the index includes what connecting the block needs.\<close>

lemma fold_pre_numbered:
  "length offs = length txs \<Longrightarrow>
     fold_pre (\<lambda>(_, _, tx). P tx) (\<lambda>(_, _, tx). g tx) (enumerate k (zip offs txs)) M
       = fold_pre P g txs M"
  by (induction offs txs arbitrary: k M rule: list_induct2) auto

lemma fold_pre_mono:
  "fold_pre P g xs a \<Longrightarrow> (\<And>x a. P x a \<Longrightarrow> Q x a) \<Longrightarrow> fold_pre Q g xs a"
  by (induction xs arbitrary: a) auto

lemma journal_ok_block_ok: "journal_ok idx block stxos M \<Longrightarrow> block_ok idx block M"
proof -
  assume "journal_ok idx block stxos M"
  then have "fold_pre (\<lambda>(_, _, tx). tx_ok idx (Height block) tx)
      (\<lambda>(_, _, tx). spec_tx idx (Height block) tx) (numbered_txs block) M"
    unfolding journal_ok_def by (rule fold_pre_mono) (auto simp: undo_ok_def)
  then show ?thesis by (simp add: numbered_txs_def fold_pre_numbered block_ok_def)
qed

lemma fold_pre_invariant:
  "fold_pre P g xs a \<Longrightarrow> I a \<Longrightarrow> (\<And>x a. P x a \<Longrightarrow> I a \<Longrightarrow> I (g x a)) \<Longrightarrow>
     fold_pre (\<lambda>x a. P x a \<and> I a) g xs a"
  by (induction xs arbitrary: a) auto

text \<open>The operations read the index only for its parameters.\<close>

lemma disconnectTx_cong:
  assumes "idx_expiryParams idx' = idx_expiryParams idx"
  shows "disconnectTx idx' = disconnectTx idx"
proof -
  have a: "shouldIndexCreateHeight idx' = shouldIndexCreateHeight idx"
    by (rule ext) (simp add: shouldIndexCreateHeight_def assms)
  have b: "connectTxOut idx' = connectTxOut idx"
    by (intro ext) (simp only: connectTxOut_def a assms)
  have c: "disconnectOutput idx' = disconnectOutput idx"
    by (intro ext) (simp only: disconnectOutput_def a assms)
  have d: "restoreInput idx' = restoreInput idx"
    by (intro ext) (simp only: restoreInput_def a b assms)
  show ?thesis by (intro ext) (simp only: disconnectTx_def c d)
qed

lemma DisconnectBlock_refines:
  assumes inv: "index_inv db (spec_block idx block M) mh tipHash tip"
    and same: "idx_expiryParams idx' = idx_expiryParams idx"
    and en: "\<not> idx_disabled idx'" "IsIndexingEnabled (idx_expiryParams idx) (Height block)"
    and j: "journal_ok idx block stxos M" and wf: "wf_idx_map M"
  shows "\<exists>db' mh'. DisconnectBlock idx' block stxos db =
      Inr (idx'\<lparr>idx_curTipHeight := wrap32 (Height block - 1)\<rparr>, db')
    \<and> index_inv db' M mh' (PrevBlock (Header block)) (wrap32 (Height block - 1))"
proof -
  let ?h = "Height block" and ?g = "\<lambda>(_, _, tx). spec_tx idx (Height block) tx"
  have same': "disconnectTx idx' = disconnectTx idx" by (rule disconnectTx_cong [OF same])
  have rep: "index_rep db (spec_block idx block M)" "represents mh (acc_mset (spec_block idx block M))"
    and sn: "snapshot_is mh tipHash tip db"
    using inv by (auto simp: index_inv_def)
  have acc: "dbGetAccumulatorState db = Inr mh" and meta: "has_meta db"
    using sn by (auto simp: snapshot_is_def)
  have pre: "fold_pre (\<lambda>x M. undo_ok idx ?h stxos x M \<and> wf_idx_map M) ?g (numbered_txs block) M"
    by (rule fold_pre_invariant [where I = wf_idx_map and P = "undo_ok idx ?h stxos"])
      (use j wf in \<open>auto simp: journal_ok_def undo_ok_def wf_spec_tx\<close>)
  have "\<exists>s. fold_r (disconnectTx idx ?h stxos) (rev (numbered_txs block)) (mh, db) = Inr s
      \<and> loop_rep (bktExpiryMeta db) s M"
  proof (rule fold_r_undo [where P = "\<lambda>x M. undo_ok idx ?h stxos x M \<and> wf_idx_map M" and g = ?g])
    show "fold_pre (\<lambda>x M. undo_ok idx ?h stxos x M \<and> wf_idx_map M) ?g (numbered_txs block) M"
      by (rule pre)
    show "loop_rep (bktExpiryMeta db) (mh, db) (fold ?g (numbered_txs block) M)"
      using rep by (simp add: loop_rep_def fold_numbered_txs spec_block_def)
    fix x s N
    assume "undo_ok idx ?h stxos x N \<and> wf_idx_map N" "loop_rep (bktExpiryMeta db) s (?g x N)"
    then show "\<exists>s'. disconnectTx idx ?h stxos x s = Inr s' \<and> loop_rep (bktExpiryMeta db) s' N"
      by (intro disconnectTx_undoes) (auto simp: case_prod_beta)
  qed
  then obtain mh1 db1 where f:
    "fold_r (disconnectTx idx ?h stxos) (rev (numbered_txs block)) (mh, db) = Inr (mh1, db1)"
    and r: "index_rep db1 M" "represents mh1 (acc_mset M)" "bktExpiryMeta db1 = bktExpiryMeta db"
    by (auto simp: loop_rep_def)
  have wf1: "wf_muhash mh1" using r(2) by (simp add: represents_def)
  have "has_meta db1" using meta has_meta_cong [OF r(3)] by simp
  from putSnapshot_ok [OF this wf1 is_int32_wrap32, of "PrevBlock (Header block)" "?h - 1"]
  obtain db2 where p: "putSnapshot mh1 (PrevBlock (Header block)) (wrap32 (?h - 1)) db1 = Inr db2"
    "same_entries db1 db2" "snapshot_is mh1 (PrevBlock (Header block)) (wrap32 (?h - 1)) db2" .
  have "DisconnectBlock idx' block stxos db = Inr (idx'\<lparr>idx_curTipHeight := wrap32 (?h - 1)\<rparr>, db2)"
    using en same acc f p(1) by (simp add: DisconnectBlock_def Let_def same' numbered_txs_def)
  moreover have "index_inv db2 M mh1 (PrevBlock (Header block)) (wrap32 (?h - 1))"
    using r p index_rep_same_entries by (auto simp: index_inv_def)
  ultimately show ?thesis by blast
qed

end
