(* ===== verification/Rule_Error.thy ===== *)
theory Rule_Error
  imports Expiry_Encode
begin

text \<open>
  The errors of the block and transaction rules: the codes of \<open>blockchain/error.go\<close> in the order of
  the source, without the description a \<open>RuleError\<close> carries; \<open>AssertError\<close> and \<open>DeploymentError\<close>; a Go run-time panic
  (an index out of range); an error value of the REAP prefix source, passed on as it is.
\<close>

datatype rule_error =
    ErrDuplicateBlock
  | ErrBlockTooBig
  | ErrBlockWeightTooHigh
  | ErrBlockVersionTooOld
  | ErrInvalidTime
  | ErrTimeTooOld
  | ErrTimeTooNew
  | ErrDifficultyTooLow
  | ErrUnexpectedDifficulty
  | ErrHighHash
  | ErrBadMerkleRoot
  | ErrBadCheckpoint
  | ErrForkTooOld
  | ErrCheckpointTimeTooOld
  | ErrNoTransactions
  | ErrNoTxInputs
  | ErrNoTxOutputs
  | ErrTxTooBig
  | ErrBadTxOutValue
  | ErrDuplicateTxInputs
  | ErrBadTxInput
  | ErrMissingTxOut
  | ErrUnfinalizedTx
  | ErrDuplicateTx
  | ErrOverwriteTx
  | ErrImmatureSpend
  | ErrSpendTooHigh
  | ErrBadFees
  | ErrTooManySigOps
  | ErrFirstTxNotCoinbase
  | ErrMultipleCoinbases
  | ErrBadCoinbaseScriptLen
  | ErrBadCoinbaseValue
  | ErrMissingCoinbaseHeight
  | ErrBadCoinbaseHeight
  | ErrScriptMalformed
  | ErrScriptValidation
  | ErrUnexpectedWitness
  | ErrInvalidWitnessCommitment
  | ErrWitnessCommitmentMismatch
  | ErrPreviousBlockUnknown
  | ErrInvalidAncestorBlock
  | ErrPrevBlockNotBest
  | ErrTimewarpAttack
  | ErrBadExpiryCommitmentMissing
  | ErrBadExpiryCommitmentDuplicate
  | ErrBadExpiryCommitmentFormat
  | ErrBadExpiryCommitmentMismatch
  | ErrMultipleReapTx
  | ErrBadReapPrefix
  | ErrAssert
  | ErrDeployment nat
  | ErrIndexOutOfRange
  | ErrSource index_error

end
