(* ===== verification/Utxo_View.thy ===== *)
theory Utxo_View
  imports Expiry_Refine Rule_Error
begin

text \<open>
  The UTXO view of \<open>blockchain/utxoviewpoint.go\<close>: entries with packed flags, spending and adding
  outputs, and connecting and disconnecting the transactions of a block with the spend journal.

  A \<open>nil\<close> entry of the map is a missing one.  The last section relates the view to the expiry index:
  connecting a transaction in the view is what the specification of the index does to the map of
  tracked outputs, and the spend journal it writes is the one the index needs.
\<close>

unbundle bit_operations_syntax

section \<open>Entries\<close>

definition tfCoinBase :: byte where "tfCoinBase = 1"
definition tfSpent :: byte where "tfSpent = 2"
definition tfModified :: byte where "tfModified = 4"
definition tfFresh :: byte where "tfFresh = 8"

lemmas tf_defs = tfCoinBase_def tfSpent_def tfModified_def tfFresh_def

record UtxoEntry =
  amount :: int64
  pkScript :: bytes
  blockHeight :: int32
  packedFlags :: byte

definition isModified :: "UtxoEntry \<Rightarrow> bool" where
  "isModified entry \<longleftrightarrow> packedFlags entry AND tfModified = tfModified"

definition isFresh :: "UtxoEntry \<Rightarrow> bool" where
  "isFresh entry \<longleftrightarrow> packedFlags entry AND tfFresh = tfFresh"

definition IsCoinBase :: "UtxoEntry \<Rightarrow> bool" where
  "IsCoinBase entry \<longleftrightarrow> packedFlags entry AND tfCoinBase = tfCoinBase"

definition IsSpent :: "UtxoEntry \<Rightarrow> bool" where
  "IsSpent entry \<longleftrightarrow> packedFlags entry AND tfSpent = tfSpent"

definition Spend :: "UtxoEntry \<Rightarrow> UtxoEntry" where
  "Spend entry =
     (if IsSpent entry then entry
      else entry\<lparr>packedFlags := packedFlags entry OR (tfSpent OR tfModified)\<rparr>)"

definition NewUtxoEntry :: "TxOut \<Rightarrow> int32 \<Rightarrow> bool \<Rightarrow> UtxoEntry" where
  "NewUtxoEntry txOut height isCoinbase =
     \<lparr>amount = Value txOut, pkScript = PkScript txOut, blockHeight = height,
      packedFlags = (if isCoinbase then tfCoinBase else 0)\<rparr>"

section \<open>The view\<close>

record UtxoViewpoint =
  entries :: "OutPoint \<rightharpoonup> UtxoEntry"
  bestHash :: hash

definition LookupEntry :: "UtxoViewpoint \<Rightarrow> OutPoint \<Rightarrow> UtxoEntry option" where
  "LookupEntry view outpoint = entries view outpoint"

definition FetchPrevOutput :: "UtxoViewpoint \<Rightarrow> OutPoint \<Rightarrow> TxOut option" where
  "FetchPrevOutput view op =
     map_option (\<lambda>e. \<lparr>Value = amount e, PkScript = pkScript e\<rparr>) (entries view op)"

definition addTxOut :: "OutPoint \<Rightarrow> TxOut \<Rightarrow> bool \<Rightarrow> int32 \<Rightarrow> UtxoViewpoint \<Rightarrow> UtxoViewpoint" where
  "addTxOut outpoint txOut isCoinBase height view =
     (if IsUnspendable (PkScript txOut) then view
      else view\<lparr>entries := (entries view)(outpoint \<mapsto>
        \<lparr>amount = Value txOut, pkScript = PkScript txOut, blockHeight = height,
         packedFlags = (tfFresh OR tfModified) OR (if isCoinBase then tfCoinBase else 0)\<rparr>)\<rparr>)"

definition View_AddTxOut :: "MsgTx \<Rightarrow> u32 \<Rightarrow> int32 \<Rightarrow> UtxoViewpoint \<Rightarrow> UtxoViewpoint" where
  "View_AddTxOut tx txOutIdx height view =
     (if txOutIdx \<ge> of_nat (length (TxOut tx)) then view
      else addTxOut \<lparr>Hash = TxHash tx, Index = txOutIdx\<rparr> (TxOut tx ! unat txOutIdx)
             (IsCoinBaseTx tx) height view)"

definition AddTxOuts :: "MsgTx \<Rightarrow> int32 \<Rightarrow> UtxoViewpoint \<Rightarrow> UtxoViewpoint" where
  "AddTxOuts tx height view =
     fold (\<lambda>(txOutIdx, txOut).
             addTxOut \<lparr>Hash = TxHash tx, Index = of_nat txOutIdx\<rparr> txOut (IsCoinBaseTx tx) height)
       (enumerate 0 (TxOut tx)) view"

definition RemoveEntry :: "OutPoint \<Rightarrow> UtxoViewpoint \<Rightarrow> UtxoViewpoint" where
  "RemoveEntry outpoint view = view\<lparr>entries := (entries view)(outpoint := None)\<rparr>"

definition commit :: "UtxoViewpoint \<Rightarrow> UtxoViewpoint" where
  "commit view = view\<lparr>entries := (\<lambda>op. case entries view op of
       None \<Rightarrow> None
     | Some e \<Rightarrow> if isModified e \<and> IsSpent e then None
                 else Some (e\<lparr>packedFlags := packedFlags e XOR tfModified\<rparr>))\<rparr>"

section \<open>Connecting transactions\<close>

definition stxo_of :: "UtxoEntry \<Rightarrow> SpentTxOut" where
  "stxo_of entry = \<lparr>st_Amount = amount entry, st_PkScript = pkScript entry,
     st_Height = blockHeight entry, st_IsCoinBase = IsCoinBase entry\<rparr>"

definition spendInput :: "TxIn \<Rightarrow> UtxoViewpoint \<times> SpentTxOut list \<Rightarrow>
    rule_error + (UtxoViewpoint \<times> SpentTxOut list)" where
  "spendInput txIn = (\<lambda>(view, stxos).
     case entries view (PreviousOutPoint txIn) of
       None \<Rightarrow> Inl ErrAssert
     | Some entry \<Rightarrow>
         Inr (view\<lparr>entries := (entries view)(PreviousOutPoint txIn \<mapsto> Spend entry)\<rparr>,
              stxos @ [stxo_of entry]))"

definition connectTransaction :: "MsgTx \<Rightarrow> int32 \<Rightarrow> UtxoViewpoint \<times> SpentTxOut list \<Rightarrow>
    rule_error + (UtxoViewpoint \<times> SpentTxOut list)" where
  "connectTransaction tx height = (\<lambda>(view, stxos).
     if IsCoinBaseTx tx then Inr (AddTxOuts tx height view, stxos)
     else bind_r (fold_r spendInput (TxIn tx) (view, stxos)) (\<lambda>(view, stxos).
            Inr (AddTxOuts tx height view, stxos)))"

definition connectTransactions :: "Block \<Rightarrow> UtxoViewpoint \<times> SpentTxOut list \<Rightarrow>
    rule_error + (UtxoViewpoint \<times> SpentTxOut list)" where
  "connectTransactions block s =
     bind_r (fold_r (\<lambda>tx. connectTransaction tx (Height block)) (Transactions block) s) (\<lambda>(view, stxos).
     Inr (view\<lparr>bestHash := BlockHash block\<rparr>, stxos))"

section \<open>Flags\<close>

lemma IsSpent_Spend [simp]: "IsSpent (Spend e)"
proof (cases "IsSpent e")
  case False
  have "(x OR (tfSpent OR tfModified)) AND tfSpent = tfSpent" for x :: byte
    by (simp add: tf_defs bit.conj_disj_distrib2 or.commute)
  with False show ?thesis by (simp add: Spend_def IsSpent_def)
qed (simp add: Spend_def)

lemma Spend_fields [simp]:
  "amount (Spend e) = amount e" "pkScript (Spend e) = pkScript e" "blockHeight (Spend e) = blockHeight e"
  by (simp_all add: Spend_def)

lemma fresh_not_spent [simp]:
  "\<not> IsSpent \<lparr>amount = v, pkScript = s, blockHeight = h,
     packedFlags = (tfFresh OR tfModified) OR tfCoinBase\<rparr>"
  "\<not> IsSpent \<lparr>amount = v, pkScript = s, blockHeight = h, packedFlags = tfFresh OR tfModified\<rparr>"
  by (simp_all add: IsSpent_def tf_defs)

section \<open>The view and the expiry index\<close>

text \<open>The tracked unspent outputs of a view, as the map an index keeps.\<close>

definition view_map :: "ExpiryIndex \<Rightarrow> UtxoViewpoint \<Rightarrow> idx_map" where
  "view_map idx view op = (case entries view op of
     None \<Rightarrow> None
   | Some e \<Rightarrow> if \<not> IsSpent e \<and> shouldIndexCreateHeight idx (blockHeight e)
               then Some (CalculateExpiryKey (idx_expiryParams idx) (blockHeight e), amount e) else None)"

lemma view_map_spend:
  assumes "spendInput ti (view, stxos) = Inr (view', stxos')"
  shows "view_map idx view' = spec_spend ti (view_map idx view)"
proof
  fix op
  obtain e where "entries view (PreviousOutPoint ti) = Some e"
    and "view' = view\<lparr>entries := (entries view)(PreviousOutPoint ti \<mapsto> Spend e)\<rparr>"
    using assms by (auto simp: spendInput_def split: option.splits)
  then show "view_map idx view' op = spec_spend ti (view_map idx view) op"
    by (cases "op = PreviousOutPoint ti") (simp_all add: view_map_def spec_spend_def)
qed

lemma view_map_addTxOut:
  assumes "shouldIndexCreateHeight idx h"
  shows "view_map idx (addTxOut (out_op tx i) txOut cb h view) =
    spec_create idx h tx (i, txOut) (view_map idx view)"
  using assms
  by (auto simp: addTxOut_def view_map_def spec_create_def tracked_def fun_eq_iff)

lemma view_map_AddTxOuts:
  assumes "shouldIndexCreateHeight idx h"
  shows "view_map idx (AddTxOuts tx h view) =
    fold (spec_create idx h tx) (enumerate 0 (TxOut tx)) (view_map idx view)"
proof -
  have "view_map idx (fold (\<lambda>(i, txOut). addTxOut \<lparr>Hash = TxHash tx, Index = of_nat i\<rparr> txOut
        (IsCoinBaseTx tx) h) xs v) = fold (spec_create idx h tx) xs (view_map idx v)" for xs v
    by (induction xs arbitrary: v)
      (auto simp: view_map_addTxOut [OF assms, unfolded out_op_def])
  then show ?thesis by (simp add: AddTxOuts_def)
qed

lemma view_map_spends:
  assumes "fold_r spendInput tis (view, stxos) = Inr (view', stxos')"
  shows "view_map idx view' = fold spec_spend tis (view_map idx view)"
  using assms
proof (induction tis arbitrary: view stxos)
  case (Cons ti tis)
  then show ?case by (auto simp: bind_r_eq_Inr dest!: view_map_spend [of ti _ _ _ _ idx])
qed simp

lemma connectTransaction_view_map:
  assumes "shouldIndexCreateHeight idx h"
    and "connectTransaction tx h (view, stxos) = Inr (view', stxos')"
  shows "view_map idx view' = spec_tx idx h tx (view_map idx view)"
proof (cases "IsCoinBaseTx tx")
  case True
  then show ?thesis
    using assms by (auto simp: connectTransaction_def spec_tx_def spec_spends_def view_map_AddTxOuts)
next
  case False
  then obtain v1 where "fold_r spendInput (TxIn tx) (view, stxos) = Inr (v1, stxos')"
    and "view' = AddTxOuts tx h v1"
    using assms(2) by (auto simp: connectTransaction_def bind_r_eq_Inr)
  then show ?thesis
    using view_map_spends [of "TxIn tx" view stxos v1 stxos' idx] False
    by (simp add: view_map_AddTxOuts [OF assms(1)] spec_tx_def spec_spends_def)
qed

lemma connectTxs_view_map:
  assumes "shouldIndexCreateHeight idx h"
    and "fold_r (\<lambda>tx. connectTransaction tx h) txs (view, stxos) = Inr (view', stxos')"
  shows "view_map idx view' = fold (spec_tx idx h) txs (view_map idx view)"
  using assms(2)
proof (induction txs arbitrary: view stxos)
  case (Cons tx txs)
  then obtain v1 s1 where "connectTransaction tx h (view, stxos) = Inr (v1, s1)"
    and "fold_r (\<lambda>tx. connectTransaction tx h) txs (v1, s1) = Inr (view', stxos')"
    by (auto simp: bind_r_eq_Inr)
  then show ?case using connectTransaction_view_map [OF assms(1)] Cons.IH by auto
qed simp

theorem connectTransactions_view_map:
  assumes "shouldIndexCreateHeight idx (Height block)"
    and "connectTransactions block (view, stxos) = Inr (view', stxos')"
  shows "view_map idx view' = spec_block idx block (view_map idx view)"
proof -
  obtain v1 where "fold_r (\<lambda>tx. connectTransaction tx (Height block)) (Transactions block) (view, stxos)
      = Inr (v1, stxos')" and v: "view' = v1\<lparr>bestHash := BlockHash block\<rparr>"
    using assms(2) by (auto simp: connectTransactions_def bind_r_eq_Inr)
  from connectTxs_view_map [OF assms(1) this(1)] show ?thesis
    by (simp add: v spec_block_def view_map_def fun_eq_iff)
qed

section \<open>The spend journal is the one the index needs\<close>

text \<open>
  What the input checks establish before a transaction is connected: its inputs are distinct and
  unspent in the view.
\<close>

definition live_inputs :: "MsgTx \<Rightarrow> UtxoViewpoint \<Rightarrow> bool" where
  "live_inputs tx view \<longleftrightarrow> distinct (map PreviousOutPoint (TxIn tx))
     \<and> list_all (\<lambda>ti. case entries view (PreviousOutPoint ti) of
          None \<Rightarrow> False | Some e \<Rightarrow> \<not> IsSpent e) (TxIn tx)"

fun live_txs :: "int32 \<Rightarrow> MsgTx list \<Rightarrow> UtxoViewpoint \<times> SpentTxOut list \<Rightarrow> bool" where
  "live_txs h [] s = True"
| "live_txs h (tx # txs) s =
     ((\<not> IsCoinBaseTx tx \<longrightarrow> live_inputs tx (fst s)) \<and>
      (case connectTransaction tx h s of Inl _ \<Rightarrow> True | Inr s' \<Rightarrow> live_txs h txs s'))"

lemma spendInputs_stxos:
  assumes "distinct (map PreviousOutPoint tis)"
    and "fold_r spendInput tis (view, stxos) = Inr (view', stxos')"
  shows "stxos' = stxos @ map (\<lambda>ti. stxo_of (the (entries view (PreviousOutPoint ti)))) tis"
  using assms
proof (induction tis arbitrary: view stxos)
  case (Cons ti tis)
  let ?op = "PreviousOutPoint ti"
  obtain e where e: "entries view ?op = Some e"
    and f: "fold_r spendInput tis (view\<lparr>entries := (entries view)(?op \<mapsto> Spend e)\<rparr>, stxos @ [stxo_of e])
      = Inr (view', stxos')"
  proof -
    obtain v s where s: "spendInput ti (view, stxos) = Inr (v, s)" "fold_r spendInput tis (v, s) = Inr (view', stxos')"
      using Cons.prems(2) by (auto simp: bind_r_eq_Inr)
    then show thesis using that by (auto simp: spendInput_def [of ti] split: option.splits)
  qed
  have "map (\<lambda>ti. stxo_of (the (entries (view\<lparr>entries := (entries view)(?op \<mapsto> Spend e)\<rparr>)
      (PreviousOutPoint ti)))) tis = map (\<lambda>ti. stxo_of (the (entries view (PreviousOutPoint ti)))) tis"
    using Cons.prems(1) by (intro map_cong) (auto simp: image_iff)
  then show ?case using Cons.IH [OF _ f] Cons.prems(1) e by simp
qed simp

lemma spends_ok_connect:
  assumes live: "live_inputs tx view" and ncb: "\<not> IsCoinBaseTx tx"
    and c: "connectTransaction tx h (view, st) = Inr (v1, st1)"
    and pre: "st2 = st1 @ rest"
  shows "spends_ok idx st2 (length st) tx (view_map idx view) \<and> length st1 = length st + length (TxIn tx)"
proof -
  obtain v where f: "fold_r spendInput (TxIn tx) (view, st) = Inr (v, st1)"
    using c ncb by (auto simp: connectTransaction_def bind_r_eq_Inr)
  have st1: "st1 = st @ map (\<lambda>ti. stxo_of (the (entries view (PreviousOutPoint ti)))) (TxIn tx)"
    using spendInputs_stxos [OF _ f] live by (simp add: live_inputs_def)
  have "view_map idx view (PreviousOutPoint ti) = journal_entry idx (st2 ! (length st + i))"
    if i: "(i, ti) \<in> set (enumerate 0 (TxIn tx))" for i ti
  proof -
    have ti: "i < length (TxIn tx)" "ti = TxIn tx ! i" using i by (auto simp: in_set_enumerate_eq)
    then have "st2 ! (length st + i) = stxo_of (the (entries view (PreviousOutPoint ti)))"
      by (simp add: pre st1 nth_append)
    moreover obtain e where "entries view (PreviousOutPoint ti) = Some e" "\<not> IsSpent e"
    proof -
      have "ti \<in> set (TxIn tx)" using ti by simp
      then show thesis
        using live that by (cases "entries view (PreviousOutPoint ti)")
          (auto simp: live_inputs_def list_all_iff)
    qed
    ultimately show ?thesis by (simp add: view_map_def journal_entry_def stxo_of_def)
  qed
  then show ?thesis
    using live by (auto simp: spends_ok_def live_inputs_def list_all_iff st1 pre)
qed

lemma journal_later_txs:
  assumes h: "shouldIndexCreateHeight idx h"
    and "fold_r (\<lambda>tx. connectTransaction tx h) txs (view, st) = Inr (view', st')"
    and "live_txs h txs (view, st)" and "\<forall>tx \<in> set txs. \<not> IsCoinBaseTx tx" and "i > 0"
    and "fold_pre (tx_ok idx h) (spec_tx idx h) txs (view_map idx view)"
  shows "(\<exists>more. st' = st @ more) \<and> (\<forall>rest.
     fold_pre (undo_ok idx h (st' @ rest)) (\<lambda>(_, _, tx). spec_tx idx h tx)
      (enumerate i (zip (stxoOffsets (length st) i txs) txs)) (view_map idx view))"
  using assms(2-)
proof (induction txs arbitrary: view st i)
  case (Cons tx txs)
  obtain v1 st1 where c: "connectTransaction tx h (view, st) = Inr (v1, st1)"
    and f: "fold_r (\<lambda>tx. connectTransaction tx h) txs (v1, st1) = Inr (view', st')"
    using Cons.prems(1) by (auto simp: bind_r_eq_Inr)
  have ncb: "\<not> IsCoinBaseTx tx" and live: "live_inputs tx view" using Cons.prems(2,3) by auto
  have vm: "view_map idx v1 = spec_tx idx h tx (view_map idx view)"
    by (rule connectTransaction_view_map [OF h c])
  have ok: "tx_ok idx h tx (view_map idx view)"
    "fold_pre (tx_ok idx h) (spec_tx idx h) txs (view_map idx v1)"
    using Cons.prems(5) by (simp_all add: vm)
  have sp: "spends_ok idx (st1 @ rest) (length st) tx (view_map idx view)"
    "length st1 = length st + length (TxIn tx)" for rest
    using spends_ok_connect [OF live ncb c refl] by auto
  have st1: "\<exists>m. st1 = st @ m"
  proof -
    obtain v where "fold_r spendInput (TxIn tx) (view, st) = Inr (v, st1)"
      using c ncb by (auto simp: connectTransaction_def bind_r_eq_Inr)
    from spendInputs_stxos [OF _ this] live show ?thesis by (auto simp: live_inputs_def)
  qed
  have IH: "\<exists>more. st' = st1 @ more" "\<And>rest. fold_pre (undo_ok idx h (st' @ rest))
      (\<lambda>(_, _, tx). spec_tx idx h tx)
      (enumerate (Suc i) (zip (stxoOffsets (length st1) (Suc i) txs) txs)) (view_map idx v1)"
    using Cons.IH [OF f, where i = "Suc i"] Cons.prems ok(2) c by auto
  then obtain more where more: "st' = st1 @ more" by auto
  have "undo_ok idx h (st' @ rest) (i, length st, tx) (view_map idx view)" for rest
    using ok(1) ncb sp(1) [of "more @ rest"] Cons.prems(4) more by (simp add: undo_ok_def)
  then show ?case
    using IH(2) more st1 sp(2) Cons.prems(4) by (auto simp: vm)
qed simp

theorem journal_ok_connectTransactions:
  assumes h: "shouldIndexCreateHeight idx (Height block)"
    and b: "Transactions block = cb # txs" "IsCoinBaseTx cb" "\<forall>tx \<in> set txs. \<not> IsCoinBaseTx tx"
    and c: "connectTransactions block (view, []) = Inr (view', stxos)"
    and live: "live_txs (Height block) (Transactions block) (view, [])"
    and ok: "block_ok idx block (view_map idx view)"
  shows "journal_ok idx block stxos (view_map idx view)"
proof -
  let ?h = "Height block"
  obtain v1 v2 where c1: "connectTransaction cb ?h (view, []) = Inr (v1, [])"
    and f: "fold_r (\<lambda>tx. connectTransaction tx ?h) txs (v1, []) = Inr (v2, stxos)"
    using c b(1,2) by (auto simp: connectTransactions_def bind_r_eq_Inr connectTransaction_def)
  have vm: "view_map idx v1 = spec_tx idx ?h cb (view_map idx view)"
    by (rule connectTransaction_view_map [OF h c1])
  have ok': "tx_ok idx ?h cb (view_map idx view)"
    "fold_pre (tx_ok idx ?h) (spec_tx idx ?h) txs (view_map idx v1)"
    using ok b(1) by (simp_all add: block_ok_def vm)
  have "live_txs ?h txs (v1, [])" using live b(1) c1 by simp
  then have "fold_pre (undo_ok idx ?h stxos) (\<lambda>(_, _, tx). spec_tx idx ?h tx)
      (enumerate 1 (zip (stxoOffsets 0 1 txs) txs)) (view_map idx v1)"
    using journal_later_txs [OF h f _ b(3) _ ok'(2), where i = 1] by (metis append_Nil2 list.size(3) zero_less_one)
  then show ?thesis
    using ok'(1) b by (simp add: journal_ok_def numbered_txs_def undo_ok_def vm)
qed

end
