(* ===== verification/Expiry_Queries.thy ===== *)
theory Expiry_Queries
  imports Expiry_Refine
begin

text \<open>
  What the queries of the expiry index return, in terms of the map the index represents: the
  canonical REAP prefix, the paged expiry scan, and the statistics.
\<close>

section \<open>The canonical REAP prefix\<close>

definition cand_key :: "ReapPrefixCandidate \<Rightarrow> reapInputOrderKey" where
  "cand_key c = \<lparr>ok_expiry = cand_ExpiryKey c, ok_amount = cand_Amount c, ok_op = cand_OutPoint c\<rparr>"

text \<open>The tracked outputs as candidates, and the expired ones of them.\<close>

definition candidates_of :: "idx_map \<Rightarrow> ReapPrefixCandidate set" where
  "candidates_of M = {c. M (cand_OutPoint c) = Some (cand_ExpiryKey c, cand_Amount c)}"

definition canonical_order :: "ReapPrefixCandidate list \<Rightarrow> bool" where
  "canonical_order cs \<longleftrightarrow> sorted_wrt (\<lambda>a b. compareReapInputOrderKey (cand_key a) (cand_key b) < 0) cs"

lemma cand_key_inject [simp]: "cand_key a = cand_key b \<longleftrightarrow> a = b"
  by (cases a; cases b) (auto simp: cand_key_def)

lemma canonical_order_map:
  "canonical_order cs \<longleftrightarrow>
     sorted_wrt (\<lambda>a b. compareReapInputOrderKey a b < 0) (map cand_key cs)"
  by (simp add: canonical_order_def sorted_wrt_map)

text \<open>A set of candidates with valid amounts has at most one canonical listing.\<close>

lemma canonical_order_unique:
  assumes "canonical_order xs" and "canonical_order ys" and "set xs = set ys"
    and "\<forall>c \<in> set xs. valid_amount (cand_Amount c)"
  shows "xs = ys"
proof -
  have "map cand_key xs = map cand_key ys"
  proof (rule reap_order.sorted_unique)
    show "\<forall>k \<in> set (map cand_key xs). valid_amount (ok_amount k)"
      using assms(4) by (auto simp: cand_key_def)
    show "set (map cand_key xs) = set (map cand_key ys)" using assms(3) by simp
  qed (use assms canonical_order_map in auto)
  then show ?thesis by (simp add: inj_map_eq_map inj_def)
qed

definition cand_of :: "bytes \<times> bytes \<Rightarrow> ReapPrefixCandidate" where
  "cand_of kv = (case decodeReapStrictCompositeKey (fst kv) of
     Inr (e, a, op) \<Rightarrow> \<lparr>cand_OutPoint = op, cand_ExpiryKey = e, cand_Amount = a\<rparr>
   | Inl _ \<Rightarrow> \<lparr>cand_OutPoint = \<lparr>Hash = 0, Index = 0\<rparr>, cand_ExpiryKey = 0, cand_Amount = 0\<rparr>)"

lemma reapPrefixLoop_eq:
  assumes "\<forall>kv \<in> set c. is_ok (decodeReapStrictCompositeKey (fst kv))" and "int (length res) < limit"
  shows "reapPrefixLoop toKey limit c res =
    Inr (res @ take (nat limit - length res)
      (takeWhile (\<lambda>x. cand_ExpiryKey x \<le> toKey) (map cand_of c)))"
  using assms
proof (induction c arbitrary: res)
  case (Cons kv c)
  obtain e a op where d: "decodeReapStrictCompositeKey (fst kv) = Inr (e, a, op)"
    using Cons.prems(1) by (force simp: is_ok_iff)
  have m: "nat limit - length res = Suc (nat limit - Suc (length res))" using Cons.prems(2) by linarith
  show ?case
  proof (cases "toKey < e")
    case True
    then show ?thesis by (simp add: d cand_of_def)
  next
    case False
    show ?thesis
    proof (cases "limit \<le> int (Suc (length res))")
      case True
      then have "nat limit - Suc (length res) = 0" by linarith
      then show ?thesis using True False m by (simp add: d cand_of_def)
    next
      case more: False
      then show ?thesis using False Cons m by (simp add: d cand_of_def)
    qed
  qed
qed simp

lemma takeWhile_eq_filter_sorted:
  assumes "sorted_wrt (\<lambda>a b. f a \<le> f b) xs"
  shows "takeWhile (\<lambda>x. f x \<le> (k :: 'a :: linorder)) xs = filter (\<lambda>x. f x \<le> k) xs"
  using assms
proof (induction xs)
  case (Cons x xs)
  show ?case
  proof (cases "f x \<le> k")
    case False
    then have "\<forall>y \<in> set xs. \<not> f y \<le> k" using Cons.prems by fastforce
    then show ?thesis using False by (simp add: filter_empty_conv)
  qed (use Cons in auto)
qed simp

lemma compareReap_expiry_mono: "compareReapInputOrderKey a b < 0 \<Longrightarrow> ok_expiry a \<le> ok_expiry b"
  by (auto simp: compareReapInputOrderKey_def split: if_splits)

text \<open>The strict-candidate bucket lists the tracked outputs in canonical order.\<close>

lemma strict_bucket_candidates:
  assumes "index_rep db M"
  obtains b where "bktReapStrictCandidates db = Some b"
    and "\<forall>kv \<in> set b. is_ok (decodeReapStrictCompositeKey (fst kv))"
    and "set (map cand_of b) = candidates_of M" and "canonical_order (map cand_of b)"
proof -
  obtain b where b: "bktReapStrictCandidates db = Some b" "wf_bucket b" "\<forall>k. bucket_Get k b = rep_rsc M k"
    using assms by (auto simp: index_rep_def holds_def)
  have wf: "wf_idx_map M" using assms by (simp add: index_rep_def)
  have mem: "(k, v) \<in> set b \<longleftrightarrow> rep_rsc M k = Some v" for k v
    using bkt.pairs_get [OF b(2), of k v] b(3) by (simp add: cursor_First_def)
  have dec: "\<exists>e a op. decodeReapStrictCompositeKey (fst kv) = Inr (e, a, op) \<and> M op = Some (e, a)
      \<and> valid_amount a \<and> fst kv = strict_key (cand_key (cand_of kv))
      \<and> cand_of kv = \<lparr>cand_OutPoint = op, cand_ExpiryKey = e, cand_Amount = a\<rparr>"
    if kv: "kv \<in> set b" for kv
  proof -
    obtain e a op where d: "decodeReapStrictCompositeKey (fst kv) = Inr (e, a, op)" "M op = Some (e, a)"
      using kv mem [of "fst kv" "snd kv"] by (auto simp: rep_rsc_def split: sum.splits if_splits)
    then have "valid_amount a" using wf by (auto simp: wf_idx_map_def)
    with d show ?thesis
      using decode_strict_iff [of a "fst kv" e op] by (simp add: cand_of_def cand_key_def)
  qed
  show thesis
  proof (rule that [OF b(1)])
    show "\<forall>kv \<in> set b. is_ok (decodeReapStrictCompositeKey (fst kv))" using dec by (fastforce simp: is_ok_iff)
    show "set (map cand_of b) = candidates_of M"
    proof (rule set_eqI)
      fix c
      have "c \<in> candidates_of M \<Longrightarrow> (strict_key (cand_key c), []) \<in> set b \<and> cand_of (strict_key (cand_key c), []) = c"
      proof -
        assume c: "c \<in> candidates_of M"
        then have "valid_amount (cand_Amount c)" using wf by (auto simp: candidates_of_def wf_idx_map_def)
        then have "decodeReapStrictCompositeKey (strict_key (cand_key c)) =
            Inr (cand_ExpiryKey c, cand_Amount c, cand_OutPoint c)"
          using decode_strict_key [of "cand_key c"] by (simp add: cand_key_def)
        then show ?thesis using c by (simp add: mem rep_rsc_def candidates_of_def cand_of_def)
      qed
      then show "c \<in> set (map cand_of b) \<longleftrightarrow> c \<in> candidates_of M"
        using dec by (force simp: candidates_of_def image_iff)
    qed
    have keys: "map fst b = map strict_key (map cand_key (map cand_of b))" using dec by fastforce
    have "\<forall>k \<in> set (map cand_key (map cand_of b)). valid_amount (ok_amount k)"
      using dec by (fastforce simp: cand_key_def)
    from reap_order.sorted_enc_iff [OF this] show "canonical_order (map cand_of b)"
      using wf_bucket_keys [OF b(2)] keys by (simp add: canonical_order_map)
  qed
qed

theorem ReapPrefixCandidates_spec:
  assumes "index_rep db M" and "\<not> idx_disabled idx" and "0 < limit" and "0 \<le> h"
  obtains cs where "ReapPrefixCandidates idx h limit db = Inr (take (nat limit) cs)"
    and "set cs = {c \<in> candidates_of M. cand_ExpiryKey c \<le> of_int h}" and "canonical_order cs"
proof -
  obtain b where b: "bktReapStrictCandidates db = Some b"
    "\<forall>kv \<in> set b. is_ok (decodeReapStrictCompositeKey (fst kv))"
    "set (map cand_of b) = candidates_of M" "canonical_order (map cand_of b)"
    using strict_bucket_candidates [OF assms(1)] .
  let ?cs = "filter (\<lambda>c. cand_ExpiryKey c \<le> of_int h) (map cand_of b)"
  have "sorted_wrt (\<lambda>a b. cand_ExpiryKey a \<le> cand_ExpiryKey b) (map cand_of b)"
    using b(4) unfolding canonical_order_def
    by (rule sorted_wrt_mono_rel [rotated]) (auto dest: compareReap_expiry_mono simp: cand_key_def)
  then have tw: "takeWhile (\<lambda>c. cand_ExpiryKey c \<le> of_int h) (map cand_of b) = ?cs"
    by (rule takeWhile_eq_filter_sorted)
  show thesis
  proof (rule that)
    show "ReapPrefixCandidates idx h limit db = Inr (take (nat limit) ?cs)"
      using assms(2-4) reapPrefixLoop_eq [OF b(2), of "[]" limit "of_int h"] tw
      by (simp add: ReapPrefixCandidates_def in_bucket_def b(1) cursor_First_def)
    show "set ?cs = {c \<in> candidates_of M. cand_ExpiryKey c \<le> of_int h}" using b(3) by auto
    show "canonical_order ?cs" using b(4) unfolding canonical_order_def by (rule sorted_wrt_filter)
  qed
qed

section \<open>Paged scans\<close>

text \<open>The scan order: by expiry key, then by \<open>compareOutPoint\<close>.\<close>

definition scan_less :: "ExpiringUTXO \<Rightarrow> ExpiringUTXO \<Rightarrow> bool" where
  "scan_less x y \<longleftrightarrow> exp_ExpiryKey x < exp_ExpiryKey y \<or>
     exp_ExpiryKey x = exp_ExpiryKey y \<and> compareOutPoint (exp_OutPoint x) (exp_OutPoint y) < 0"

definition scan_key :: "ExpiringUTXO \<Rightarrow> bytes" where
  "scan_key x = encodeExpiryOutpointCompositeKey (exp_ExpiryKey x) (exp_OutPoint x)"

definition entries_of :: "idx_map \<Rightarrow> ExpiringUTXO set" where
  "entries_of M = {x. map_option fst (M (exp_OutPoint x)) = Some (exp_ExpiryKey x)}"

lemma be_bytes_u64_less: "be_bytes 8 (unat (x :: u64)) < be_bytes 8 (unat y) \<longleftrightarrow> x < y"
  by (simp add: be_bytes_less [OF unat_u64_bound unat_u64_bound] word_less_nat_alt)

lemma be_bytes_u64_eq: "be_bytes 8 (unat (x :: u64)) = be_bytes 8 (unat y) \<longleftrightarrow> x = y"
  by (simp add: be_bytes_inject [OF unat_u64_bound unat_u64_bound] word_unat_eq_iff)

lemma scan_key_less: "scan_key x < scan_key y \<longleftrightarrow> scan_less x y"
  unfolding scan_key_def scan_less_def encodeExpiryOutpointCompositeKey_def
  by (simp only: less_append_same_length length_be_bytes be_bytes_u64_less be_bytes_u64_eq
      op_order.cmp_less_iff [OF TrueI TrueI])

lemma prefix_le_scan_key: "expiryCompositePrefix k \<le> scan_key x \<longleftrightarrow> k \<le> exp_ExpiryKey x"
proof -
  let ?a = "be_bytes 8 (unat k)" and ?b = "be_bytes 8 (unat (exp_ExpiryKey x))"
    and ?o = "encodeOrderedOutPoint (exp_OutPoint x)"
  have "?o \<noteq> []" using length_encoders(2) [of "exp_OutPoint x"] by force
  then have "[] < ?o" by (cases ?o) auto
  then have "?a @ [] < ?b @ ?o \<longleftrightarrow> ?a < ?b \<or> ?a = ?b"
    by (simp only: less_append_same_length length_be_bytes) simp
  moreover have "?a \<noteq> ?b @ ?o" using \<open>?o \<noteq> []\<close> by (metis append_self_conv length_append
        length_be_bytes length_greater_0_conv less_add_same_cancel1 less_not_refl)
  ultimately show ?thesis
    unfolding expiryCompositePrefix_def encodeExpiryKey_def scan_key_def
      encodeExpiryOutpointCompositeKey_def
    by (simp add: order.order_iff_strict be_bytes_u64_less be_bytes_u64_eq)
qed

lemma decode_scan_key [simp]:
  "decodeExpiryOutpointCompositeKey (scan_key x) = Inr (exp_ExpiryKey x, exp_OutPoint x)"
  by (simp add: scan_key_def)

lemma ExpiringUTXO_eta [simp]:
  "\<lparr>exp_OutPoint = exp_OutPoint x, exp_ExpiryKey = exp_ExpiryKey x\<rparr> = (x :: ExpiringUTXO)"
  by (cases x) simp

definition entry_of :: "bytes \<times> bytes \<Rightarrow> ExpiringUTXO" where
  "entry_of kv = (case decodeExpiryOutpointCompositeKey (fst kv) of
     Inr (e, op) \<Rightarrow> \<lparr>exp_OutPoint = op, exp_ExpiryKey = e\<rparr>
   | Inl _ \<Rightarrow> \<lparr>exp_OutPoint = \<lparr>Hash = 0, Index = 0\<rparr>, exp_ExpiryKey = 0\<rparr>)"

lemma scanLoop_eq:
  assumes "\<forall>kv \<in> set c. fst kv = scan_key (entry_of kv)" and "int (length res) \<le> maxResults"
  shows "scanLoop toKey maxResults c res =
    (let xs = takeWhile (\<lambda>x. exp_ExpiryKey x \<le> toKey) (map entry_of c);
         n = nat maxResults - length res
     in Inr (res @ take n xs, n < length xs))"
  using assms
proof (induction c arbitrary: res)
  case (Cons kv c)
  have d: "fst kv = scan_key (entry_of kv)" and c: "\<forall>kv \<in> set c. fst kv = scan_key (entry_of kv)"
    using Cons.prems(1) by simp_all
  show ?case
  proof (cases "toKey < exp_ExpiryKey (entry_of kv)")
    case True
    then show ?thesis by (simp add: d)
  next
    case False
    show ?thesis
    proof (cases "maxResults \<le> int (length res)")
      case True
      then have "nat maxResults - length res = 0" by linarith
      then show ?thesis using True False by (simp add: d)
    next
      case more: False
      then have m: "nat maxResults - length res = Suc (nat maxResults - Suc (length res))" by linarith
      show ?thesis using False more Cons.IH [OF c, of "res @ [entry_of kv]"] m by (simp add: d Let_def)
    qed
  qed
qed simp

lemma dropWhile_less_sorted:
  assumes "sorted_wrt (\<lambda>x y. f x < f y) xs"
  shows "dropWhile (\<lambda>x. f x < (k :: 'a :: linorder)) xs = filter (\<lambda>x. k \<le> f x) xs"
  using assms
proof (induction xs)
  case (Cons x xs)
  show ?case
  proof (cases "f x < k")
    case False
    then have "\<forall>y \<in> set xs. k \<le> f y" using Cons.prems by fastforce
    then show ?thesis using False by simp
  qed (use Cons in auto)
qed simp

lemma seek_next:
  fixes f :: "'b \<Rightarrow> 'a :: linorder"
  assumes "sorted_wrt (\<lambda>x y. f x < f y) xs" and "filter (\<lambda>x. k \<le> f x) xs = x # ys"
  shows "filter (\<lambda>x. k < f x) xs = (if f x = k then ys else x # ys)"
proof -
  have "sorted_wrt (\<lambda>x y. f x < f y) (x # ys)"
    using assms sorted_wrt_filter [OF assms(1)] by metis
  then have "\<forall>y \<in> set ys. k < f y" "k \<le> f x"
    using assms(2) by (auto dest: filter_eq_ConsD intro: le_less_trans)
  moreover have "filter (\<lambda>x. k < f x) xs = filter (\<lambda>x. k < f x) (filter (\<lambda>x. k \<le> f x) xs)"
    by (simp add: filter_filter) (metis less_imp_le)
  ultimately show ?thesis using assms(2) by (auto simp: filter_id_conv)
qed

lemma expiry_bucket_entries:
  assumes "index_rep db M"
  obtains b where "bktExpiry2Outpoints db = Some b"
    and "\<forall>kv \<in> set b. fst kv = scan_key (entry_of kv)"
    and "set (map entry_of b) = entries_of M" and "sorted_wrt (\<lambda>x y. fst x < fst y) b"
proof -
  obtain b where b: "bktExpiry2Outpoints db = Some b" "wf_bucket b" "\<forall>k. bucket_Get k b = rep_e2o M k"
    using assms by (auto simp: index_rep_def holds_def)
  have mem: "(k, v) \<in> set b \<longleftrightarrow> rep_e2o M k = Some v" for k v
    using bkt.pairs_get [OF b(2), of k v] b(3) by (simp add: cursor_First_def)
  have dec: "fst kv = scan_key (entry_of kv) \<and> entry_of kv \<in> entries_of M" if kv: "kv \<in> set b" for kv
  proof -
    obtain e op where d: "decodeExpiryOutpointCompositeKey (fst kv) = Inr (e, op)"
      "map_option fst (M op) = Some e"
      using kv mem [of "fst kv" "snd kv"] by (auto simp: rep_e2o_def split: sum.splits if_splits)
    then show ?thesis
      by (simp add: entry_of_def scan_key_def entries_of_def decodeExpiryOutpointCompositeKey_Inr)
  qed
  have conv: "x \<in> entries_of M \<Longrightarrow> (scan_key x, []) \<in> set b \<and> entry_of (scan_key x, []) = x" for x
    by (simp add: mem rep_e2o_def scan_key_def entries_of_def entry_of_def)
  show thesis
  proof (rule that [OF b(1)])
    show "set (map entry_of b) = entries_of M" using dec conv by (force simp: image_iff)
    show "sorted_wrt (\<lambda>x y. fst x < fst y) b"
      using wf_bucket_keys [OF b(2)] by (simp add: sorted_wrt_map)
  qed (use dec in blast)
qed

text \<open>The entries a scan is asked for.\<close>

definition in_scan :: "u64 \<Rightarrow> u64 \<Rightarrow> OutPoint option \<Rightarrow> ExpiringUTXO \<Rightarrow> bool" where
  "in_scan fromKey toKey startAfter x \<longleftrightarrow> exp_ExpiryKey x \<le> toKey \<and>
     (case startAfter of
        None \<Rightarrow> fromKey \<le> exp_ExpiryKey x
      | Some op \<Rightarrow> scan_less \<lparr>exp_OutPoint = op, exp_ExpiryKey = fromKey\<rparr> x)"

theorem ScanExpiringUTXOs_spec:
  assumes "index_rep db M" and "\<not> idx_disabled idx" and "0 < maxResults"
  obtains xs where
    "ScanExpiringUTXOs idx fromKey toKey maxResults startAfter db =
       Inr (take (nat maxResults) xs, nat maxResults < length xs)"
    and "set xs = {x \<in> entries_of M. in_scan fromKey toKey startAfter x}"
    and "sorted_wrt scan_less xs"
proof -
  obtain b where b: "bktExpiry2Outpoints db = Some b"
    "\<forall>kv \<in> set b. fst kv = scan_key (entry_of kv)"
    "set (map entry_of b) = entries_of M" "sorted_wrt (\<lambda>x y. fst x < fst y) b"
    using expiry_bucket_entries [OF assms(1)] .
  let ?cond = "\<lambda>x. case startAfter of None \<Rightarrow> fromKey \<le> exp_ExpiryKey x
      | Some op \<Rightarrow> scan_less \<lparr>exp_OutPoint = op, exp_ExpiryKey = fromKey\<rparr> x"
  define cur where "cur = filter (\<lambda>kv. ?cond (entry_of kv)) b"
  let ?ys = "map entry_of cur"
  have sorted_cur: "sorted_wrt (\<lambda>x y. fst x < fst y) cur"
    unfolding cur_def using b(4) by (rule sorted_wrt_filter)
  have keys: "\<forall>kv \<in> set cur. fst kv = scan_key (entry_of kv)" using b(2) by (simp add: cur_def)
  have sorted_ys: "sorted_wrt scan_less ?ys"
    unfolding sorted_wrt_map
    by (rule sorted_wrt_mono_rel [OF _ sorted_cur]) (use keys in \<open>auto simp: scan_key_less [symmetric]\<close>)
  let ?xs = "filter (\<lambda>x. exp_ExpiryKey x \<le> toKey) ?ys"
  have "sorted_wrt (\<lambda>x y. exp_ExpiryKey x \<le> exp_ExpiryKey y) ?ys"
    by (rule sorted_wrt_mono_rel [OF _ sorted_ys]) (auto simp: scan_less_def)
  then have tw: "takeWhile (\<lambda>x. exp_ExpiryKey x \<le> toKey) ?ys = ?xs"
    by (rule takeWhile_eq_filter_sorted)
  have cursor: "(case startAfter of
       Some op \<Rightarrow>
         (let seekKey = encodeExpiryOutpointCompositeKey fromKey op;
              c = cursor_Seek seekKey b
          in if cursor_Key c = Some seekKey then cursor_Next c else c)
     | None \<Rightarrow> cursor_Seek (expiryCompositePrefix fromKey) b) = cur"
  proof (cases startAfter)
    case None
    have "filter (\<lambda>kv. expiryCompositePrefix fromKey \<le> fst kv) b = cur"
      unfolding cur_def None using b(2) by (intro filter_cong) (auto simp: prefix_le_scan_key)
    then show ?thesis
      by (simp add: None cursor_Seek_def dropWhile_less_sorted [OF b(4)])
  next
    case (Some op)
    let ?k = "encodeExpiryOutpointCompositeKey fromKey op"
    have k: "?k = scan_key \<lparr>exp_OutPoint = op, exp_ExpiryKey = fromKey\<rparr>" by (simp add: scan_key_def)
    have "filter (\<lambda>kv. ?k < fst kv) b = cur"
      unfolding cur_def Some k using b(2) by (intro filter_cong) (auto simp: scan_key_less)
    moreover have "(if cursor_Key (filter (\<lambda>kv. ?k \<le> fst kv) b) = Some ?k
        then cursor_Next (filter (\<lambda>kv. ?k \<le> fst kv) b) else filter (\<lambda>kv. ?k \<le> fst kv) b)
      = filter (\<lambda>kv. ?k < fst kv) b"
    proof (cases "filter (\<lambda>kv. ?k \<le> fst kv) b")
      case Nil
      then have "filter (\<lambda>kv. ?k < fst kv) b = []" by (auto simp: filter_empty_conv)
      then show ?thesis by (simp add: Nil cursor_Key_def)
    next
      case (Cons x ys)
      from seek_next [OF b(4) this] Cons show ?thesis by (simp add: cursor_Key_def cursor_Next_def)
    qed
    ultimately show ?thesis
      by (simp add: Some cursor_Seek_def dropWhile_less_sorted [OF b(4)] Let_def)
  qed
  show thesis
  proof (rule that)
    show "ScanExpiringUTXOs idx fromKey toKey maxResults startAfter db =
       Inr (take (nat maxResults) ?xs, nat maxResults < length ?xs)"
      using assms(2,3) scanLoop_eq [OF keys, of "[]" maxResults toKey] tw cursor
      by (simp add: ScanExpiringUTXOs_def in_bucket_def b(1) Let_def)
    show "set ?xs = {x \<in> entries_of M. in_scan fromKey toKey startAfter x}"
      unfolding b(3) [symmetric] by (auto simp: cur_def in_scan_def)
    show "sorted_wrt scan_less ?xs" using sorted_ys by (rule sorted_wrt_filter)
  qed
qed

lemma scan_less_trans: "scan_less x y \<Longrightarrow> scan_less y z \<Longrightarrow> scan_less x z"
  by (metis scan_key_less less_trans)

lemma scan_less_irrefl [simp]: "\<not> scan_less x x"
  by (simp add: scan_key_less [symmetric])

lemma scan_sorted_unique:
  assumes "sorted_wrt scan_less xs" and "sorted_wrt scan_less ys" and "set xs = set ys"
  shows "xs = ys"
proof -
  have "sorted_wrt (<) (map scan_key xs)" "sorted_wrt (<) (map scan_key ys)"
    using assms(1,2) by (simp_all add: sorted_wrt_map scan_key_less)
  then have "map scan_key xs = map scan_key ys"
    using assms(3) by (intro sorted_distinct_set_unique) (auto simp: strict_sorted_iff)
  moreover have "inj scan_key" by (rule injI) (metis decode_scan_key ExpiringUTXO_eta Inr_inject prod.inject)
  ultimately show ?thesis by (simp add: inj_map_eq_map)
qed

lemma sorted_wrt_drop: "sorted_wrt P xs \<Longrightarrow> sorted_wrt P (drop n xs)"
  by (metis append_take_drop_id sorted_wrt_append)

text \<open>Resuming a scan after the last entry of a page continues where the page ended.\<close>

theorem ScanExpiringUTXOs_resume:
  assumes rep: "index_rep db M" and en: "\<not> idx_disabled idx" and n: "0 < maxResults"
    and page: "ScanExpiringUTXOs idx fromKey toKey maxResults startAfter db = Inr (page, True)"
  obtains xs where "set xs = {x \<in> entries_of M. in_scan fromKey toKey startAfter x}"
    and "sorted_wrt scan_less xs" and "page = take (nat maxResults) xs"
    and "ScanExpiringUTXOs idx (exp_ExpiryKey (last page)) toKey maxResults
        (Some (exp_OutPoint (last page))) db =
      Inr (take (nat maxResults) (drop (nat maxResults) xs), nat maxResults < length (drop (nat maxResults) xs))"
    and "set (drop (nat maxResults) xs) =
      {x \<in> entries_of M. in_scan (exp_ExpiryKey (last page)) toKey (Some (exp_OutPoint (last page))) x}"
proof -
  let ?n = "nat maxResults"
  obtain xs where xs: "ScanExpiringUTXOs idx fromKey toKey maxResults startAfter db =
       Inr (take ?n xs, ?n < length xs)"
    "set xs = {x \<in> entries_of M. in_scan fromKey toKey startAfter x}" "sorted_wrt scan_less xs"
    using ScanExpiringUTXOs_spec [OF rep en n] .
  have len: "?n < length xs" "0 < ?n" and p: "page = take ?n xs" using xs(1) page n by auto
  let ?z = "last page"
  have "take ?n xs \<noteq> []" using len by auto
  then have z: "?z = xs ! (?n - 1)" using len by (simp add: p last_conv_nth)
  obtain ys where ys: "ScanExpiringUTXOs idx (exp_ExpiryKey ?z) toKey maxResults (Some (exp_OutPoint ?z)) db =
       Inr (take ?n ys, ?n < length ys)"
    "set ys = {x \<in> entries_of M. in_scan (exp_ExpiryKey ?z) toKey (Some (exp_OutPoint ?z)) x}"
    "sorted_wrt scan_less ys"
    using ScanExpiringUTXOs_spec [OF rep en n] .
  have "set ys = set (drop ?n xs)"
  proof (rule set_eqI)
    fix x
    have zin: "?z \<in> set xs" using z len by simp
    have idx_less: "scan_less (xs ! i) (xs ! j)" if "i < j" "j < length xs" for i j
      using xs(3) that by (simp add: sorted_wrt_iff_nth_less)
    have "x \<in> set (drop ?n xs) \<longleftrightarrow> x \<in> set xs \<and> scan_less ?z x"
    proof
      assume "x \<in> set (drop ?n xs)"
      then obtain j where "j < length (drop ?n xs)" "x = drop ?n xs ! j" by (auto simp: in_set_conv_nth)
      then have "?n + j < length xs" "x = xs ! (?n + j)" by auto
      then show "x \<in> set xs \<and> scan_less ?z x"
        using idx_less [of "?n - 1" "?n + j"] len z by (auto simp: less_imp_diff_less)
    next
      assume a: "x \<in> set xs \<and> scan_less ?z x"
      then obtain j where j: "j < length xs" "x = xs ! j" by (auto simp: in_set_conv_nth)
      have "?n - 1 < j"
      proof (rule ccontr)
        assume "\<not> ?n - 1 < j"
        then have "j < ?n - 1 \<or> j = ?n - 1" by linarith
        then have "scan_less x ?z \<or> x = ?z" using idx_less [of j "?n - 1"] j z len by auto
        then show False using a scan_less_trans scan_less_irrefl by blast
      qed
      then have "x = drop ?n xs ! (j - ?n)" "j - ?n < length (drop ?n xs)" using j len by auto
      then show "x \<in> set (drop ?n xs)" by (simp only: nth_mem)
    qed
    moreover have "x \<in> set ys \<longleftrightarrow> x \<in> set xs \<and> scan_less ?z x"
      using zin unfolding xs(2) ys(2)
      by (auto simp: in_scan_def split: option.splits intro: scan_less_trans)
        (auto simp: scan_less_def)
    ultimately show "x \<in> set ys \<longleftrightarrow> x \<in> set (drop ?n xs)" by simp
  qed
  then have "ys = drop ?n xs" using scan_sorted_unique ys(3) sorted_wrt_drop [OF xs(3)] by blast
  then show thesis using that xs(2,3) p ys(1,2) by metis
qed

section \<open>Statistics\<close>

lemma countExpiryKeys_eq:
  assumes "\<forall>kv \<in> set c. fst kv = scan_key (entry_of kv)"
    and "sorted_wrt (\<lambda>x y. exp_ExpiryKey (entry_of x) \<le> exp_ExpiryKey (entry_of y)) c"
    and "\<forall>l. prev = Some l \<longrightarrow> (\<forall>kv \<in> set c. l \<le> exp_ExpiryKey (entry_of kv))"
  shows "countExpiryKeys c prev n =
    Inr (n + card ((exp_ExpiryKey \<circ> entry_of) ` set c - set_option prev))"
  using assms
proof (induction c arbitrary: prev n)
  case (Cons kv c)
  let ?e = "exp_ExpiryKey (entry_of kv)" and ?f = "exp_ExpiryKey \<circ> entry_of"
  have d: "fst kv = scan_key (entry_of kv)" using Cons.prems(1) by simp
  have len: "length (scan_key (entry_of kv)) = 44" by (simp add: scan_key_def)
  have dk: "decodeExpiryKey (take 8 (scan_key (entry_of kv))) = Inr ?e"
    using decode_encodeExpiryKey [of ?e]
    by (simp add: scan_key_def encodeExpiryOutpointCompositeKey_def encodeExpiryKey_def)
  show ?case
  proof (cases "prev = Some ?e")
    case True
    then have "countExpiryKeys (kv # c) prev n = countExpiryKeys c prev n" by (simp add: d len dk)
    moreover have "?f ` set (kv # c) - set_option prev = ?f ` set c - set_option prev" using True by auto
    ultimately show ?thesis using Cons by simp
  next
    case False
    have IH: "countExpiryKeys c (Some ?e) (n + 1) = Inr (n + 1 + card (?f ` set c - {?e}))"
      using Cons.IH [of "Some ?e" "n + 1"] Cons.prems by simp
    have notin: "set_option prev \<inter> ?f ` set (kv # c) = {}"
    proof (rule ccontr)
      assume "set_option prev \<inter> ?f ` set (kv # c) \<noteq> {}"
      then obtain l where l: "prev = Some l" "l \<in> ?f ` set (kv # c)" by (cases prev) auto
      then have "l \<le> ?e" "?e \<le> l" using Cons.prems(2,3) by auto
      then show False using False l by simp
    qed
    have "?f ` set (kv # c) - set_option prev = insert ?e (?f ` set c - {?e})" using notin by auto
    then have "card (?f ` set (kv # c) - set_option prev) = Suc (card (?f ` set c - {?e}))"
      by (simp only: card_insert_disjoint finite_Diff finite_imageI finite_set Diff_iff
          singletonI not_True_eq_False simp_thms)
    then show ?thesis using False IH by (simp add: d len dk)
  qed
qed simp

lemma length_bucket_card:
  assumes "wf_bucket b" and "\<forall>k. bucket_Get k b = f k"
  shows "length b = card (dom f)"
proof -
  have "fst ` set b = dom f"
    using bkt.pairs_keys [OF assms(1)] assms(2) by (auto simp: cursor_First_def dom_def)
  then show ?thesis
    using distinct_card [OF wf_bucket_distinct [OF assms(1)]] by simp
qed

lemma dom_rep_o2e: "dom (rep_o2e M) = encodeOutPoint ` dom M"
proof -
  have "rep_o2e M k \<noteq> None \<longleftrightarrow> (\<exists>op. k = encodeOutPoint op \<and> M op \<noteq> None)" for k
    by (auto simp: rep_o2e_def decodeOutPoint_Inr split: sum.splits)
  then show ?thesis by (auto simp: dom_def image_iff)
qed

theorem GetStats_spec:
  assumes "index_rep db M" and "\<not> idx_disabled idx" and "dbGetTipHeightIndexed db = Inr tip"
  shows "GetStats idx db = Inr \<lparr>stats_Disabled = False, stats_TipHeight = tip,
    stats_TotalUTXOs = card (dom M), stats_TotalExpiryKeys = card (fst ` ran M)\<rparr>"
proof -
  obtain b1 where b1: "bktOutpoint2Expiry db = Some b1" "wf_bucket b1" "\<forall>k. bucket_Get k b1 = rep_o2e M k"
    using assms(1) by (auto simp: index_rep_def holds_def)
  have len1: "length b1 = card (dom M)"
    using length_bucket_card [OF b1(2,3)] by (simp add: dom_rep_o2e card_image inj_on_def)
  obtain b2 where b2: "bktExpiry2Outpoints db = Some b2"
    "\<forall>kv \<in> set b2. fst kv = scan_key (entry_of kv)"
    "set (map entry_of b2) = entries_of M" "sorted_wrt (\<lambda>x y. fst x < fst y) b2"
    using expiry_bucket_entries [OF assms(1)] .
  have s2: "sorted_wrt (\<lambda>x y. exp_ExpiryKey (entry_of x) \<le> exp_ExpiryKey (entry_of y)) b2"
    by (rule sorted_wrt_mono_rel [OF _ b2(4)])
      (use b2(2) in \<open>auto simp: scan_key_less scan_less_def\<close>)
  have "(exp_ExpiryKey \<circ> entry_of) ` set b2 = exp_ExpiryKey ` entries_of M"
    using b2(3) by (simp only: image_comp [symmetric] set_map)
  also have "\<dots> = fst ` ran M"
  proof (rule set_eqI)
    fix e
    show "e \<in> exp_ExpiryKey ` entries_of M \<longleftrightarrow> e \<in> fst ` ran M"
    proof
      assume "e \<in> exp_ExpiryKey ` entries_of M"
      then obtain x where "x \<in> entries_of M" and e: "e = exp_ExpiryKey x" by blast
      then obtain a where "M (exp_OutPoint x) = Some (e, a)" by (auto simp: entries_of_def)
      then have "(e, a) \<in> ran M" by (rule ranI)
      then show "e \<in> fst ` ran M" by (metis fst_conv image_eqI)
    next
      assume "e \<in> fst ` ran M"
      then obtain op a where "M op = Some (e, a)" by (auto simp: ran_def)
      then have "\<lparr>exp_OutPoint = op, exp_ExpiryKey = e\<rparr> \<in> entries_of M" by (simp add: entries_of_def)
      then show "e \<in> exp_ExpiryKey ` entries_of M" by (rule image_eqI [rotated]) simp
    qed
  qed
  finally have "countExpiryKeys b2 None 0 = Inr (card (fst ` ran M))"
    using countExpiryKeys_eq [OF b2(2) s2, of None 0] by simp
  then show ?thesis
    using assms(2,3) b1(1) b2(1) len1 by (simp add: GetStats_def cursor_First_def Let_def)
qed

section \<open>Searching a page\<close>

lemma sorted_compare_mono:
  assumes "sorted_wrt (\<lambda>a b. compareOutPoint a b < 0) ops" and "i \<le> j" and "j < length ops"
    and "compareOutPoint (ops ! j) op \<le> 0"
  shows "compareOutPoint (ops ! i) op \<le> 0"
proof (cases "i = j")
  case False
  then have ij: "compareOutPoint (ops ! i) (ops ! j) < 0"
    using assms(1-3) by (simp add: sorted_wrt_iff_nth_less)
  show ?thesis
  proof (cases "compareOutPoint (ops ! j) op = 0")
    case True
    then have "ops ! j = op" using op_order.cmp_eq_iff [OF TrueI TrueI, of "ops ! j" op] by simp
    then show ?thesis using ij by simp
  next
    case False
    then have "compareOutPoint (ops ! j) op < 0" using assms(4) by simp
    from op_order.cmp_trans [OF TrueI TrueI TrueI ij this] show ?thesis by simp
  qed
qed (use assms in simp)

definition split_at :: "OutPoint list \<Rightarrow> OutPoint \<Rightarrow> nat \<Rightarrow> bool" where
  "split_at ops op n \<longleftrightarrow> n \<le> length ops
     \<and> (\<forall>i < n. compareOutPoint (ops ! i) op \<le> 0)
     \<and> (\<forall>i. n \<le> i \<and> i < length ops \<longrightarrow> compareOutPoint (ops ! i) op > 0)"

lemma searchStart_spec:
  assumes "sorted_wrt (\<lambda>a b. compareOutPoint a b < 0) ops" and "low \<le> high" and "high \<le> length ops"
    and "\<forall>i < low. compareOutPoint (ops ! i) op \<le> 0"
    and "\<forall>i. high \<le> i \<and> i < length ops \<longrightarrow> compareOutPoint (ops ! i) op > 0"
  shows "split_at ops op (searchStart ops op low high)"
  using assms
proof (induction ops op low high rule: searchStart.induct)
  case (1 ops op low high)
  note sorted = 1(3) and lh = 1(4) and hl = 1(5) and below = 1(6) and above = 1(7)
  let ?mid = "(low + high) div 2"
  show ?case
  proof (cases "low < high")
    case False
    then have "searchStart ops op low high = low" by (subst searchStart.simps) simp
    then show ?thesis using False lh hl below above by (simp add: split_at_def)
  next
    case True
    then have mid: "low \<le> ?mid" "?mid < high" by auto
    show ?thesis
    proof (cases "compareOutPoint (ops ! ?mid) op \<le> 0")
      case le: True
      have "\<forall>i < ?mid + 1. compareOutPoint (ops ! i) op \<le> 0"
      proof (intro allI impI)
        fix i assume "i < ?mid + 1"
        then show "compareOutPoint (ops ! i) op \<le> 0"
          using sorted_compare_mono [OF sorted _ _ le, of i] mid hl by simp
      qed
      moreover have "searchStart ops op low high = searchStart ops op (?mid + 1) high"
        using True le by (subst searchStart.simps) (simp only: Let_def if_True)
      ultimately show ?thesis
        using "1.IH"(1) [OF True refl le sorted _ hl _ above] mid by simp
    next
      case gt: False
      have "\<forall>i. ?mid \<le> i \<and> i < length ops \<longrightarrow> compareOutPoint (ops ! i) op > 0"
      proof (intro allI impI)
        fix i assume "?mid \<le> i \<and> i < length ops"
        then show "compareOutPoint (ops ! i) op > 0"
          using sorted_compare_mono [OF sorted, of ?mid i op] gt by (meson not_le)
      qed
      moreover have "searchStart ops op low high = searchStart ops op low ?mid"
        using True gt by (subst searchStart.simps) (simp only: Let_def if_True if_False)
      ultimately show ?thesis
        using "1.IH"(2) [OF True refl gt sorted _ _ below] mid hl by simp
    qed
  qed
qed

end
