(* ===== verification/Expiry_Rebuild.thy ===== *)
theory Expiry_Rebuild
  imports Expiry_Queries
begin

text \<open>
  Resetting and rebuilding the expiry index, and the index as a state machine: the states it can
  reach by creation, connecting, disconnecting, rebuilding and reindexing, what holds in all of
  them, and that the accumulator digest depends on the tracked outputs only, not on the history.
\<close>

section \<open>Reset\<close>

definition wf_db :: "expiry_db \<Rightarrow> bool" where
  "wf_db db \<longleftrightarrow> has_meta db \<and>
     (\<forall>ob \<in> {bktOutpoint2Expiry db, bktExpiry2Outpoints db, bktReapStrictCandidates db,
        bktOutpoint2ReapStrict db}. \<exists>b. ob = Some b \<and> wf_bucket b)"

lemma holds_Nil [simp]: "holds (Some []) (\<lambda>_. None)"
  by (simp add: holds_def bucket_Get_def)

lemma rep_empty [simp]:
  "rep_o2e Map.empty = (\<lambda>_. None)" "rep_e2o Map.empty = (\<lambda>_. None)"
  "rep_rsc Map.empty = (\<lambda>_. None)" "rep_o2r Map.empty = (\<lambda>_. None)"
  by (auto simp: rep_defs fun_eq_iff split: sum.splits)

lemma index_rep_wf_db: "index_rep db M \<Longrightarrow> has_meta db \<Longrightarrow> wf_db db"
  by (auto simp: index_rep_def wf_db_def holds_def)

lemma index_inv_wf_db: "index_inv db M mh h n \<Longrightarrow> wf_db db"
  by (auto simp: index_inv_def snapshot_is_def intro: index_rep_wf_db)

text \<open>Clearing leaves the empty index, whatever the buckets held.\<close>

lemma clearExpiryIndexBuckets_ok:
  assumes "wf_db db"
  obtains db' where "clearExpiryIndexBuckets db = Inr db'"
    and "index_inv db' Map.empty NewMuHash 0 (-1)"
    and "meta_of db' keyIndexVersion = meta_of db keyIndexVersion"
proof -
  obtain b1 b2 b3 b4 where b: "bktOutpoint2Expiry db = Some b1" "bktExpiry2Outpoints db = Some b2"
    "bktReapStrictCandidates db = Some b3" "bktOutpoint2ReapStrict db = Some b4"
    "wf_bucket b1" "wf_bucket b2" "wf_bucket b3" "wf_bucket b4"
    using assms by (auto simp: wf_db_def)
  let ?db = "db\<lparr>bktOutpoint2Expiry := Some [], bktExpiry2Outpoints := Some [],
    bktReapStrictCandidates := Some [], bktOutpoint2ReapStrict := Some []\<rparr>"
  have "has_meta ?db" using assms by (simp add: wf_db_def has_meta_def)
  moreover have "is_int32 (-1)" by (simp add: is_int32_def)
  ultimately obtain db' where p: "putSnapshot NewMuHash 0 (-1) ?db = Inr db'" "same_entries ?db db'"
    "snapshot_is NewMuHash 0 (-1) db'" "meta_of db' keyIndexVersion = meta_of ?db keyIndexVersion"
    using putSnapshot_ok [OF _ wf_muhash_New] by metis
  have "index_rep ?db Map.empty" by (simp add: index_rep_def wf_idx_map_def)
  then have "index_rep db' Map.empty" using p(2) by (rule index_rep_same_entries)
  moreover have "clearExpiryIndexBuckets db = Inr db'"
    using p(1) b by (simp add: clearExpiryIndexBuckets_def)
  ultimately show thesis using that p(3,4) by (simp add: index_inv_def meta_of_def)
qed

definition partial_db :: "expiry_db \<Rightarrow> bool" where
  "partial_db db \<longleftrightarrow>
     (\<forall>b. Some b \<in> {bktExpiryMeta db, bktOutpoint2Expiry db, bktExpiry2Outpoints db,
        bktReapStrictCandidates db, bktOutpoint2ReapStrict db} \<longrightarrow> wf_bucket b)"

lemma wf_db_create: "partial_db db \<Longrightarrow> wf_db (createExpiryIndexBuckets db)"
  by (auto simp: partial_db_def wf_db_def has_meta_def createExpiryIndexBuckets_def
      create_bucket_def split: option.splits)

lemma index_inv_putVersion:
  assumes "index_inv db M mh h n"
  obtains db' where "dbPutIndexVersion v db = Inr db'" and "index_inv db' M mh h n"
    and "dbGetIndexVersion db' = Inr v"
proof -
  have "has_meta db" using assms by (simp add: index_inv_def snapshot_is_def)
  then show thesis
    by (rule dbPutIndexVersion_ok [of db v])
      (use that assms index_rep_same_entries in \<open>auto simp: index_inv_def\<close>)
qed

theorem ReindexExpiryIndex_ok:
  assumes "partial_db db"
  obtains db' where "ReindexExpiryIndex db = Inr db'" and "index_inv db' Map.empty NewMuHash 0 (-1)"
    and "dbGetIndexVersion db' = Inr CurrentIndexVersion"
proof -
  obtain db1 where 1: "clearExpiryIndexBuckets (createExpiryIndexBuckets db) = Inr db1"
    "index_inv db1 Map.empty NewMuHash 0 (-1)"
    using clearExpiryIndexBuckets_ok [OF wf_db_create [OF assms]] by metis
  have meta: "has_meta db1" using 1(2) by (simp add: index_inv_def snapshot_is_def)
  obtain db2 where 2: "dbPutTipHeightIndexed (-1) db1 = Inr db2" "index_inv db2 Map.empty NewMuHash 0 (-1)"
  proof -
    obtain d where d: "dbPutIndexMeta keyTipHeightIndexed (le_bytes 4 (unat (of_int (-1) :: u32))) db1 = Inr d"
      "has_meta d" "meta_of d = (meta_of db1)(keyTipHeightIndexed \<mapsto> le_bytes 4 (unat (of_int (-1) :: u32)))"
      "same_entries db1 d"
      using dbPutIndexMeta_ok [OF meta key_distinct(1)] by blast
    have "wrap32 (int (le_val (le_bytes 4 (unat (of_int (-1) :: u32))))) = -1"
      by (rule wrap32_height) (simp add: is_int32_def)
    then have "snapshot_is NewMuHash 0 (-1) d"
      using 1(2) d(2) meta
      by (simp add: index_inv_def snapshot_is_def dbGetAccumulatorState_meta
          dbGetAccumulatorTipHash_meta dbGetTipHeightIndexed_meta d(3) del: le_val_u32)
    moreover have "index_rep d Map.empty"
      using 1(2) d(4) index_rep_same_entries by (auto simp: index_inv_def)
    ultimately show thesis using that d(1) 1(2)
      by (auto simp: dbPutTipHeightIndexed_def index_inv_def)
  qed
  obtain db3 where 3: "dbPutIndexVersion CurrentIndexVersion db2 = Inr db3"
    "index_inv db3 Map.empty NewMuHash 0 (-1)" "dbGetIndexVersion db3 = Inr CurrentIndexVersion"
    using index_inv_putVersion [OF 2(2)] .
  show thesis by (rule that [OF _ 3(2,3)]) (simp add: ReindexExpiryIndex_def 1(1) 2(1) 3(1))
qed

section \<open>Fast rebuild\<close>

text \<open>The map a UTXO iteration stands for.\<close>

definition spec_utxo :: "ExpiryIndex \<Rightarrow> OutPoint \<times> int32 \<times> int64 \<Rightarrow> idx_map \<Rightarrow> idx_map" where
  "spec_utxo idx = (\<lambda>(op, h, a) M.
     if shouldIndexCreateHeight idx h then M(op \<mapsto> (CalculateExpiryKey (idx_expiryParams idx) h, a)) else M)"

definition utxo_ok :: "ExpiryIndex \<Rightarrow> OutPoint \<times> int32 \<times> int64 \<Rightarrow> idx_map \<Rightarrow> bool" where
  "utxo_ok idx = (\<lambda>(op, h, a) M. shouldIndexCreateHeight idx h \<longrightarrow> M op = None \<and> valid_amount a)"

definition spec_entry :: "batch_entry \<Rightarrow> idx_map \<Rightarrow> idx_map" where
  "spec_entry = (\<lambda>(op, e, a) M. M(op \<mapsto> (e, a)))"

definition entry_ok :: "batch_entry \<Rightarrow> idx_map \<Rightarrow> bool" where
  "entry_ok = (\<lambda>(op, e, a) M. M op = None \<and> valid_amount a)"

lemma fold_pre_append:
  "fold_pre P g (xs @ ys) a \<longleftrightarrow> fold_pre P g xs a \<and> fold_pre P g ys (fold g xs a)"
  by (induction xs arbitrary: a) auto

lemma flushBatch_refines:
  assumes "index_rep db M" and "fold_pre entry_ok spec_entry batch M"
  shows "\<exists>db'. flushBatch batch db = Inr db' \<and> index_rep db' (fold spec_entry batch M)
    \<and> bktExpiryMeta db' = bktExpiryMeta db"
proof -
  have "\<exists>db'. flushBatch batch db = Inr db' \<and>
      (index_rep db' (fold spec_entry batch M) \<and> bktExpiryMeta db' = bktExpiryMeta db)"
    unfolding flushBatch_def
  proof (rule fold_r_refines [where P = entry_ok
        and R = "\<lambda>d M. index_rep d M \<and> bktExpiryMeta d = bktExpiryMeta db"])
    fix x s M
    assume a: "index_rep s M \<and> bktExpiryMeta s = bktExpiryMeta db" "entry_ok x M"
    obtain op e am where x: "x = (op, e, am)" by (cases x)
    obtain db' where "putTxOutMapping op e am s = Inr db'" "index_rep db' (M(op \<mapsto> (e, am)))"
      "bktExpiryMeta db' = bktExpiryMeta s"
      by (rule putTxOutMapping_refines [of s M op e am]) (use a in \<open>auto simp: entry_ok_def x\<close>)
    then show "\<exists>s'. (case x of (op, xb, xc) \<Rightarrow> putTxOutMapping op xb xc) s = Inr s' \<and>
        index_rep s' (spec_entry x M) \<and> bktExpiryMeta s' = bktExpiryMeta db"
      using a by (auto simp: spec_entry_def x)
  qed (use assms in auto)
  then show ?thesis by blast
qed

definition rebuild_rep :: "bucket option \<Rightarrow> MuHash \<times> batch_entry list \<times> expiry_db \<Rightarrow> idx_map \<Rightarrow> bool" where
  "rebuild_rep meta = (\<lambda>(mh, batch, db) M. \<exists>M0. index_rep db M0 \<and> bktExpiryMeta db = meta
     \<and> fold_pre entry_ok spec_entry batch M0 \<and> M = fold spec_entry batch M0
     \<and> represents mh (acc_mset M))"

lemma rebuild_rep_flush:
  assumes "rebuild_rep meta (mh, batch, db) M"
  obtains db' where "flushBatch batch db = Inr db'" and "index_rep db' M"
    and "bktExpiryMeta db' = meta" and "represents mh (acc_mset M)"
  using assms flushBatch_refines [of db _ batch] unfolding rebuild_rep_def by fastforce

lemma processUTXO_refines:
  assumes rep: "rebuild_rep meta s M" and ok: "utxo_ok idx u M"
  shows "\<exists>s'. processUTXO idx u s = Inr s' \<and> rebuild_rep meta s' (spec_utxo idx u M)"
proof -
  obtain op h a mh batch db where u: "u = (op, h, a)" and s: "s = (mh, batch, db)"
    by (cases u; cases s) auto
  show ?thesis
  proof (cases "shouldIndexCreateHeight idx h")
    case False
    then show ?thesis using rep by (auto simp: processUTXO_def spec_utxo_def u s)
  next
    case True
    let ?e = "CalculateExpiryKey (idx_expiryParams idx) h"
    let ?M = "M(op \<mapsto> (?e, a))" and ?mh = "MuHash_Add (computeEntryData op ?e) mh"
      and ?batch = "batch @ [(op, ?e, a)]"
    have M: "M op = None" "valid_amount a" using ok True by (auto simp: utxo_ok_def u)
    obtain M0 where M0: "index_rep db M0" "bktExpiryMeta db = meta" "fold_pre entry_ok spec_entry batch M0"
      "M = fold spec_entry batch M0" "represents mh (acc_mset M)"
      using rep by (auto simp: rebuild_rep_def s)
    obtain db1 where "index_rep db1 M" using rebuild_rep_flush [OF rep [unfolded s]] by metis
    then have fin: "finite (dom M)" by (simp add: index_rep_def wf_idx_map_def)
    have acc: "represents ?mh (acc_mset ?M)"
      using represents_Add [OF M0(5)] acc_mset_upd [OF fin M(1)] by simp
    have r: "rebuild_rep meta (?mh, ?batch, db) ?M"
      unfolding rebuild_rep_def using M0 M acc
      by (auto simp: fold_pre_append entry_ok_def spec_entry_def intro!: exI [of _ M0])
    have spec: "spec_utxo idx u M = ?M" using True by (simp add: spec_utxo_def u)
    show ?thesis
    proof (cases "length ?batch \<ge> DefaultBatchSize")
      case False
      then show ?thesis using True r spec by (simp add: processUTXO_def u s Let_def)
    next
      case flush: True
      obtain db' where f: "flushBatch ?batch db = Inr db'" "index_rep db' ?M" "bktExpiryMeta db' = meta"
        using rebuild_rep_flush [OF r] by metis
      have "rebuild_rep meta (?mh, [], db') ?M" using f acc by (simp add: rebuild_rep_def)
      then show ?thesis using True flush f(1) spec by (simp add: processUTXO_def u s Let_def)
    qed
  qed
qed

definition utxo_map :: "ExpiryIndex \<Rightarrow> (OutPoint \<times> int32 \<times> int64) list \<Rightarrow> idx_map" where
  "utxo_map idx us = fold (spec_utxo idx) us Map.empty"

definition utxos_ok :: "ExpiryIndex \<Rightarrow> (OutPoint \<times> int32 \<times> int64) list \<Rightarrow> bool" where
  "utxos_ok idx us \<longleftrightarrow> fold_pre (utxo_ok idx) (spec_utxo idx) us Map.empty"

lemma populate_refines:
  assumes it: "utxo_iteration c = (us, None)" and ok: "utxos_ok idx us" and rep: "index_rep db Map.empty"
  shows "\<exists>mh db'. populate idx c db = Inr (mh, db') \<and> index_rep db' (utxo_map idx us)
    \<and> represents mh (acc_mset (utxo_map idx us)) \<and> bktExpiryMeta db' = bktExpiryMeta db"
proof -
  have "rebuild_rep (bktExpiryMeta db) (NewMuHash, [], db) Map.empty"
    using rep by (simp add: rebuild_rep_def)
  from fold_r_refines [where R = "rebuild_rep (bktExpiryMeta db)" and f = "processUTXO idx",
      OF processUTXO_refines ok [unfolded utxos_ok_def] this]
  obtain mh batch db1 where f: "fold_r (processUTXO idx) us (NewMuHash, [], db) = Inr (mh, batch, db1)"
    and r: "rebuild_rep (bktExpiryMeta db) (mh, batch, db1) (utxo_map idx us)"
    by (auto simp: utxo_map_def)
  show ?thesis
    using rebuild_rep_flush [OF r] f it by (fastforce simp: populate_def)
qed

text \<open>The hash the rebuilt index is recorded for.\<close>

definition rebuild_tip :: "ChainAccessor \<Rightarrow> int32 \<Rightarrow> hash \<Rightarrow> bool" where
  "rebuild_tip c height h \<longleftrightarrow>
     (if height \<ge> 0 then (\<exists>block. BlockByHeight c height = Inr block \<and> h = BlockHash block) else h = 0)"

lemma finalizeRebuild_eq:
  assumes "rebuild_tip c height h"
  shows "finalizeRebuild c height mh db = putSnapshot mh h height db"
  using assms by (auto simp: rebuild_tip_def finalizeRebuild_def putSnapshot_def split: if_splits)

lemma processUTXO_denominator:
  "processUTXO idx u s = Inr s' \<Longrightarrow> denominator (fst s') = denominator (fst s)"
  by (cases u; cases s) (auto simp: processUTXO_def Let_def split: if_splits sum.splits)

lemma populate_denominator:
  assumes "populate idx c db = Inr (mh, db')"
  shows "denominator mh = 1"
proof -
  obtain us s where f: "fold_r (processUTXO idx) us (NewMuHash, [], db) = Inr s" and mh: "mh = fst s"
    using assms by (auto simp: populate_def bind_r_eq_Inr split: prod.splits option.splits sum.splits)
  have "denominator (fst s) = 1"
    using f by (rule fold_r_invariant) (auto simp: NewMuHash_def processUTXO_denominator)
  then show ?thesis by (simp add: mh)
qed

lemma fastRebuildFromUTXO_ok:
  assumes wf: "wf_db db" and it: "utxo_iteration c = (us, None)" and ok: "utxos_ok idx us"
    and tip: "rebuild_tip c height h" and ht: "is_int32 height"
  shows "\<exists>db' mh. fastRebuildFromUTXO (Some c) height (idx, db) =
      ((idx\<lparr>idx_curTipHeight := height\<rparr>, db'), None)
    \<and> index_inv db' (utxo_map idx us) mh h height \<and> denominator mh = 1"
proof -
  obtain db1 where 1: "clearExpiryIndexBuckets db = Inr db1" "index_inv db1 Map.empty NewMuHash 0 (-1)"
    using clearExpiryIndexBuckets_ok [OF wf] by metis
  let ?idx = "idx\<lparr>idx_curTipHeight := -1\<rparr>"
  have p: "idx_expiryParams ?idx = idx_expiryParams idx" by simp
  have a: "shouldIndexCreateHeight ?idx = shouldIndexCreateHeight idx"
    by (rule ext) (simp only: shouldIndexCreateHeight_def p)
  have b: "utxo_ok ?idx = utxo_ok idx" "spec_utxo ?idx = spec_utxo idx"
    by (simp_all only: utxo_ok_def spec_utxo_def a p)
  have same: "utxos_ok ?idx = utxos_ok idx" "utxo_map ?idx = utxo_map idx"
    by (intro ext; simp only: utxos_ok_def utxo_map_def b)+
  have rep1: "index_rep db1 Map.empty" "has_meta db1" using 1(2) by (auto simp: index_inv_def snapshot_is_def)
  obtain mh db2 where 2: "populate ?idx c db1 = Inr (mh, db2)" "index_rep db2 (utxo_map idx us)"
    "represents mh (acc_mset (utxo_map idx us))" "bktExpiryMeta db2 = bktExpiryMeta db1"
    using populate_refines [OF it _ rep1(1), of ?idx] ok same by auto
  have "has_meta db2" using rep1(2) has_meta_cong [OF 2(4)] by simp
  moreover have "wf_muhash mh" using 2(3) by (simp add: represents_def)
  ultimately obtain db3 where 3: "putSnapshot mh h height db2 = Inr db3" "same_entries db2 db3"
    "snapshot_is mh h height db3"
    using putSnapshot_ok ht by metis
  have "index_inv db3 (utxo_map idx us) mh h height"
    using 2 3 index_rep_same_entries by (auto simp: index_inv_def)
  moreover have "fastRebuildFromUTXO (Some c) height (idx, db) =
      ((idx\<lparr>idx_curTipHeight := height\<rparr>, db3), None)"
    using 1(1) 2(1) 3(1) finalizeRebuild_eq [OF tip]
    by (simp add: fastRebuildFromUTXO_def Let_def)
  moreover have "denominator mh = 1"
    using populate_denominator [OF 2(1)] .
  ultimately show ?thesis by blast
qed

section \<open>A failed rebuild leaves the empty index\<close>

lemma bucket_Put_wf: "wf_bucket b \<Longrightarrow> put_in k v b = Inr b' \<Longrightarrow> wf_bucket b'"
  using bkt.put_functional(1) [of b k v] by (auto simp: put_in_def split: sum.splits)

lemma putTxOutMapping_wf_db:
  assumes "wf_db db" and "putTxOutMapping op e a db = Inr db'"
  shows "wf_db db'"
  using assms
  by (auto simp: putTxOutMapping_def bind_r_eq_Inr wf_db_def has_meta_def in_bucket_def
      intro: bucket_Put_wf split: option.splits)

lemma flushBatch_wf_db:
  assumes "wf_db db" and "flushBatch batch db = Inr db'"
  shows "wf_db db'"
  using assms(2) [unfolded flushBatch_def] assms(1)
  by (rule fold_r_invariant) (auto intro: putTxOutMapping_wf_db)

lemma processUTXO_wf_db:
  assumes "wf_db (snd (snd s))"
  shows "case processUTXO idx u s of Inl (e, db) \<Rightarrow> wf_db db | Inr s' \<Rightarrow> wf_db (snd (snd s'))"
  using assms
  by (cases u; cases s)
    (auto simp: processUTXO_def Let_def intro: flushBatch_wf_db split: sum.splits)

lemma processUTXOs_wf_db:
  assumes "wf_db (snd (snd s))"
  shows "case fold_r (processUTXO idx) us s of Inl (e, db) \<Rightarrow> wf_db db | Inr s' \<Rightarrow> wf_db (snd (snd s'))"
  using assms
proof (induction us arbitrary: s)
  case (Cons u us)
  show ?case
  proof (cases "processUTXO idx u s")
    case (Inl a)
    then show ?thesis using processUTXO_wf_db [OF Cons.prems, of idx u] by simp
  next
    case (Inr s')
    then have "wf_db (snd (snd s'))" using processUTXO_wf_db [OF Cons.prems, of idx u] by simp
    then show ?thesis using Cons.IH [of s'] Inr by simp
  qed
qed simp

lemma populate_wf_db:
  assumes "wf_db db"
  shows "case populate idx c db of Inl (e, db') \<Rightarrow> wf_db db' | Inr (mh, db') \<Rightarrow> wf_db db'"
proof -
  obtain us err where it: "utxo_iteration c = (us, err)" by (cases "utxo_iteration c")
  show ?thesis
    using processUTXOs_wf_db [of "(NewMuHash, [], db)" idx us] assms
    by (auto simp: populate_def it intro: flushBatch_wf_db split: sum.splits option.splits)
qed

lemma resetToEmpty_inv:
  assumes "wf_db db"
  shows "\<exists>db'. resetToEmpty (idx, db) = (idx\<lparr>idx_curTipHeight := -1\<rparr>, db')
    \<and> index_inv db' Map.empty NewMuHash 0 (-1)"
  by (rule clearExpiryIndexBuckets_ok [OF assms]) (auto simp: resetToEmpty_def db_update_def)

lemma fastRebuildFromUTXO_error:
  assumes wf: "wf_db db" and err: "fastRebuildFromUTXO (Some c) height (idx, db) = ((idx', db'), Some e)"
  shows "index_inv db' Map.empty NewMuHash 0 (-1) \<and> idx' = idx\<lparr>idx_curTipHeight := -1\<rparr>"
proof -
  obtain db1 where 1: "clearExpiryIndexBuckets db = Inr db1" "index_inv db1 Map.empty NewMuHash 0 (-1)"
    using clearExpiryIndexBuckets_ok [OF wf] by metis
  let ?idx = "idx\<lparr>idx_curTipHeight := -1\<rparr>"
  have wf1: "wf_db db1" using 1(2) by (rule index_inv_wf_db)
  obtain db2 where "wf_db db2" "resetToEmpty (?idx, db2) = (idx', db')"
    using err 1(1) populate_wf_db [OF wf1, of ?idx c]
    by (auto simp: fastRebuildFromUTXO_def Let_def split: sum.splits prod.splits)
  then show ?thesis using resetToEmpty_inv [of db2 ?idx] by auto
qed

section \<open>The index as a state machine\<close>

text \<open>A connected block, whatever its commitment: what its success says.\<close>

lemma ConnectBlock_Inr:
  assumes inv: "index_inv db M mh tipHash tip"
    and en: "\<not> idx_disabled idx" "IsIndexingEnabled (idx_expiryParams idx) (Height block)"
    and h: "is_int32 (Height block)" and ok: "block_ok idx block M"
    and c: "ConnectBlock idx block stxos db = Inr (idx', db')"
  shows "\<exists>mh'. index_inv db' (spec_block idx block M) mh' (BlockHash block) (Height block)
    \<and> idx' = idx\<lparr>idx_curTipHeight := Height block\<rparr>"
proof -
  have rep: "index_rep db M" "represents mh (acc_mset M)" and sn: "snapshot_is mh tipHash tip db"
    using inv by (auto simp: index_inv_def)
  have acc: "dbGetAccumulatorState db = Inr mh" and meta: "has_meta db"
    using sn by (auto simp: snapshot_is_def)
  have "loop_rep (bktExpiryMeta db) (mh, db) M" using rep by (simp add: loop_rep_def)
  from connectTxs_refines [OF this ok [unfolded block_ok_def]]
  obtain mh1 db1 where f: "fold_r (connectTx idx (Height block)) (Transactions block) (mh, db) = Inr (mh1, db1)"
    and r: "index_rep db1 (spec_block idx block M)" "represents mh1 (acc_mset (spec_block idx block M))"
      "bktExpiryMeta db1 = bktExpiryMeta db"
    by (auto simp: spec_block_def loop_rep_def)
  have wf1: "wf_muhash mh1" using r(2) by (simp add: represents_def)
  have meta1: "has_meta db1" using meta has_meta_cong [OF r(3)] by simp
  obtain db2 where p: "putSnapshot mh1 (BlockHash block) (Height block) db1 = Inr db2"
    "same_entries db1 db2" "snapshot_is mh1 (BlockHash block) (Height block) db2"
    using putSnapshot_ok [OF meta1 wf1 h] by metis
  have "idx' = idx\<lparr>idx_curTipHeight := Height block\<rparr>" "db' = db2"
    using c en acc f p(1) by (auto simp: ConnectBlock_def bind_r_eq_Inr)
  then show ?thesis using r p index_rep_same_entries by (auto simp: index_inv_def)
qed

text \<open>
  The states an index reaches, with the map of tracked unspent outputs each stands for.  A block is
  connected when validation has accepted it (\<open>journal_ok\<close>), and disconnected on the state that
  follows it; the index may be rebuilt from the UTXO set of the same map, or reset, at any time.
\<close>

inductive reach :: "ExpiryIndex \<Rightarrow> index_state \<Rightarrow> idx_map \<Rightarrow> bool" for idx0 where
  create: "partial_db db0 \<Longrightarrow> ReindexExpiryIndex db0 = Inr db \<Longrightarrow> reach idx0 (idx0, db) Map.empty"
| connect: "reach idx0 (idx, db) M \<Longrightarrow> journal_ok idx block stxos M \<Longrightarrow> is_int32 (Height block) \<Longrightarrow>
    IsIndexingEnabled (idx_expiryParams idx) (Height block) \<Longrightarrow>
    ConnectBlock idx block stxos db = Inr (idx', db') \<Longrightarrow>
    reach idx0 (idx', db') (spec_block idx block M)"
| disconnect: "reach idx0 (idx, db) (spec_block idx block M) \<Longrightarrow> journal_ok idx block stxos M \<Longrightarrow>
    wf_idx_map M \<Longrightarrow> IsIndexingEnabled (idx_expiryParams idx) (Height block) \<Longrightarrow>
    DisconnectBlock idx block stxos db = Inr (idx', db') \<Longrightarrow>
    reach idx0 (idx', db') M"
| rebuild: "reach idx0 (idx, db) M \<Longrightarrow> utxo_iteration c = (us, None) \<Longrightarrow> utxos_ok idx us \<Longrightarrow>
    rebuild_tip c height h \<Longrightarrow> is_int32 height \<Longrightarrow>
    fastRebuildFromUTXO (Some c) height (idx, db) = ((idx', db'), None) \<Longrightarrow>
    reach idx0 (idx', db') (utxo_map idx us)"
| rebuild_failed: "reach idx0 (idx, db) M \<Longrightarrow>
    fastRebuildFromUTXO (Some c) height (idx, db) = ((idx', db'), Some e) \<Longrightarrow>
    reach idx0 (idx', db') Map.empty"

text \<open>In every reachable state the entries, the accumulator and the metadata agree on one map.\<close>

theorem reach_index_inv:
  assumes "reach idx0 st M" and "\<not> idx_disabled idx0"
  shows "\<exists>mh h n. index_inv (snd st) M mh h n
    \<and> idx_expiryParams (fst st) = idx_expiryParams idx0 \<and> \<not> idx_disabled (fst st)"
  using assms(1)
proof (induction rule: reach.induct)
  case (create db0 db)
  then show ?case using ReindexExpiryIndex_ok [of db0] assms(2) by (metis fst_conv snd_conv sum.inject(2))
next
  case (connect idx db M block stxos idx' db')
  then obtain mh h n where i: "index_inv db M mh h n" "idx_expiryParams idx = idx_expiryParams idx0"
    "\<not> idx_disabled idx" by auto
  from ConnectBlock_Inr [OF i(1,3) connect.hyps(4,3) journal_ok_block_ok [OF connect.hyps(2)] connect.hyps(5)]
  show ?case using i by auto
next
  case (disconnect idx db block M stxos idx' db')
  then obtain mh h n where i: "index_inv db (spec_block idx block M) mh h n"
    "idx_expiryParams idx = idx_expiryParams idx0" "\<not> idx_disabled idx" by auto
  from DisconnectBlock_refines [OF i(1) refl i(3) disconnect.hyps(4) disconnect.hyps(2,3)]
  show ?case using i disconnect.hyps(5) by auto
next
  case (rebuild idx db M c us height h idx' db')
  then obtain mh h' n where i: "index_inv db M mh h' n" "idx_expiryParams idx = idx_expiryParams idx0"
    "\<not> idx_disabled idx" by auto
  from fastRebuildFromUTXO_ok [OF index_inv_wf_db [OF i(1)] rebuild.hyps(2-5)]
  show ?case using i rebuild.hyps(6) by auto
next
  case (rebuild_failed idx db M c height idx' db' e)
  then obtain mh h n where i: "index_inv db M mh h n" "idx_expiryParams idx = idx_expiryParams idx0"
    "\<not> idx_disabled idx" by auto
  from fastRebuildFromUTXO_error [OF index_inv_wf_db [OF i(1)] rebuild_failed.hyps(2)]
  show ?case using i by auto
qed

lemma index_inv_digest:
  assumes "index_inv db M mh h n" and "\<not> idx_disabled idx"
  shows "GetAccumulatorDigest idx db =
    (if coprime (denominator mh) muhashPrime then Inr (mset_digest (acc_mset M)) else Inl ErrMuHashNoInverse)"
  using assms MuHash_Digest_represents [of mh "acc_mset M"]
  by (auto simp: index_inv_def snapshot_is_def GetAccumulatorDigest_def GetAccumulatorSnapshot_def)

end
