(* ===== verification/Tx_Sanity.thy ===== *)
theory Tx_Sanity
  imports Wire_Tx Rule_Error Chaincfg_Obtc
begin

text \<open>
  The context-free checks on a transaction, the finality of a transaction at a height and time, and
  the block subsidy (\<open>blockchain/validate.go\<close>).  A Go time is its Unix time in seconds.
\<close>

definition MaxSatoshi :: int64 where "MaxSatoshi = 2100000000000000"
definition MaxBlockBaseSize :: nat where "MaxBlockBaseSize = 1000000"
definition MinCoinbaseScriptLen :: nat where "MinCoinbaseScriptLen = 2"
definition MaxCoinbaseScriptLen :: nat where "MaxCoinbaseScriptLen = 100"
definition baseSubsidy :: int64 where "baseSubsidy = 5000000000"
definition LockTimeThreshold :: u32 where "LockTimeThreshold = 500000000"

definition isNullOutpoint :: "OutPoint \<Rightarrow> bool" where
  "isNullOutpoint outpoint = (if Index outpoint = 0xffffffff \<and> Hash outpoint = 0 then True else False)"

definition IsFinalizedTransaction :: "MsgTx \<Rightarrow> int32 \<Rightarrow> int64 \<Rightarrow> bool" where
  "IsFinalizedTransaction msgTx height blockTime =
     (if LockTime msgTx = 0 then True
      else
        let blockTimeOrHeight = (if LockTime msgTx < LockTimeThreshold then height else blockTime) in
        if uint (LockTime msgTx) < blockTimeOrHeight then True
        else list_all (\<lambda>txIn. Sequence txIn = 0xffffffff) (TxIn msgTx))"

text \<open>The quotient of two \<open>int32\<close> truncates; as an unsigned shift count a negative one is at least
  \<open>2 ^ 63\<close> and shifts everything out.\<close>

definition CalcBlockSubsidy :: "int32 \<Rightarrow> 'a Params_scheme \<Rightarrow> int64" where
  "CalcBlockSubsidy height chainParams =
     (if SubsidyReductionInterval chainParams = 0 then baseSubsidy
      else
        let q = go_quot height (SubsidyReductionInterval chainParams) in
        if q < 0 then 0 else drop_bit (nat q) baseSubsidy)"

definition checkOutputValue :: "TxOut \<Rightarrow> int64 \<Rightarrow> rule_error + int64" where
  "checkOutputValue txOut totalSatoshi =
     (if Value txOut < 0 then Inl ErrBadTxOutValue
      else if Value txOut > MaxSatoshi then Inl ErrBadTxOutValue
      else
        let total' = wrap64 (totalSatoshi + Value txOut) in
        if total' < 0 then Inl ErrBadTxOutValue
        else if total' > MaxSatoshi then Inl ErrBadTxOutValue
        else Inr total')"

fun checkDuplicateInputs :: "TxIn list \<Rightarrow> OutPoint list \<Rightarrow> rule_error + unit" where
  "checkDuplicateInputs [] existing = Inr ()"
| "checkDuplicateInputs (ti # tis) existing =
     (if PreviousOutPoint ti \<in> set existing then Inl ErrDuplicateTxInputs
      else checkDuplicateInputs tis (PreviousOutPoint ti # existing))"

definition CheckTransactionSanity :: "MsgTx \<Rightarrow> rule_error + unit" where
  "CheckTransactionSanity tx =
     (if TxIn tx = [] then Inl ErrNoTxInputs
      else if TxOut tx = [] then Inl ErrNoTxOutputs
      else if SerializeSizeStripped tx > MaxBlockBaseSize then Inl ErrTxTooBig
      else
        bind_r (fold_r checkOutputValue (TxOut tx) 0) (\<lambda>_.
        bind_r (checkDuplicateInputs (TxIn tx) []) (\<lambda>_.
        if IsCoinBaseTx tx then
          let slen = length (SignatureScript (hd (TxIn tx))) in
          if slen < MinCoinbaseScriptLen \<or> slen > MaxCoinbaseScriptLen then Inl ErrBadCoinbaseScriptLen
          else Inr ()
        else if list_all (\<lambda>txIn. \<not> isNullOutpoint (PreviousOutPoint txIn)) (TxIn tx) then Inr ()
        else Inl ErrBadTxInput)))"

section \<open>Facts\<close>

lemma checkOutputs_Inr:
  assumes "fold_r checkOutputValue outs t = Inr t'" and "0 \<le> t" and "t \<le> MaxSatoshi"
  shows "(\<forall>out \<in> set outs. 0 \<le> Value out) \<and> t' = t + sum_list (map Value outs) \<and> t' \<le> MaxSatoshi"
  using assms
proof (induction outs arbitrary: t)
  case (Cons out outs)
  have w: "wrap64 (t + Value out) = t + Value out" if "0 \<le> Value out" "Value out \<le> MaxSatoshi"
    using that Cons.prems by (intro wrap64_id) (simp add: is_int64_def MaxSatoshi_def)
  from Cons.prems(1) obtain t1 where t1: "checkOutputValue out t = Inr t1"
    and rest: "fold_r checkOutputValue outs t1 = Inr t'"
    by (auto simp: bind_r_eq_Inr)
  from t1 have "0 \<le> Value out" "t1 = t + Value out" "t1 \<le> MaxSatoshi"
    using w by (auto simp: checkOutputValue_def Let_def split: if_splits)
  with Cons.IH [OF rest] Cons.prems(2) show ?case by auto
qed simp

lemma checkOutputs_ok:
  assumes "\<forall>out \<in> set outs. 0 \<le> Value out" and "0 \<le> t" and "t + sum_list (map Value outs) \<le> MaxSatoshi"
  shows "fold_r checkOutputValue outs t = Inr (t + sum_list (map Value outs))"
  using assms
proof (induction outs arbitrary: t)
  case (Cons out outs)
  have nn: "0 \<le> sum_list (map Value outs)" using Cons.prems(1) by (intro sum_list_nonneg) auto
  then have b: "0 \<le> Value out" "Value out \<le> MaxSatoshi" "t + Value out \<le> MaxSatoshi" using Cons.prems by auto
  then have "wrap64 (t + Value out) = t + Value out"
    using Cons.prems(2) by (intro wrap64_id) (simp add: is_int64_def MaxSatoshi_def)
  then have "checkOutputValue out t = Inr (t + Value out)"
    using b Cons.prems(2) by (simp add: checkOutputValue_def Let_def)
  then show ?case using Cons.IH [of "t + Value out"] Cons.prems b by (simp add: add.assoc)
qed simp

lemma checkDuplicateInputs_iff:
  "checkDuplicateInputs tis existing = Inr () \<longleftrightarrow>
     distinct (map PreviousOutPoint tis) \<and> PreviousOutPoint ` set tis \<inter> set existing = {}"
  by (induction tis existing rule: checkDuplicateInputs.induct) auto

lemma CheckTransactionSanity_Inr:
  assumes "CheckTransactionSanity tx = Inr ()"
  shows "TxIn tx \<noteq> []" and "TxOut tx \<noteq> []" and "\<forall>out \<in> set (TxOut tx). 0 \<le> Value out"
    and "sum_list (map Value (TxOut tx)) \<le> MaxSatoshi" and "distinct (map PreviousOutPoint (TxIn tx))"
    and "SerializeSizeStripped tx \<le> MaxBlockBaseSize"
    and "\<not> IsCoinBaseTx tx \<longrightarrow> (\<forall>ti \<in> set (TxIn tx). \<not> isNullOutpoint (PreviousOutPoint ti))"
proof -
  show "TxIn tx \<noteq> []" "TxOut tx \<noteq> []" "SerializeSizeStripped tx \<le> MaxBlockBaseSize"
    using assms by (auto simp: CheckTransactionSanity_def split: if_splits)
  then obtain t where "fold_r checkOutputValue (TxOut tx) 0 = Inr t"
    and d: "checkDuplicateInputs (TxIn tx) [] = Inr ()"
    using assms by (auto simp: CheckTransactionSanity_def bind_r_eq_Inr split: if_splits)
  from checkOutputs_Inr [OF this(1)]
  show "\<forall>out \<in> set (TxOut tx). 0 \<le> Value out" "sum_list (map Value (TxOut tx)) \<le> MaxSatoshi"
    by (simp_all add: MaxSatoshi_def)
  show "distinct (map PreviousOutPoint (TxIn tx))" using d by (simp add: checkDuplicateInputs_iff)
  show "\<not> IsCoinBaseTx tx \<longrightarrow> (\<forall>ti \<in> set (TxIn tx). \<not> isNullOutpoint (PreviousOutPoint ti))"
    using assms by (auto simp: CheckTransactionSanity_def bind_r_eq_Inr list_all_iff split: if_splits)
qed

lemma CheckTransactionSanity_iff:
  "CheckTransactionSanity tx = Inr () \<longleftrightarrow>
     TxIn tx \<noteq> [] \<and> TxOut tx \<noteq> [] \<and> SerializeSizeStripped tx \<le> MaxBlockBaseSize
     \<and> list_all (\<lambda>out. 0 \<le> Value out) (TxOut tx) \<and> sum_list (map Value (TxOut tx)) \<le> MaxSatoshi
     \<and> distinct (map PreviousOutPoint (TxIn tx))
     \<and> (if IsCoinBaseTx tx
        then length (SignatureScript (hd (TxIn tx))) \<in> {MinCoinbaseScriptLen..MaxCoinbaseScriptLen}
        else list_all (\<lambda>ti. \<not> isNullOutpoint (PreviousOutPoint ti)) (TxIn tx))"
    (is "?l \<longleftrightarrow> ?r")
proof
  assume l: ?l
  note i = CheckTransactionSanity_Inr [OF l]
  have "length (SignatureScript (hd (TxIn tx))) \<in> {MinCoinbaseScriptLen..MaxCoinbaseScriptLen}" if "IsCoinBaseTx tx"
    using l that i(1,2,6) by (auto simp: CheckTransactionSanity_def bind_r_eq_Inr Let_def split: if_splits)
  then show ?r using i by (auto simp: list_all_iff)
next
  assume r: ?r
  then have "fold_r checkOutputValue (TxOut tx) 0 = Inr (sum_list (map Value (TxOut tx)))"
    using checkOutputs_ok [of "TxOut tx" 0] by (simp add: list_all_iff)
  moreover have "checkDuplicateInputs (TxIn tx) [] = Inr ()" using r by (simp add: checkDuplicateInputs_iff)
  ultimately show ?l using r by (auto simp: CheckTransactionSanity_def)
qed

lemma CalcBlockSubsidy_bounds: "0 \<le> CalcBlockSubsidy h params \<and> CalcBlockSubsidy h params \<le> baseSubsidy"
proof -
  have "0 \<le> drop_bit n baseSubsidy \<and> drop_bit n baseSubsidy \<le> baseSubsidy" for n
    using zdiv_mono2 [of 5000000000 1 "2 ^ n"]
    by (simp add: baseSubsidy_def drop_bit_eq_div pos_imp_zdiv_nonneg_iff)
  then show ?thesis by (simp add: CalcBlockSubsidy_def Let_def baseSubsidy_def)
qed

section \<open>Properties\<close>

text \<open>C25: a transaction is sane exactly when it has inputs and outputs, fits a block, pays amounts
  that are not negative and together stay below the money limit, spends no output twice, and is a
  coinbase with a script of 2 to 100 bytes or has no null input.  The checks of each output and of
  the running sum reject nothing else: no overflow hides a violation.\<close>

theorem transaction_sanity_exact:
  "CheckTransactionSanity tx = Inr () \<longleftrightarrow>
     TxIn tx \<noteq> [] \<and> TxOut tx \<noteq> [] \<and> SerializeSizeStripped tx \<le> 1000000
     \<and> list_all (\<lambda>out. 0 \<le> Value out) (TxOut tx) \<and> sum_list (map Value (TxOut tx)) \<le> 2100000000000000
     \<and> distinct (map PreviousOutPoint (TxIn tx))
     \<and> (if IsCoinBaseTx tx then length (SignatureScript (hd (TxIn tx))) \<in> {2..100}
        else list_all (\<lambda>ti. \<not> isNullOutpoint (PreviousOutPoint ti)) (TxIn tx))"
  by (simp add: CheckTransactionSanity_iff MaxBlockBaseSize_def MaxSatoshi_def MinCoinbaseScriptLen_def
      MaxCoinbaseScriptLen_def)

end
