(* ===== verification/Reap_Validation.thy ===== *)
theory Reap_Validation
  imports Utxo_View Expiry_Rebuild Go_Strings Tx_Sanity
begin

text \<open>
  The consensus rules for REAP transactions (\<open>blockchain/validation_reap.go\<close>) and the input checks they
  are part of (\<open>CheckTransactionInputs\<close> of \<open>blockchain/validate.go\<close>).

  Go strings are byte strings.  A Go map used as an accumulator is an association list.  \<open>int64\<close> sums
  and products wrap.  The transaction and the view are never nil.  A block always has a coinbase:
  \<open>Transactions()[1:]\<close> is the tail.
\<close>

definition reapTxVersion :: int32 where "reapTxVersion = 3"
definition unminedInputHeight :: int32 where "unminedInputHeight = 0x7fffffff"

section \<open>The marker\<close>

definition extractMarkerPayload :: "bytes \<Rightarrow> bytes option" where
  "extractMarkerPayload pk =
     (case PushedData pk of
        Inl _ \<Rightarrow> None
      | Inr [] \<Rightarrow> None
      | Inr (d # _) \<Rightarrow> Some d)"

definition isLikelyReapTx :: "MsgTx \<Rightarrow> bool" where
  "isLikelyReapTx tx =
     (if Version tx \<noteq> reapTxVersion \<or> length (TxOut tx) < 1 then False
      else
        let markerOut = last (TxOut tx) in
        if Value markerOut \<noteq> 0 then False
        else case extractMarkerPayload (PkScript markerOut) of
          None \<Rightarrow> False
        | Some payload \<Rightarrow> HasPrefix payload (str_bytes ''REAP:''))"

fun findReapFrom :: "nat \<Rightarrow> MsgTx list \<Rightarrow> (MsgTx \<times> nat) option" where
  "findReapFrom i [] = None"
| "findReapFrom i (tx # txs) = (if isLikelyReapTx tx then Some (tx, i) else findReapFrom (Suc i) txs)"

definition findReapTx :: "Block \<Rightarrow> (MsgTx \<times> nat) option" where
  "findReapTx block = findReapFrom 1 (tl (Transactions block))"

definition parseReapMarkerPayload :: "bytes \<Rightarrow> (int32 \<times> int \<times> bytes) option" where
  "parseReapMarkerPayload payload =
     (case Split 0x3a payload of
        [p0, p1, p2, p3] \<Rightarrow>
          if p0 \<noteq> str_bytes ''REAP'' then None
          else (case ParseInt 32 p1 of
            None \<Rightarrow> None
          | Some h \<Rightarrow>
              (case Atoi p2 of
                 None \<Rightarrow> None
               | Some c \<Rightarrow>
                   (case hex_decode p3 of None \<Rightarrow> None | Some _ \<Rightarrow> Some (h, c, p3))))
      | _ \<Rightarrow> None)"

definition reapInputDigest :: "MsgTx \<Rightarrow> bytes" where
  "reapInputDigest tx =
     hex_encode (sha256_bytes (concat (map (\<lambda>ti.
       hash_bytes (Hash (PreviousOutPoint ti)) @ le_bytes 4 (unat (Index (PreviousOutPoint ti)))) (TxIn tx))))"

definition checkReapMarker :: "MsgTx \<Rightarrow> int32 \<Rightarrow> rule_error + unit" where
  "checkReapMarker tx txHeight =
     (if \<not> isLikelyReapTx tx then Inr ()
      else case extractMarkerPayload (PkScript (last (TxOut tx))) of
        None \<Rightarrow> Inl ErrBadTxInput
      | Some payload \<Rightarrow>
          (case parseReapMarkerPayload payload of
             None \<Rightarrow> Inl ErrBadTxInput
           | Some (h, cnt, digest) \<Rightarrow>
               if h \<noteq> txHeight then Inl ErrBadTxInput
               else if cnt \<noteq> int (length (TxIn tx)) then Inl ErrBadTxInput
               else if digest \<noteq> reapInputDigest tx then Inl ErrBadTxInput
               else Inr ()))"

section \<open>Rules on the block\<close>

fun countReapTxs :: "MsgTx list \<Rightarrow> nat \<Rightarrow> rule_error + unit" where
  "countReapTxs [] reapCount = Inr ()"
| "countReapTxs (tx # txs) reapCount =
     (if \<not> isLikelyReapTx tx then countReapTxs txs reapCount
      else if reapCount + 1 > 1 then Inl ErrMultipleReapTx
      else countReapTxs txs (reapCount + 1))"

definition checkReapBlockHardening :: "Block \<Rightarrow> int32 \<Rightarrow> 'a Params_scheme \<Rightarrow> rule_error + unit" where
  "checkReapBlockHardening block height chainParams =
     (case GetExpiryParams chainParams of
        None \<Rightarrow> Inr ()
      | Some p \<Rightarrow> if height < ReapConsensusAtHeight p then Inr ()
                  else countReapTxs (tl (Transactions block)) 0)"

text \<open>The interface \<open>ReapPrefixSource\<close>, at one state of the source.\<close>

record ReapPrefixSource =
  src_TipHeight :: "index_error + int32"
  src_Candidates :: "int32 \<Rightarrow> int \<Rightarrow> index_error + ReapPrefixCandidate list"

definition from_source :: "index_error + 'a \<Rightarrow> rule_error + 'a" where
  "from_source r = (case r of Inl e \<Rightarrow> Inl (ErrSource e) | Inr x \<Rightarrow> Inr x)"

fun comparePrefix :: "TxIn list \<Rightarrow> ReapPrefixCandidate list \<Rightarrow> rule_error + unit" where
  "comparePrefix [] expected = Inr ()"
| "comparePrefix (ti # tis) (c # cs) =
     (if PreviousOutPoint ti \<noteq> cand_OutPoint c then Inl ErrBadReapPrefix else comparePrefix tis cs)"
| "comparePrefix (ti # tis) [] = Inl ErrIndexOutOfRange"

definition checkReapGlobalPrefix ::
    "Block \<Rightarrow> int32 \<Rightarrow> ReapPrefixSource option \<Rightarrow> 'a Params_scheme \<Rightarrow> rule_error + unit" where
  "checkReapGlobalPrefix block height source chainParams =
     (case GetExpiryParams chainParams of
        None \<Rightarrow> Inr ()
      | Some p \<Rightarrow>
          if height < ReapConsensusAtHeight p then Inr ()
          else case findReapTx block of
            None \<Rightarrow> Inr ()
          | Some (reapTx, txIndex) \<Rightarrow>
              let inputCount = length (TxIn reapTx) in
              case source of
                None \<Rightarrow> Inl ErrBadReapPrefix
              | Some src \<Rightarrow>
                  bind_r (from_source (src_TipHeight src)) (\<lambda>tipHeight.
                  if tipHeight \<noteq> wrap32 (height - 1) then Inl ErrBadReapPrefix
                  else if inputCount = 0 then Inr ()
                  else
                    bind_r (from_source (src_Candidates src height (int inputCount))) (\<lambda>expected.
                    if length expected < inputCount then Inl ErrBadReapPrefix
                    else comparePrefix (TxIn reapTx) expected)))"

section \<open>Rules on a transaction\<close>

definition makeReapInputOrderKey ::
    "OutPoint \<Rightarrow> UtxoViewpoint \<Rightarrow> 'a ExpiryParams_scheme \<Rightarrow> reapInputOrderKey option" where
  "makeReapInputOrderKey outpoint utxoView p =
     (case LookupEntry utxoView outpoint of
        None \<Rightarrow> None
      | Some utxo \<Rightarrow>
          if IsSpent utxo then None
          else Some \<lparr>ok_expiry = CalculateExpiryKey p (blockHeight utxo), ok_amount = amount utxo,
                     ok_op = outpoint\<rparr>)"

definition isReapDustTierAmount :: "int64 \<Rightarrow> 'a ExpiryParams_scheme \<Rightarrow> bool" where
  "isReapDustTierAmount v p \<longleftrightarrow>
     ReapDustThresholdSat p > 0 \<and> v > 0 \<and> v < ReapDustThresholdSat p"

text \<open>The loop over the inputs; \<open>twoTier\<close> is \<open>twoTierLimits\<close>.\<close>

fun hardeningLoop :: "UtxoViewpoint \<Rightarrow> 'a ExpiryParams_scheme \<Rightarrow> bool \<Rightarrow> TxIn list \<Rightarrow>
    reapInputOrderKey option \<Rightarrow> int \<Rightarrow> int \<Rightarrow> rule_error + unit" where
  "hardeningLoop utxoView p twoTier [] prevKey dustCount normalCount = Inr ()"
| "hardeningLoop utxoView p twoTier (txIn # txIns) prevKey dustCount normalCount =
     (case makeReapInputOrderKey (PreviousOutPoint txIn) utxoView p of
        None \<Rightarrow> Inl ErrMissingTxOut
      | Some curKey \<Rightarrow>
          if (case prevKey of None \<Rightarrow> False | Some k \<Rightarrow> compareReapInputOrderKey k curKey > 0)
          then Inl ErrBadTxInput
          else if twoTier then
            let dustTier = isReapDustTierAmount (ok_amount curKey) p in
            if dustTier \<and> dustCount \<ge> ReapDustMaxInputs p then Inl ErrBadTxInput
            else if \<not> dustTier \<and> normalCount \<ge> ReapMaxInputs p then Inl ErrBadTxInput
            else if dustCount \<ge> ReapDustMaxInputs p \<or> normalCount \<ge> ReapMaxInputs p then Inl ErrBadTxInput
            else hardeningLoop utxoView p twoTier txIns (Some curKey)
                   (if dustTier then dustCount + 1 else dustCount)
                   (if dustTier then normalCount else normalCount + 1)
          else hardeningLoop utxoView p twoTier txIns (Some curKey) dustCount normalCount)"

definition checkReapConsensusHardening ::
    "MsgTx \<Rightarrow> int32 \<Rightarrow> UtxoViewpoint \<Rightarrow> 'a Params_scheme \<Rightarrow> rule_error + unit" where
  "checkReapConsensusHardening tx txHeight utxoView chainParams =
     (if \<not> isLikelyReapTx tx then Inr ()
      else case GetExpiryParams chainParams of
        None \<Rightarrow> Inr ()
      | Some p \<Rightarrow>
          if txHeight < ReapConsensusAtHeight p then Inr ()
          else if ReapMaxWeight p > 0 \<and> GetTransactionWeight tx > ReapMaxWeight p then Inl ErrBadTxInput
          else
            let twoTierLimits = ReapDustMaxInputs p > 0 in
            if \<not> twoTierLimits \<and> ReapMaxInputs p > 0 \<and> int (length (TxIn tx)) > ReapMaxInputs p
            then Inl ErrBadTxInput
            else hardeningLoop utxoView p twoTierLimits (TxIn tx) None 0 0)"

definition reapTaxForValue :: "int64 \<Rightarrow> 'a ExpiryParams_scheme \<Rightarrow> int64" where
  "reapTaxForValue v p =
     (if v \<le> 0 \<or> ReapTaxDenominator p \<le> 0 \<or> ReapTaxNumerator p \<le> 0 then 0
      else go_quot (wrap64 (v * ReapTaxNumerator p)) (ReapTaxDenominator p))"

definition applyReapDustRule :: "int64 \<Rightarrow> int64 \<Rightarrow> int64 \<Rightarrow> 'a ExpiryParams_scheme \<Rightarrow> int64 \<times> int64" where
  "applyReapDustRule v refund tax p =
     (if ReapDustThresholdSat p \<le> 0 then (refund, tax)
      else if v > 0 \<and> v < ReapDustThresholdSat p then (0, v)
      else (refund, tax))"

text \<open>\<open>m[k] += v\<close> on an association list.\<close>

fun add_to :: "bytes \<Rightarrow> int64 \<Rightarrow> (bytes \<times> int64) list \<Rightarrow> (bytes \<times> int64) list" where
  "add_to k v [] = [(k, wrap64 v)]"
| "add_to k v ((k', v') # m) = (if k = k' then (k, wrap64 (v' + v)) # m else (k', v') # add_to k v m)"

fun expectedRefunds :: "UtxoViewpoint \<Rightarrow> 'a ExpiryParams_scheme \<Rightarrow> TxIn list \<Rightarrow>
    (bytes \<times> int64) list \<Rightarrow> int64 \<Rightarrow> rule_error + ((bytes \<times> int64) list \<times> int64)" where
  "expectedRefunds utxoView p [] m sm = Inr (m, sm)"
| "expectedRefunds utxoView p (txIn # txIns) m sm =
     (case LookupEntry utxoView (PreviousOutPoint txIn) of
        None \<Rightarrow> Inl ErrMissingTxOut
      | Some utxo \<Rightarrow>
          if IsSpent utxo then Inl ErrMissingTxOut
          else
            let v = amount utxo; tax = reapTaxForValue v p; refund = wrap64 (v - tax) in
            if refund < 0 then Inl ErrBadTxOutValue
            else
              let (refund, _) = applyReapDustRule v refund tax p;
                  m = (if refund > 0 then add_to (pkScript utxo) refund m else m)
              in expectedRefunds utxoView p txIns m (wrap64 (sm + refund)))"

fun actualRefunds :: "TxOut list \<Rightarrow> (bytes \<times> int64) list \<Rightarrow> int64 \<Rightarrow>
    rule_error + ((bytes \<times> int64) list \<times> int64)" where
  "actualRefunds [] m sm = Inr (m, sm)"
| "actualRefunds (txOut # txOuts) m sm =
     (if Value txOut \<le> 0 then Inl ErrBadTxOutValue
      else actualRefunds txOuts (add_to (PkScript txOut) (Value txOut) m) (wrap64 (sm + Value txOut)))"

definition checkReapTaxRules ::
    "MsgTx \<Rightarrow> int32 \<Rightarrow> UtxoViewpoint \<Rightarrow> 'a Params_scheme \<Rightarrow> rule_error + unit" where
  "checkReapTaxRules tx txHeight utxoView chainParams =
     (if \<not> isLikelyReapTx tx then Inr ()
      else case GetExpiryParams chainParams of
        None \<Rightarrow> Inr ()
      | Some p \<Rightarrow>
          if txHeight < EnableAtHeight p then Inr ()
          else
            bind_r (expectedRefunds utxoView p (TxIn tx) [] 0) (\<lambda>(expectedByScript, expectedTotal).
            bind_r (actualRefunds (butlast (TxOut tx)) [] 0) (\<lambda>(actualByScript, actualTotal).
            if actualTotal \<noteq> expectedTotal then Inl ErrBadTxOutValue
            else if length actualByScript \<noteq> length expectedByScript then Inl ErrBadTxOutValue
            else if list_all (\<lambda>(script, expected). map_of actualByScript script = Some expected) expectedByScript
            then Inr () else Inl ErrBadTxOutValue)))"

definition isExpiredAt :: "'a ExpiryParams_scheme \<Rightarrow> int32 \<Rightarrow> int32 \<Rightarrow> bool" where
  "isExpiredAt p createHeight txHeight \<longleftrightarrow> wrap32 (uint (CalculateExpiryKey p createHeight)) \<le> txHeight"

definition checkExpiryInput ::
    "bool \<Rightarrow> int32 \<Rightarrow> UtxoViewpoint \<Rightarrow> 'a ExpiryParams_scheme \<Rightarrow> TxIn \<Rightarrow> rule_error + unit" where
  "checkExpiryInput isReap txHeight utxoView p txIn =
     (case LookupEntry utxoView (PreviousOutPoint txIn) of
        None \<Rightarrow> Inl ErrMissingTxOut
      | Some utxo \<Rightarrow>
          if IsSpent utxo then Inl ErrMissingTxOut
          else if blockHeight utxo = unminedInputHeight then
            (if isReap then Inl ErrBadTxInput else Inr ())
          else
            let expired = isExpiredAt p (blockHeight utxo) txHeight in
            if isReap \<and> \<not> expired then Inl ErrBadTxInput
            else if \<not> isReap \<and> expired then Inl ErrBadTxInput
            else Inr ())"

definition checkExpirySpendRules ::
    "MsgTx \<Rightarrow> int32 \<Rightarrow> UtxoViewpoint \<Rightarrow> 'a Params_scheme \<Rightarrow> rule_error + unit" where
  "checkExpirySpendRules tx txHeight utxoView chainParams =
     (case GetExpiryParams chainParams of
        None \<Rightarrow> Inr ()
      | Some p \<Rightarrow>
          if txHeight < EnableAtHeight p then Inr ()
          else fold_r (\<lambda>txIn _. checkExpiryInput (isLikelyReapTx tx) txHeight utxoView p txIn) (TxIn tx) ())"

section \<open>The input checks\<close>

definition sumInput :: "int32 \<Rightarrow> UtxoViewpoint \<Rightarrow> 'a Params_scheme \<Rightarrow> TxIn \<Rightarrow> int64 \<Rightarrow> rule_error + int64" where
  "sumInput txHeight utxoView chainParams txIn totalSatoshiIn =
     (case LookupEntry utxoView (PreviousOutPoint txIn) of
        None \<Rightarrow> Inl ErrMissingTxOut
      | Some utxo \<Rightarrow>
          if IsSpent utxo then Inl ErrMissingTxOut
          else if IsCoinBase utxo \<and> wrap32 (txHeight - blockHeight utxo) < uint (CoinbaseMaturity chainParams)
          then Inl ErrImmatureSpend
          else if amount utxo < 0 then Inl ErrBadTxOutValue
          else if amount utxo > MaxSatoshi then Inl ErrBadTxOutValue
          else
            let total' = wrap64 (totalSatoshiIn + amount utxo) in
            if total' < totalSatoshiIn \<or> total' > MaxSatoshi then Inl ErrBadTxOutValue
            else Inr total')"

definition sumOutputs :: "TxOut list \<Rightarrow> int64" where
  "sumOutputs outs = fold (\<lambda>txOut s. wrap64 (s + Value txOut)) outs 0"

definition CheckTransactionInputs ::
    "MsgTx \<Rightarrow> int32 \<Rightarrow> UtxoViewpoint \<Rightarrow> 'a Params_scheme \<Rightarrow> rule_error + int64" where
  "CheckTransactionInputs tx txHeight utxoView chainParams =
     (if IsCoinBaseTx tx then Inr 0
      else
        bind_r (checkReapMarker tx txHeight) (\<lambda>_.
        bind_r (checkExpirySpendRules tx txHeight utxoView chainParams) (\<lambda>_.
        bind_r (checkReapConsensusHardening tx txHeight utxoView chainParams) (\<lambda>_.
        bind_r (checkReapTaxRules tx txHeight utxoView chainParams) (\<lambda>_.
        bind_r (fold_r (sumInput txHeight utxoView chainParams) (TxIn tx) 0) (\<lambda>totalSatoshiIn.
        let totalSatoshiOut = sumOutputs (TxOut tx) in
        if totalSatoshiIn < totalSatoshiOut then Inl ErrSpendTooHigh
        else Inr (wrap64 (totalSatoshiIn - totalSatoshiOut))))))))"

section \<open>The global prefix\<close>

text \<open>
  What the rule relies on: a source whose state stands for a map of tracked outputs, and which lists
  the expired ones of them in canonical order.
\<close>

locale reap_prefix_source =
  fixes src :: "'s \<Rightarrow> ReapPrefixSource"
    and stands_for :: "'s \<Rightarrow> idx_map \<Rightarrow> bool"
    and tip :: "'s \<Rightarrow> int32"
  assumes tip_ok: "stands_for s M \<Longrightarrow> src_TipHeight (src s) = Inr (tip s)"
    and candidates_ok: "stands_for s M \<Longrightarrow> 0 < limit \<Longrightarrow> 0 \<le> h \<Longrightarrow>
      \<exists>cs. src_Candidates (src s) h limit = Inr (take (nat limit) cs)
        \<and> set cs = {c \<in> candidates_of M. cand_ExpiryKey c \<le> of_int h} \<and> canonical_order cs"
    and map_ok: "stands_for s M \<Longrightarrow> wf_idx_map M"
begin

lemma comparePrefix_iff:
  "length tis \<le> length cs \<Longrightarrow>
     comparePrefix tis cs = Inr () \<longleftrightarrow> map PreviousOutPoint tis = map cand_OutPoint (take (length tis) cs)"
  by (induction tis cs rule: comparePrefix.induct) auto

lemma checkReapGlobalPrefix_iff:
  assumes s: "stands_for s M" and p: "GetExpiryParams params = Some p"
    and h: "ReapConsensusAtHeight p \<le> h" "0 \<le> h" and f: "findReapTx block = Some (tx, i)"
    and ne: "TxIn tx \<noteq> []"
    and cs: "set cs = {c \<in> candidates_of M. cand_ExpiryKey c \<le> of_int h}" "canonical_order cs"
  shows "checkReapGlobalPrefix block h (Some (src s)) params = Inr () \<longleftrightarrow>
    tip s = wrap32 (h - 1) \<and> length (TxIn tx) \<le> length cs
    \<and> map PreviousOutPoint (TxIn tx) = map cand_OutPoint (take (length (TxIn tx)) cs)"
proof -
  let ?n = "length (TxIn tx)"
  obtain ds where ds: "src_Candidates (src s) h (int ?n) = Inr (take ?n ds)"
    "set ds = {c \<in> candidates_of M. cand_ExpiryKey c \<le> of_int h}" "canonical_order ds"
    using candidates_ok [OF s _ h(2), of "int ?n"] ne by auto
  have "\<forall>c \<in> set cs. valid_amount (cand_Amount c)"
    using map_ok [OF s] cs(1) by (auto simp: candidates_of_def wf_idx_map_def)
  then have "ds = cs" using canonical_order_unique [OF cs(2) ds(3)] cs(1) ds(2) by simp
  then show ?thesis
    using p h f ne ds(1) tip_ok [OF s] comparePrefix_iff [of "TxIn tx" "take ?n cs"]
    by (auto simp: checkReapGlobalPrefix_def from_source_def Let_def min_def)
qed

end

definition index_source :: "index_state \<Rightarrow> ReapPrefixSource" where
  "index_source = (\<lambda>(idx, db). \<lparr>src_TipHeight = ReapPrefixTipHeight idx db,
     src_Candidates = (\<lambda>h limit. ReapPrefixCandidates idx h limit db)\<rparr>)"

definition index_stands_for :: "index_state \<Rightarrow> idx_map \<Rightarrow> bool" where
  "index_stands_for = (\<lambda>(idx, db) M. \<not> idx_disabled idx \<and> (\<exists>mh h n. index_inv db M mh h n))"

definition index_tip :: "index_state \<Rightarrow> int32" where
  "index_tip = (\<lambda>(idx, db). case dbGetTipHeightIndexed db of Inr n \<Rightarrow> n | Inl _ \<Rightarrow> -1)"

interpretation idx_src: reap_prefix_source index_source index_stands_for index_tip
proof unfold_locales
  fix s M and limit h :: int
  assume "index_stands_for s M"
  then obtain idx db mh h0 n where s: "s = (idx, db)" "\<not> idx_disabled idx" and i: "index_inv db M mh h0 n"
    by (cases s) (auto simp: index_stands_for_def)
  then have rep: "index_rep db M" and sn: "snapshot_is mh h0 n db" by (auto simp: index_inv_def)
  show "src_TipHeight (index_source s) = Inr (index_tip s)"
    using s sn by (simp add: index_source_def index_tip_def ReapPrefixTipHeight_def snapshot_is_def)
  show "wf_idx_map M" using rep by (simp add: index_rep_def)
  assume "0 < limit" "0 \<le> h"
  then obtain cs where "ReapPrefixCandidates idx h limit db = Inr (take (nat limit) cs)"
    "set cs = {c \<in> candidates_of M. cand_ExpiryKey c \<le> of_int h}" "canonical_order cs"
    by (rule ReapPrefixCandidates_spec [OF rep s(2)])
  moreover have "src_Candidates (index_source s) h limit = ReapPrefixCandidates idx h limit db"
    by (simp add: s(1) index_source_def)
  ultimately show "\<exists>cs. src_Candidates (index_source s) h limit = Inr (take (nat limit) cs)
        \<and> set cs = {c \<in> candidates_of M. cand_ExpiryKey c \<le> of_int h} \<and> canonical_order cs"
    by (intro exI [of _ cs]) simp
qed

end
