(* ===== verification/Reap_Rules.thy ===== *)
theory Reap_Rules
  imports Reap_Validation
begin

text \<open>
  What the REAP rules accept: each check of \<open>Reap_Validation\<close> is characterised by a condition on the
  outputs a transaction spends and on what it pays.
\<close>

section \<open>The outputs a transaction spends\<close>

definition live_entry :: "UtxoViewpoint \<Rightarrow> TxIn \<Rightarrow> UtxoEntry option" where
  "live_entry view ti = (case LookupEntry view (PreviousOutPoint ti) of
     None \<Rightarrow> None | Some e \<Rightarrow> if IsSpent e then None else Some e)"

definition spends_entries :: "UtxoViewpoint \<Rightarrow> TxIn list \<Rightarrow> UtxoEntry list \<Rightarrow> bool" where
  "spends_entries view tis es \<longleftrightarrow> map (live_entry view) tis = map Some es"

lemma live_entry_Some_iff:
  "live_entry view ti = Some e \<longleftrightarrow> LookupEntry view (PreviousOutPoint ti) = Some e \<and> \<not> IsSpent e"
  by (auto simp: live_entry_def split: option.splits)

lemma spends_entries_Nil [simp]: "spends_entries view [] es \<longleftrightarrow> es = []"
  by (auto simp: spends_entries_def)

lemma spends_entries_Cons:
  "spends_entries view (ti # tis) es \<longleftrightarrow>
     (\<exists>e es'. es = e # es' \<and> live_entry view ti = Some e \<and> spends_entries view tis es')"
  by (cases es) (auto simp: spends_entries_def)

lemma spends_entries_unique:
  "spends_entries view tis es \<Longrightarrow> spends_entries view tis es' \<Longrightarrow> es = es'"
  by (simp add: spends_entries_def)

lemma spends_entries_length: "spends_entries view tis es \<Longrightarrow> length es = length tis"
  by (metis length_map spends_entries_def)

section \<open>Input values\<close>

definition mature :: "'a Params_scheme \<Rightarrow> int32 \<Rightarrow> UtxoEntry \<Rightarrow> bool" where
  "mature params h e \<longleftrightarrow> (IsCoinBase e \<longrightarrow> uint (CoinbaseMaturity params) \<le> wrap32 (h - blockHeight e))"

abbreviation total_amount :: "UtxoEntry list \<Rightarrow> int" where
  "total_amount es \<equiv> sum_list (map amount es)"

lemma sumInput_Inr_iff:
  assumes "0 \<le> t" and "t \<le> MaxSatoshi"
  shows "sumInput h view params ti t = Inr t' \<longleftrightarrow>
    (\<exists>e. live_entry view ti = Some e \<and> mature params h e \<and> 0 \<le> amount e \<and> t' = t + amount e
       \<and> t + amount e \<le> MaxSatoshi)"
proof -
  have w: "wrap64 (t + v) = t + v" if "0 \<le> v" "v \<le> MaxSatoshi" for v
    using that assms by (intro wrap64_id) (simp add: is_int64_def MaxSatoshi_def)
  show ?thesis
    using assms w
    by (auto simp: sumInput_def live_entry_def mature_def Let_def split: option.splits if_splits)
qed

lemma sumInputs_Inr_iff:
  assumes "0 \<le> t" and "t \<le> MaxSatoshi"
  shows "fold_r (sumInput h view params) tis t = Inr t' \<longleftrightarrow>
    (\<exists>es. spends_entries view tis es \<and> (\<forall>e \<in> set es. mature params h e \<and> 0 \<le> amount e)
       \<and> t' = t + total_amount es \<and> t' \<le> MaxSatoshi)"
  using assms
proof (induction tis arbitrary: t)
  case (Cons ti tis)
  have mono: "0 \<le> total_amount es" if "\<forall>e \<in> set es. mature params h e \<and> 0 \<le> amount e" for es
    using that by (induction es) auto
  have IH: "fold_r (sumInput h view params) tis (t + amount e) = Inr t' \<longleftrightarrow>
      (\<exists>es. spends_entries view tis es \<and> (\<forall>e \<in> set es. mature params h e \<and> 0 \<le> amount e)
         \<and> t' = t + amount e + total_amount es \<and> t' \<le> MaxSatoshi)"
    if "0 \<le> amount e" "t + amount e \<le> MaxSatoshi" for e
    using Cons.IH [of "t + amount e"] that Cons.prems by simp
  show ?case
  proof
    assume "fold_r (sumInput h view params) (ti # tis) t = Inr t'"
    then obtain e where "live_entry view ti = Some e" "mature params h e" "0 \<le> amount e"
      "t + amount e \<le> MaxSatoshi" "fold_r (sumInput h view params) tis (t + amount e) = Inr t'"
      by (auto simp: bind_r_eq_Inr sumInput_Inr_iff [OF Cons.prems])
    with IH show "\<exists>es. spends_entries view (ti # tis) es \<and> (\<forall>e \<in> set es. mature params h e \<and> 0 \<le> amount e)
       \<and> t' = t + total_amount es \<and> t' \<le> MaxSatoshi"
      by (fastforce simp: spends_entries_Cons)
  next
    assume "\<exists>es. spends_entries view (ti # tis) es \<and> (\<forall>e \<in> set es. mature params h e \<and> 0 \<le> amount e)
       \<and> t' = t + total_amount es \<and> t' \<le> MaxSatoshi"
    then obtain e es where e: "live_entry view ti = Some e" "mature params h e" "0 \<le> amount e"
      and es: "spends_entries view tis es" "\<forall>e \<in> set es. mature params h e \<and> 0 \<le> amount e"
      "t' = t + amount e + total_amount es" "t' \<le> MaxSatoshi"
      by (auto simp: spends_entries_Cons)
    have le: "t + amount e \<le> MaxSatoshi" using mono [OF es(2)] es(3,4) by simp
    then have "sumInput h view params ti t = Inr (t + amount e)"
      using e by (simp add: sumInput_Inr_iff [OF Cons.prems])
    then show "fold_r (sumInput h view params) (ti # tis) t = Inr t'"
      using IH [OF e(3) le] es by auto
  qed
qed auto

lemma sumOutputs_sane:
  assumes "\<forall>out \<in> set outs. 0 \<le> Value out" and "sum_list (map Value outs) \<le> MaxSatoshi"
  shows "sumOutputs outs = sum_list (map Value outs)"
proof -
  have "fold (\<lambda>out s. wrap64 (s + Value out)) outs t = t + sum_list (map Value outs)"
    if "0 \<le> t" "t + sum_list (map Value outs) \<le> MaxSatoshi" for t
    using that assms(1)
  proof (induction outs arbitrary: t)
    case (Cons out outs)
    have "0 \<le> sum_list (map Value outs)" using Cons.prems(3) by (intro sum_list_nonneg) auto
    then have "wrap64 (t + Value out) = t + Value out"
      using Cons.prems by (intro wrap64_id) (auto simp: is_int64_def MaxSatoshi_def)
    then show ?case using Cons by simp
  qed simp
  from this [of 0] assms(2) show ?thesis by (simp add: sumOutputs_def)
qed

section \<open>Taxes\<close>

definition dust :: "'a ExpiryParams_scheme \<Rightarrow> UtxoEntry \<Rightarrow> bool" where
  "dust p e \<longleftrightarrow> isReapDustTierAmount (amount e) p"

text \<open>What the owner of an expired output gets back, and what is taken.\<close>

definition tax_of :: "'a ExpiryParams_scheme \<Rightarrow> UtxoEntry \<Rightarrow> int" where
  "tax_of p e = (if dust p e then amount e
     else amount e * ReapTaxNumerator p div ReapTaxDenominator p)"

definition refund_of :: "'a ExpiryParams_scheme \<Rightarrow> UtxoEntry \<Rightarrow> int" where
  "refund_of p e = amount e - tax_of p e"

lemma reapTaxForValue_eq:
  assumes "wf_expiry_params p" and "0 \<le> v" and "v \<le> MaxSatoshi"
  shows "reapTaxForValue v p = v * ReapTaxNumerator p div ReapTaxDenominator p"
    and "0 \<le> reapTaxForValue v p" and "reapTaxForValue v p \<le> v"
proof -
  have p: "0 < ReapTaxNumerator p" "ReapTaxNumerator p < ReapTaxDenominator p" "ReapTaxDenominator p \<le> 100"
    using assms(1) by (simp_all add: wf_expiry_params_def)
  have "v * ReapTaxNumerator p \<le> MaxSatoshi * 100"
    using assms(2,3) p by (intro mult_mono) (auto simp: MaxSatoshi_def)
  moreover have "0 \<le> v * ReapTaxNumerator p" using assms(2) p by simp
  ultimately have w: "wrap64 (v * ReapTaxNumerator p) = v * ReapTaxNumerator p"
    by (intro wrap64_id) (simp add: is_int64_def MaxSatoshi_def)
  show eq: "reapTaxForValue v p = v * ReapTaxNumerator p div ReapTaxDenominator p"
    using assms(2) p w by (auto simp: reapTaxForValue_def)
  show "0 \<le> reapTaxForValue v p" using eq assms(2) p by (simp add: pos_imp_zdiv_nonneg_iff)
  have "v * ReapTaxNumerator p \<le> v * ReapTaxDenominator p" using assms(2) p by (intro mult_left_mono) auto
  then have "v * ReapTaxNumerator p div ReapTaxDenominator p \<le> v * ReapTaxDenominator p div ReapTaxDenominator p"
    using p by (intro zdiv_mono1) auto
  then show "reapTaxForValue v p \<le> v" using eq p by simp
qed

lemma tax_of_bounds:
  assumes "wf_expiry_params p" and "0 \<le> amount e" and "amount e \<le> MaxSatoshi"
  shows "0 \<le> tax_of p e" and "tax_of p e \<le> amount e" and "0 \<le> refund_of p e" and "refund_of p e \<le> amount e"
  using reapTaxForValue_eq [OF assms] assms(2)
  by (auto simp: tax_of_def refund_of_def)

lemma refund_rule:
  assumes "wf_expiry_params p" and "0 \<le> amount e" and "amount e \<le> MaxSatoshi"
  shows "wrap64 (amount e - reapTaxForValue (amount e) p) = amount e - reapTaxForValue (amount e) p"
    and "applyReapDustRule (amount e) (amount e - reapTaxForValue (amount e) p)
           (reapTaxForValue (amount e) p) p = (refund_of p e, tax_of p e)"
proof -
  show "wrap64 (amount e - reapTaxForValue (amount e) p) = amount e - reapTaxForValue (amount e) p"
    using reapTaxForValue_eq [OF assms] assms
    by (intro wrap64_id) (simp add: is_int64_def MaxSatoshi_def)
  show "applyReapDustRule (amount e) (amount e - reapTaxForValue (amount e) p)
           (reapTaxForValue (amount e) p) p = (refund_of p e, tax_of p e)"
    using reapTaxForValue_eq(1) [OF assms]
    by (auto simp: applyReapDustRule_def refund_of_def tax_of_def dust_def isReapDustTierAmount_def)
qed

section \<open>Refunds by script\<close>

text \<open>What a list of payments gives a script.\<close>

definition paid_to :: "(bytes \<times> int) list \<Rightarrow> bytes \<Rightarrow> int" where
  "paid_to ps s = sum_list (map snd (filter (\<lambda>(k, v). k = s) ps))"

lemma paid_to_Nil [simp]: "paid_to [] s = 0"
  by (simp add: paid_to_def)

lemma paid_to_Cons [simp]: "paid_to ((k, v) # ps) s = (if k = s then v else 0) + paid_to ps s"
  by (simp add: paid_to_def)

lemma paid_to_bounds:
  assumes "\<forall>(k, v) \<in> set ps. 0 \<le> v"
  shows "0 \<le> paid_to ps s" and "paid_to ps s \<le> sum_list (map snd ps)"
  using assms by (induction ps) (auto simp: paid_to_def)

lemma paid_to_pos_iff:
  assumes "\<forall>(k, v) \<in> set ps. 0 < v"
  shows "paid_to ps s = 0 \<longleftrightarrow> s \<notin> fst ` set ps"
  using assms
proof (induction ps)
  case (Cons kv ps)
  obtain k v where kv: "kv = (k, v)" by (cases kv)
  have "0 \<le> paid_to ps s" using Cons.prems by (intro paid_to_bounds) auto
  then show ?case using Cons kv by auto
qed simp

abbreviation add_all :: "(bytes \<times> int) list \<Rightarrow> (bytes \<times> int64) list \<Rightarrow> (bytes \<times> int64) list" where
  "add_all ps m \<equiv> fold (\<lambda>(k, v). add_to k v) ps m"

lemma map_of_add_to:
  "map_of (add_to k v m) = (map_of m)(k \<mapsto> wrap64 ((case map_of m k of None \<Rightarrow> 0 | Some v' \<Rightarrow> v') + v))"
  by (induction k v m rule: add_to.induct) auto

lemma keys_add_to: "fst ` set (add_to k v m) = insert k (fst ` set m)"
  by (induction k v m rule: add_to.induct) auto

lemma distinct_add_to: "distinct (map fst m) \<Longrightarrow> distinct (map fst (add_to k v m))"
  by (induction k v m rule: add_to.induct) (auto simp: keys_add_to)

lemma distinct_add_all: "distinct (map fst m) \<Longrightarrow> distinct (map fst (add_all ps m))"
  by (induction ps arbitrary: m) (auto simp: distinct_add_to)

lemma map_of_add_all:
  assumes "\<forall>(k, v) \<in> set ps. 0 < v" and "qs = [] \<or> (\<forall>(k, v) \<in> set qs. 0 < v)"
    and "sum_list (map snd (qs @ ps)) \<le> MaxSatoshi"
    and "\<forall>s. map_of m s = (if paid_to qs s = 0 then None else Some (paid_to qs s))"
  shows "map_of (add_all ps m) s = (if paid_to (qs @ ps) s = 0 then None else Some (paid_to (qs @ ps) s))"
  using assms
proof (induction ps arbitrary: m qs)
  case (Cons kv ps)
  obtain k v where kv: "kv = (k, v)" by (cases kv)
  have pos: "\<forall>(k, v) \<in> set (qs @ kv # ps). 0 < v" using Cons.prems(1,2) by auto
  then have nonneg: "\<forall>(k, v) \<in> set qs. 0 \<le> v" "\<forall>(k, v) \<in> set (qs @ [kv]). 0 \<le> v"
    "\<forall>v \<in> set (map snd ps). 0 \<le> v"
    unfolding case_prod_beta by (simp_all add: order.strict_implies_order)
  have app: "paid_to (qs @ [kv]) s = paid_to qs s + (if k = s then v else 0)" for s
    by (simp add: paid_to_def kv)
  have b: "0 \<le> paid_to qs k" "paid_to (qs @ [kv]) k \<le> MaxSatoshi"
  proof -
    show "0 \<le> paid_to qs k" by (rule paid_to_bounds [OF nonneg(1)])
    have "paid_to (qs @ [kv]) k \<le> sum_list (map snd (qs @ [kv]))"
      by (rule paid_to_bounds [OF nonneg(2)])
    also have "\<dots> \<le> sum_list (map snd (qs @ kv # ps))"
      using sum_list_nonneg [of "map snd ps"] nonneg(3) by simp
    finally show "paid_to (qs @ [kv]) k \<le> MaxSatoshi" using Cons.prems(3) by simp
  qed
  have v: "0 < v" using pos kv by auto
  have w: "wrap64 (paid_to qs k + v) = paid_to qs k + v"
    using b v app [of k] by (intro wrap64_id) (simp add: is_int64_def MaxSatoshi_def)
  have m': "map_of (add_to k v m) s = (if paid_to (qs @ [kv]) s = 0 then None else Some (paid_to (qs @ [kv]) s))" for s
    using Cons.prems(4) b(1) v w app by (auto simp: map_of_add_to)
  have "map_of (add_all ps (add_to k v m)) s =
      (if paid_to ((qs @ [kv]) @ ps) s = 0 then None else Some (paid_to ((qs @ [kv]) @ ps) s))"
    using Cons.prems m' pos by (intro Cons.IH) auto
  then show ?case by (simp add: kv)
qed auto

text \<open>Comparing the two maps entry by entry, after their sizes, compares what every script gets.\<close>

lemma same_map_iff:
  assumes "distinct (map fst a)" and "distinct (map fst e)"
  shows "length a = length e \<and> list_all (\<lambda>(k, v). map_of a k = Some v) e \<longleftrightarrow> map_of a = map_of e"
proof
  assume asm: "length a = length e \<and> list_all (\<lambda>(k, v). map_of a k = Some v) e"
  have sub: "map_of e \<subseteq>\<^sub>m map_of a"
    using asm assms(2) by (auto simp: map_le_def list_all_iff dom_def map_of_eq_Some_iff)
  have "card (dom (map_of e)) = card (dom (map_of a))"
    using asm assms by (simp add: dom_map_of_conv_image_fst distinct_card flip: set_map)
  then have "dom (map_of e) = dom (map_of a)"
    using map_le_implies_dom_le [OF sub] by (intro card_subset_eq) (auto simp: finite_dom_map_of)
  then have "map_of e s = map_of a s" for s
    using sub unfolding map_le_def by (cases "s \<in> dom (map_of e)") (auto simp: domIff)
  then show "map_of a = map_of e" by (intro ext) simp
next
  assume eq: "map_of a = map_of e"
  have "length (map fst a) = length (map fst e)"
    using eq assms by (metis distinct_card dom_map_of_conv_image_fst set_map)
  then show "length a = length e \<and> list_all (\<lambda>(k, v). map_of a k = Some v) e"
    using eq assms(2) by (auto simp: list_all_iff map_of_eq_Some_iff)
qed

abbreviation refunds :: "'a ExpiryParams_scheme \<Rightarrow> UtxoEntry list \<Rightarrow> (bytes \<times> int) list" where
  "refunds p es \<equiv> map (\<lambda>e. (pkScript e, refund_of p e)) es"

abbreviation payments :: "TxOut list \<Rightarrow> (bytes \<times> int) list" where
  "payments outs \<equiv> map (\<lambda>out. (PkScript out, Value out)) outs"

lemma expectedRefunds_eq:
  assumes "wf_expiry_params p" and "spends_entries view tis es"
    and "\<forall>e \<in> set es. 0 \<le> amount e" and "0 \<le> sm" and "sm + total_amount es \<le> MaxSatoshi"
  shows "expectedRefunds view p tis m sm =
    Inr (add_all (filter (\<lambda>(k, v). 0 < v) (refunds p es)) m, sm + sum_list (map (refund_of p) es))"
  using assms
proof (induction tis arbitrary: es m sm)
  case (Cons ti tis)
  obtain e es' where es: "es = e # es'" "live_entry view ti = Some e" "spends_entries view tis es'"
    using Cons.prems(2) by (auto simp: spends_entries_Cons)
  have tot: "0 \<le> total_amount es'" using Cons.prems(3) es(1) by (intro sum_list_nonneg) auto
  then have e: "0 \<le> amount e" "amount e \<le> MaxSatoshi" using Cons.prems(3,4,5) es(1) by auto
  note r = refund_rule [OF Cons.prems(1) e] and b = tax_of_bounds [OF Cons.prems(1) e]
  have w: "wrap64 (sm + refund_of p e) = sm + refund_of p e"
    using b e Cons.prems(4,5) es(1) tot by (intro wrap64_id) (simp add: is_int64_def MaxSatoshi_def)
  have "\<not> wrap64 (amount e - reapTaxForValue (amount e) p) < 0"
    using reapTaxForValue_eq(3) [OF Cons.prems(1) e] r(1) by simp
  then have "expectedRefunds view p (ti # tis) m sm =
      expectedRefunds view p tis (if 0 < refund_of p e then add_to (pkScript e) (refund_of p e) m else m)
        (sm + refund_of p e)"
    using es(2) r w by (simp add: live_entry_Some_iff Let_def)
  also have "\<dots> = Inr (add_all (filter (\<lambda>(k, v). 0 < v) (refunds p es'))
      (if 0 < refund_of p e then add_to (pkScript e) (refund_of p e) m else m),
      sm + refund_of p e + sum_list (map (refund_of p) es'))"
    using Cons.prems es b by (intro Cons.IH) auto
  finally show ?case using es(1) by simp
qed auto

lemma expectedRefunds_Inr_live:
  "expectedRefunds view p tis m sm = Inr r \<Longrightarrow> \<exists>es. spends_entries view tis es"
  by (induction view p tis m sm rule: expectedRefunds.induct)
    (fastforce simp: spends_entries_Cons live_entry_def Let_def split: option.splits if_splits prod.splits)+

lemma actualRefunds_eq:
  assumes "\<forall>out \<in> set outs. 0 \<le> Value out" and "0 \<le> sm" and "sm + sum_list (map Value outs) \<le> MaxSatoshi"
  shows "actualRefunds outs m sm =
    (if \<forall>out \<in> set outs. 0 < Value out then Inr (add_all (payments outs) m, sm + sum_list (map Value outs))
     else Inl ErrBadTxOutValue)"
  using assms
proof (induction outs arbitrary: m sm)
  case (Cons out outs)
  have "0 \<le> sum_list (map Value outs)" using Cons.prems(1) by (intro sum_list_nonneg) auto
  then have "wrap64 (sm + Value out) = sm + Value out"
    using Cons.prems by (intro wrap64_id) (simp add: is_int64_def MaxSatoshi_def)
  moreover have "actualRefunds outs (add_to (PkScript out) (Value out) m) (sm + Value out) =
    (if \<forall>out \<in> set outs. 0 < Value out
     then Inr (add_all (payments outs) (add_to (PkScript out) (Value out) m), sm + Value out + sum_list (map Value outs))
     else Inl ErrBadTxOutValue)"
    using Cons.prems by (intro Cons.IH) auto
  ultimately show ?case by auto
qed simp

lemma if_zero_None_eq:
  "(if a = 0 then None else Some a) = (if b = 0 then None else Some b) \<longleftrightarrow> a = (b :: int)"
  by auto

lemma sum_refunds_le:
  assumes "wf_expiry_params p" and "\<forall>e \<in> set es. 0 \<le> amount e" and "total_amount es \<le> MaxSatoshi"
  shows "\<forall>e \<in> set es. 0 \<le> refund_of p e" and "sum_list (map (refund_of p) es) \<le> total_amount es"
    and "sum_list (map (refund_of p) es) + sum_list (map (tax_of p) es) = total_amount es"
proof -
  have le: "\<forall>e \<in> set es. amount e \<le> MaxSatoshi"
  proof
    fix e assume "e \<in> set es"
    then have "amount e \<le> total_amount es" using assms(2) by (intro member_le_sum_list) auto
    with assms(3) show "amount e \<le> MaxSatoshi" by simp
  qed
  then show "\<forall>e \<in> set es. 0 \<le> refund_of p e"
    using assms(2) tax_of_bounds(3) [OF assms(1)] by blast
  show "sum_list (map (refund_of p) es) \<le> total_amount es"
    using le assms(2) tax_of_bounds(4) [OF assms(1)] by (intro sum_list_mono) blast
  show "sum_list (map (refund_of p) es) + sum_list (map (tax_of p) es) = total_amount es"
    by (induction es) (auto simp: refund_of_def)
qed

lemma paid_to_filter_pos:
  assumes "\<forall>(k, v) \<in> set ps. 0 \<le> v"
  shows "paid_to (filter (\<lambda>(k, v). 0 < v) ps) s = paid_to ps s"
  using assms by (induction ps) (auto simp: paid_to_def)

lemma sum_filter_pos:
  assumes "\<forall>(k, v) \<in> set ps. (0 :: int) \<le> v"
  shows "sum_list (map snd (filter (\<lambda>(k, v). 0 < v) ps)) = sum_list (map snd ps)"
  using assms by (induction ps) auto

lemma paid_to_total:
  "finite S \<Longrightarrow> fst ` set ps \<subseteq> S \<Longrightarrow> (\<Sum>s \<in> S. paid_to ps s) = sum_list (map snd ps)"
  by (induction ps) (auto simp: sum.distrib)

text \<open>
  The tax rule on sane amounts: it accepts exactly when every output but the marker pays something
  and every script is paid the refunds of the spent outputs it owned.
\<close>

lemma checkReapTaxRules_iff:
  assumes p: "GetExpiryParams params = Some p" and h: "EnableAtHeight p \<le> h" and r: "isLikelyReapTx tx"
    and es: "spends_entries view (TxIn tx) es" "\<forall>e \<in> set es. 0 \<le> amount e" "total_amount es \<le> MaxSatoshi"
    and outs: "\<forall>out \<in> set (butlast (TxOut tx)). 0 \<le> Value out"
      "sum_list (map Value (butlast (TxOut tx))) \<le> MaxSatoshi"
  shows "checkReapTaxRules tx h view params = Inr () \<longleftrightarrow>
    (\<forall>out \<in> set (butlast (TxOut tx)). 0 < Value out) \<and>
    (\<forall>s. paid_to (payments (butlast (TxOut tx))) s = paid_to (refunds p es) s)"
proof -
  let ?outs = "butlast (TxOut tx)"
  let ?pos = "filter (\<lambda>(k, v). 0 < v) (refunds p es)"
  let ?e = "add_all ?pos []" and ?a = "add_all (payments ?outs) []"
  have wf: "wf_expiry_params p" by (rule wf_GetExpiryParams [OF p])
  note ref = sum_refunds_le [OF wf es(2,3)]
  have nn: "\<forall>(k, v) \<in> set (refunds p es). 0 \<le> v" using ref(1) by auto
  have exp: "expectedRefunds view p (TxIn tx) [] 0 = Inr (?e, sum_list (map (refund_of p) es))"
    using expectedRefunds_eq [OF wf es(1,2), of 0 "[]"] es(3) by simp
  have act: "actualRefunds ?outs [] 0 = (if \<forall>out \<in> set ?outs. 0 < Value out
      then Inr (?a, sum_list (map Value ?outs)) else Inl ErrBadTxOutValue)"
    using actualRefunds_eq [OF outs(1), of 0 "[]"] outs(2) by simp
  have me: "map_of ?e s = (if paid_to (refunds p es) s = 0 then None else Some (paid_to (refunds p es) s))" for s
  proof -
    have "sum_list (map snd ?pos) \<le> MaxSatoshi"
      using sum_filter_pos [OF nn] ref(2) es(3) by (simp add: comp_def)
    then show ?thesis
      using map_of_add_all [of ?pos "[]" "[]" s] paid_to_filter_pos [OF nn, of s] by simp
  qed
  have ma: "map_of ?a s = (if paid_to (payments ?outs) s = 0 then None else Some (paid_to (payments ?outs) s))"
    if "\<forall>out \<in> set ?outs. 0 < Value out" for s
    using map_of_add_all [of "payments ?outs" "[]" "[]" s] that outs(2) by (simp add: comp_def)
  have same: "length ?a = length ?e \<and> list_all (\<lambda>(k, v). map_of ?a k = Some v) ?e \<longleftrightarrow>
      (\<forall>s. paid_to (payments ?outs) s = paid_to (refunds p es) s)"
    if "\<forall>out \<in> set ?outs. 0 < Value out"
  proof -
    have "length ?a = length ?e \<and> list_all (\<lambda>(k, v). map_of ?a k = Some v) ?e \<longleftrightarrow> map_of ?a = map_of ?e"
      by (intro same_map_iff distinct_add_all) simp_all
    also have "\<dots> \<longleftrightarrow> (\<forall>s. map_of ?a s = map_of ?e s)" by (rule fun_eq_iff)
    also have "\<dots> \<longleftrightarrow> (\<forall>s. paid_to (payments ?outs) s = paid_to (refunds p es) s)"
      by (simp only: me ma [OF that] if_zero_None_eq)
    finally show ?thesis .
  qed
  have total: "sum_list (map Value ?outs) = sum_list (map (refund_of p) es)"
    if "\<forall>s. paid_to (payments ?outs) s = paid_to (refunds p es) s"
  proof -
    let ?S = "fst ` set (payments ?outs) \<union> fst ` set (refunds p es)"
    have "(\<Sum>s \<in> ?S. paid_to (payments ?outs) s) = (\<Sum>s \<in> ?S. paid_to (refunds p es) s)"
      using that by simp
    then show ?thesis
      using paid_to_total [of ?S "payments ?outs"] paid_to_total [of ?S "refunds p es"] by (simp add: comp_def)
  qed
  have eq: "checkReapTaxRules tx h view params =
      bind_r (actualRefunds ?outs [] 0) (\<lambda>(a, at). if at \<noteq> sum_list (map (refund_of p) es) then Inl ErrBadTxOutValue
        else if length a \<noteq> length ?e then Inl ErrBadTxOutValue
        else if list_all (\<lambda>(script, expected). map_of a script = Some expected) ?e then Inr ()
        else Inl ErrBadTxOutValue)"
    using p h r by (simp add: checkReapTaxRules_def exp)
  show ?thesis
  proof (cases "\<forall>out \<in> set ?outs. 0 < Value out")
    case True
    then show ?thesis using same [OF True] total by (simp only: eq act) (auto split: if_splits)
  next
    case False
    then show ?thesis by (simp only: eq act) simp
  qed
qed

section \<open>Expiry\<close>

definition spendable_when :: "bool \<Rightarrow> 'a ExpiryParams_scheme \<Rightarrow> int32 \<Rightarrow> UtxoEntry \<Rightarrow> bool" where
  "spendable_when isReap p h e \<longleftrightarrow>
     (if blockHeight e = unminedInputHeight then \<not> isReap else isExpiredAt p (blockHeight e) h = isReap)"

lemma checkExpirySpendRules_iff:
  assumes "GetExpiryParams params = Some p" and "EnableAtHeight p \<le> h"
  shows "checkExpirySpendRules tx h view params = Inr () \<longleftrightarrow>
    (\<exists>es. spends_entries view (TxIn tx) es \<and> (\<forall>e \<in> set es. spendable_when (isLikelyReapTx tx) p h e))"
proof -
  have one: "checkExpiryInput r h view p ti = Inr () \<longleftrightarrow>
      (\<exists>e. live_entry view ti = Some e \<and> spendable_when r p h e)" for r ti
    by (auto simp: checkExpiryInput_def live_entry_def spendable_when_def Let_def
        split: option.splits if_splits)
  have "fold_r (\<lambda>ti _. checkExpiryInput r h view p ti) tis () = Inr () \<longleftrightarrow>
      (\<exists>es. spends_entries view tis es \<and> (\<forall>e \<in> set es. spendable_when r p h e))" for r tis
  proof (induction tis)
    case (Cons ti tis)
    then show ?case
      using one [of r ti] by (fastforce simp: bind_r_eq_Inr spends_entries_Cons)
  qed auto
  with assms show ?thesis by (simp add: checkExpirySpendRules_def)
qed

text \<open>On a mined output the rule compares the height with the plain sum of the creation height and the
  window, as long as that sum is an \<open>int32\<close>.\<close>

lemma isExpiredAt_iff:
  assumes "wf_expiry_params p" and "0 \<le> ch" and "ch + uint (WindowBlocks p) < 2 ^ 31"
  shows "isExpiredAt p ch h \<longleftrightarrow> ch + uint (WindowBlocks p) \<le> h"
proof -
  have w: "unat (WindowBlocks p) < 2 ^ 30" using assms(1) by (simp add: wf_expiry_params_def)
  have ch: "ch < 2 ^ 31" using assms(3) uint_ge_0 [of "WindowBlocks p"] by linarith
  have "uint (CalculateExpiryKey p ch) = int (unat (CalculateExpiryKey p ch))" by simp
  also have "\<dots> = ch + uint (WindowBlocks p)"
    unfolding unat_CalculateExpiryKey [OF assms(2) ch w] using assms(2) by simp
  finally have u: "uint (CalculateExpiryKey p ch) = ch + uint (WindowBlocks p)" .
  have "0 \<le> ch + uint (WindowBlocks p)" using assms(2) by simp
  then have "is_int32 (ch + uint (WindowBlocks p))" using assms(3) by (simp add: is_int32_def)
  then have "wrap32 (uint (CalculateExpiryKey p ch)) = ch + uint (WindowBlocks p)"
    unfolding u by (rule wrap32_id)
  then show ?thesis by (simp add: isExpiredAt_def)
qed

section \<open>Order and caps\<close>

definition keys_of :: "UtxoViewpoint \<Rightarrow> 'a ExpiryParams_scheme \<Rightarrow> TxIn list \<Rightarrow> reapInputOrderKey list \<Rightarrow> bool" where
  "keys_of view p tis ks \<longleftrightarrow>
     map (\<lambda>ti. makeReapInputOrderKey (PreviousOutPoint ti) view p) tis = map Some ks"

definition count_tier :: "bool \<Rightarrow> 'a ExpiryParams_scheme \<Rightarrow> reapInputOrderKey list \<Rightarrow> int" where
  "count_tier b p ks = int (length (filter (\<lambda>k. isReapDustTierAmount (ok_amount k) p = b) ks))"

lemma count_tier_simps [simp]:
  "count_tier b p [] = 0"
  "count_tier b p (k # ks) = (if isReapDustTierAmount (ok_amount k) p = b then 1 else 0) + count_tier b p ks"
  by (simp_all add: count_tier_def)

text \<open>No input comes after a tier is full.\<close>

definition within_caps :: "'a ExpiryParams_scheme \<Rightarrow> int \<Rightarrow> int \<Rightarrow> reapInputOrderKey list \<Rightarrow> bool" where
  "within_caps p d n ks \<longleftrightarrow> (\<forall>i < length ks.
     d + count_tier True p (take i ks) < ReapDustMaxInputs p \<and> n + count_tier False p (take i ks) < ReapMaxInputs p)"

lemma within_caps_Nil [simp]: "within_caps p d n []"
  by (simp add: within_caps_def)

lemma within_caps_Cons:
  "within_caps p d n (k # ks) \<longleftrightarrow> d < ReapDustMaxInputs p \<and> n < ReapMaxInputs p \<and>
     within_caps p (if isReapDustTierAmount (ok_amount k) p then d + 1 else d)
       (if isReapDustTierAmount (ok_amount k) p then n else n + 1) ks"
  by (simp add: within_caps_def All_less_Suc2 ac_simps)

abbreviation in_reap_order :: "reapInputOrderKey list \<Rightarrow> bool" where
  "in_reap_order ks \<equiv> successively (\<lambda>a b. compareReapInputOrderKey a b \<le> 0) ks"

lemma hardeningLoop_iff:
  "hardeningLoop view p two tis prev d n = Inr () \<longleftrightarrow>
    (\<exists>ks. keys_of view p tis ks \<and> in_reap_order (case prev of None \<Rightarrow> ks | Some k \<Rightarrow> k # ks)
       \<and> (two \<longrightarrow> within_caps p d n ks))"
proof (induction tis arbitrary: prev d n)
  case (Cons ti tis)
  show ?case
  proof (cases "makeReapInputOrderKey (PreviousOutPoint ti) view p")
    case None
    then show ?thesis by (auto simp: keys_of_def Cons_eq_map_conv)
  next
    case (Some k)
    have "hardeningLoop view p two (ti # tis) prev d n = Inr () \<longleftrightarrow>
        (case prev of None \<Rightarrow> True | Some j \<Rightarrow> compareReapInputOrderKey j k \<le> 0) \<and>
        (two \<longrightarrow> d < ReapDustMaxInputs p \<and> n < ReapMaxInputs p) \<and>
        hardeningLoop view p two tis (Some k)
          (if two \<and> isReapDustTierAmount (ok_amount k) p then d + 1 else d)
          (if two \<and> \<not> isReapDustTierAmount (ok_amount k) p then n + 1 else n) = Inr ()"
      using Some by (auto simp: Let_def split: option.splits if_splits)
    also have "\<dots> \<longleftrightarrow> (\<exists>ks. keys_of view p (ti # tis) (k # ks) \<and>
        in_reap_order (case prev of None \<Rightarrow> k # ks | Some j \<Rightarrow> j # k # ks) \<and> (two \<longrightarrow> within_caps p d n (k # ks)))"
      unfolding Cons.IH within_caps_Cons using Some
      by (auto simp: keys_of_def split: option.splits)
    also have "\<dots> \<longleftrightarrow> (\<exists>ks. keys_of view p (ti # tis) ks \<and>
        in_reap_order (case prev of None \<Rightarrow> ks | Some j \<Rightarrow> j # ks) \<and> (two \<longrightarrow> within_caps p d n ks))"
      using Some by (auto simp: keys_of_def Cons_eq_map_conv)
    finally show ?thesis .
  qed
qed (auto simp: keys_of_def split: option.splits)

lemma checkReapConsensusHardening_iff:
  assumes p: "GetExpiryParams params = Some p" and h: "ReapConsensusAtHeight p \<le> h" and r: "isLikelyReapTx tx"
  shows "checkReapConsensusHardening tx h view params = Inr () \<longleftrightarrow>
    GetTransactionWeight tx \<le> ReapMaxWeight p \<and>
    (\<exists>ks. keys_of view p (TxIn tx) ks \<and> in_reap_order ks \<and> within_caps p 0 0 ks)"
proof -
  have "0 < ReapMaxWeight p" "0 < ReapDustMaxInputs p"
    using wf_GetExpiryParams [OF p] by (simp_all add: wf_expiry_params_def)
  then show ?thesis
    using p h r by (auto simp: checkReapConsensusHardening_def hardeningLoop_iff)
qed

section \<open>Accepted REAP transactions\<close>

lemma CheckTransactionInputs_Inr:
  assumes "CheckTransactionInputs tx h view params = Inr fee" and "\<not> IsCoinBaseTx tx"
  shows "checkReapMarker tx h = Inr ()" and "checkExpirySpendRules tx h view params = Inr ()"
    and "checkReapConsensusHardening tx h view params = Inr ()"
    and "checkReapTaxRules tx h view params = Inr ()"
    and "\<exists>es. spends_entries view (TxIn tx) es \<and> (\<forall>e \<in> set es. mature params h e \<and> 0 \<le> amount e)
           \<and> total_amount es \<le> MaxSatoshi \<and> sumOutputs (TxOut tx) \<le> total_amount es
           \<and> fee = wrap64 (total_amount es - sumOutputs (TxOut tx))"
proof -
  obtain t where "checkReapMarker tx h = Inr ()" "checkExpirySpendRules tx h view params = Inr ()"
    "checkReapConsensusHardening tx h view params = Inr ()" "checkReapTaxRules tx h view params = Inr ()"
    "fold_r (sumInput h view params) (TxIn tx) 0 = Inr t" "sumOutputs (TxOut tx) \<le> t"
    "fee = wrap64 (t - sumOutputs (TxOut tx))"
    using assms by (auto simp: CheckTransactionInputs_def bind_r_eq_Inr Let_def split: if_splits)
  then show "checkReapMarker tx h = Inr ()" "checkExpirySpendRules tx h view params = Inr ()"
    "checkReapConsensusHardening tx h view params = Inr ()" "checkReapTaxRules tx h view params = Inr ()"
    "\<exists>es. spends_entries view (TxIn tx) es \<and> (\<forall>e \<in> set es. mature params h e \<and> 0 \<le> amount e)
           \<and> total_amount es \<le> MaxSatoshi \<and> sumOutputs (TxOut tx) \<le> total_amount es
           \<and> fee = wrap64 (total_amount es - sumOutputs (TxOut tx))"
    using sumInputs_Inr_iff [of 0 h view params "TxIn tx" t] by (auto simp: MaxSatoshi_def)
qed

lemma isLikelyReapTx_outputs:
  assumes "isLikelyReapTx tx"
  shows "TxOut tx \<noteq> []" and "Value (last (TxOut tx)) = 0"
  using assms by (auto simp: isLikelyReapTx_def Let_def split: if_splits)

lemma accepted_reap:
  assumes p: "GetExpiryParams params = Some p" "EnableAtHeight p \<le> h"
    and tx: "isLikelyReapTx tx" "CheckTransactionSanity tx = Inr ()" "\<not> IsCoinBaseTx tx"
    and ok: "CheckTransactionInputs tx h view params = Inr fee"
  shows "\<exists>es. spends_entries view (TxIn tx) es
    \<and> (\<forall>e \<in> set es. blockHeight e \<noteq> unminedInputHeight \<and> isExpiredAt p (blockHeight e) h)
    \<and> (\<forall>s. paid_to (payments (butlast (TxOut tx))) s = paid_to (refunds p es) s)
    \<and> fee = sum_list (map (tax_of p) es)"
proof -
  note acc = CheckTransactionInputs_Inr [OF ok tx(3)]
  note sane = CheckTransactionSanity_Inr [OF tx(2)]
  obtain es where es: "spends_entries view (TxIn tx) es" "\<forall>e \<in> set es. mature params h e \<and> 0 \<le> amount e"
    "total_amount es \<le> MaxSatoshi" "sumOutputs (TxOut tx) \<le> total_amount es"
    "fee = wrap64 (total_amount es - sumOutputs (TxOut tx))"
    using acc(5) by blast
  have nn: "\<forall>e \<in> set es. 0 \<le> amount e" using es(2) by blast
  have out: "TxOut tx = butlast (TxOut tx) @ [last (TxOut tx)]" "Value (last (TxOut tx)) = 0"
    using isLikelyReapTx_outputs [OF tx(1)] by simp_all
  have sum: "sum_list (map Value (TxOut tx)) = sum_list (map Value (butlast (TxOut tx)))"
    by (subst out(1)) (simp add: out(2))
  have outs: "\<forall>out \<in> set (butlast (TxOut tx)). 0 \<le> Value out"
    "sum_list (map Value (butlast (TxOut tx))) \<le> MaxSatoshi"
    using sane(3,4) sum by (auto dest: in_set_butlastD)
  have paid: "\<forall>s. paid_to (payments (butlast (TxOut tx))) s = paid_to (refunds p es) s"
    using checkReapTaxRules_iff [OF p tx(1) es(1) nn es(3) outs] acc(4) by simp
  have total: "sum_list (map Value (butlast (TxOut tx))) = sum_list (map (refund_of p) es)"
  proof -
    let ?S = "fst ` set (payments (butlast (TxOut tx))) \<union> fst ` set (refunds p es)"
    have "(\<Sum>s \<in> ?S. paid_to (payments (butlast (TxOut tx))) s) = (\<Sum>s \<in> ?S. paid_to (refunds p es) s)"
      using paid by simp
    then show ?thesis
      using paid_to_total [of ?S "payments (butlast (TxOut tx))"] paid_to_total [of ?S "refunds p es"]
      by (simp add: comp_def)
  qed
  note ref = sum_refunds_le [OF wf_GetExpiryParams [OF p(1)] nn es(3)]
  have "sumOutputs (TxOut tx) = sum_list (map (refund_of p) es)"
    using sumOutputs_sane [OF sane(3,4)] sum total by simp
  then have "total_amount es - sumOutputs (TxOut tx) = sum_list (map (tax_of p) es)" using ref(3) by simp
  moreover have "is_int64 (total_amount es - sumOutputs (TxOut tx))"
  proof -
    have "0 \<le> sum_list (map Value (TxOut tx))" using sane(3) by (intro sum_list_nonneg) auto
    then show ?thesis
      using es(3,4) sumOutputs_sane [OF sane(3,4)] by (simp add: is_int64_def MaxSatoshi_def)
  qed
  ultimately have "fee = sum_list (map (tax_of p) es)" using es(5) by (simp add: wrap64_id)
  moreover have "\<forall>e \<in> set es. blockHeight e \<noteq> unminedInputHeight \<and> isExpiredAt p (blockHeight e) h"
    using checkExpirySpendRules_iff [OF p] acc(2) tx(1) es(1)
    by (auto simp: spendable_when_def dest: spends_entries_unique split: if_splits)
  ultimately show ?thesis using es(1) paid by blast
qed

end
