(* ===== verification/Reap_Mining.thy ===== *)
theory Reap_Mining
  imports Reap_Rules
begin

text \<open>
  The miner's side of REAP (\<open>mining/reap\<close>): parameters, the selection of candidates, the plan, the
  transaction built from it and its trimming to a weight budget.

  Debug logging is left out.  A context is asked before every candidate and every page; \<open>ctx i\<close> says
  whether the \<open>i\<close>-th question finds it cancelled.  Counts of elements held in memory are not wrapped;
  satoshi sums and sums of configured limits are.  The Go map of refunds is an association list: its
  entries are sorted by script before they are used, and scripts are distinct, so the order in which
  Go ranges over the map does not matter.
\<close>

datatype reap_error =
    ErrNilView
  | ErrNilIndex
  | ErrInvalidParam string
  | ErrMissingUtxo OutPoint
  | ErrNegativeRefund
  | ErrReapScript script_error
  | ErrPlanTotals
  | ErrInvariantBroken
  | ErrHardLimit
  | ErrCtx
  | ErrReapPanic
  | ErrReapIndex index_error
  | ErrFetchView

section \<open>Types and parameters\<close>

datatype SortMode = SortModeStrict | SortModeSimple

record REAPStats =
  Candidates :: int
  Picked :: int
  Skipped :: int
  EstWeight :: int64

record REAPPlan =
  Inputs :: "OutPoint list"
  TaxTotal :: int64
  RefundTotal :: int64
  plan_Height :: int32
  Stats :: REAPStats

record REAPParams =
  Sort :: SortMode
  MaxInputs :: int
  DustMaxInputs :: int
  WeightBudget :: int64
  ScanBatch :: int
  TaxNum :: int64
  TaxDen :: int64
  DustThresholdSat :: int64
  DebugEnabled :: bool

definition zeroStats :: REAPStats where
  "zeroStats = \<lparr>Candidates = 0, Picked = 0, Skipped = 0, EstWeight = 0\<rparr>"

definition newPlan :: "int32 \<Rightarrow> REAPPlan" where
  "newPlan tip = \<lparr>Inputs = [], TaxTotal = 0, RefundTotal = 0, plan_Height = tip, Stats = zeroStats\<rparr>"

definition DefaultREAPParams :: "SortMode \<Rightarrow> REAPParams" where
  "DefaultREAPParams mode = \<lparr>Sort = mode, MaxInputs = 1000, DustMaxInputs = 0, WeightBudget = 400000,
     ScanBatch = 10000, TaxNum = 30, TaxDen = 100, DustThresholdSat = 720, DebugEnabled = False\<rparr>"

definition DefaultREAPParamsForNet :: "'a Params_scheme \<Rightarrow> SortMode \<Rightarrow> REAPParams" where
  "DefaultREAPParamsForNet net mode =
     (let p = DefaultREAPParams mode;
          p = (case GetExpiryParams net of
                 None \<Rightarrow> p
               | Some ep \<Rightarrow>
                   let p = (if ReapMaxInputs ep > 0 then p\<lparr>MaxInputs := ReapMaxInputs ep\<rparr> else p);
                       p = (if ReapDustMaxInputs ep > 0 then p\<lparr>DustMaxInputs := ReapDustMaxInputs ep\<rparr> else p);
                       p = (if ReapMaxWeight ep > 0 then p\<lparr>WeightBudget := ReapMaxWeight ep\<rparr> else p);
                       p = (if ReapTaxNumerator ep > 0 then p\<lparr>TaxNum := ReapTaxNumerator ep\<rparr> else p);
                       p = (if ReapTaxDenominator ep > 0 then p\<lparr>TaxDen := ReapTaxDenominator ep\<rparr> else p)
                   in if ReapDustThresholdSat ep \<ge> 0 then p\<lparr>DustThresholdSat := ReapDustThresholdSat ep\<rparr> else p)
      in if Net net = ObtcRegNet then p\<lparr>ScanBatch := 2000, DebugEnabled := True\<rparr>
         else if Net net = ObtcTestNet then p\<lparr>ScanBatch := 5000\<rparr>
         else p)"

definition REAPParams_Validate :: "REAPParams \<Rightarrow> reap_error + unit" where
  "REAPParams_Validate p =
     (if MaxInputs p \<le> 0 then Inl (ErrInvalidParam ''MaxInputs'')
      else if DustMaxInputs p < 0 then Inl (ErrInvalidParam ''DustMaxInputs'')
      else if WeightBudget p < 0 then Inl (ErrInvalidParam ''WeightBudget'')
      else if ScanBatch p \<le> 0 then Inl (ErrInvalidParam ''ScanBatch'')
      else if TaxDen p \<le> 0 then Inl (ErrInvalidParam ''TaxDen'')
      else if TaxNum p < 0 then Inl (ErrInvalidParam ''TaxNum'')
      else if DustThresholdSat p < 0 then Inl (ErrInvalidParam ''DustThresholdSat'')
      else Inr ())"

definition PrefixCandidateLimit :: "REAPParams \<Rightarrow> int" where
  "PrefixCandidateLimit p =
     (if DustMaxInputs p \<le> 0 then MaxInputs p else wrap64 (MaxInputs p + DustMaxInputs p))"

section \<open>Amounts and estimates\<close>

definition applyDustRule :: "int64 \<Rightarrow> int64 \<Rightarrow> int64 \<Rightarrow> int64 \<Rightarrow> int64 \<times> int64" where
  "applyDustRule v refund tax dustThresholdSat =
     (if dustThresholdSat \<le> 0 then (refund, tax)
      else if v > 0 \<and> v < dustThresholdSat then (0, v)
      else (refund, tax))"

definition isDustTierAmount :: "int64 \<Rightarrow> int64 \<Rightarrow> bool" where
  "isDustTierAmount amt dustThresholdSat \<longleftrightarrow> dustThresholdSat > 0 \<and> amt > 0 \<and> amt < dustThresholdSat"

definition taxForValue :: "int64 \<Rightarrow> REAPParams \<Rightarrow> int64" where
  "taxForValue v p =
     (if v \<le> 0 \<or> TaxDen p \<le> 0 \<or> TaxNum p \<le> 0 then 0 else go_quot (wrap64 (v * TaxNum p)) (TaxDen p))"

definition canSelectTierCandidate :: "bool \<Rightarrow> int \<Rightarrow> int \<Rightarrow> REAPParams \<Rightarrow> bool" where
  "canSelectTierCandidate dustTier dustCount normalCount p =
     (if DustMaxInputs p \<le> 0 then dustCount + normalCount < MaxInputs p
      else if dustCount \<ge> DustMaxInputs p \<or> normalCount \<ge> MaxInputs p then False
      else if dustTier then dustCount < DustMaxInputs p
      else normalCount < MaxInputs p)"

definition tierLimitReached :: "int \<Rightarrow> int \<Rightarrow> REAPParams \<Rightarrow> bool" where
  "tierLimitReached dustCount normalCount p =
     (if DustMaxInputs p \<le> 0 then dustCount + normalCount \<ge> MaxInputs p
      else dustCount \<ge> DustMaxInputs p \<or> normalCount \<ge> MaxInputs p)"

definition estBaseWeight :: int64 where "estBaseWeight = 40"
definition estInputWeight :: int64 where "estInputWeight = 164"
definition estInputWeightUpper :: int64 where "estInputWeightUpper = 600"
definition estRefundOutputWeight :: int64 where "estRefundOutputWeight = 172"
definition estMarkOutputWeight :: int64 where "estMarkOutputWeight = 120"

definition EstimateBlueprintWeight :: "int \<Rightarrow> int64" where
  "EstimateBlueprintWeight numInputs =
     (let numInputs = (if numInputs < 0 then 0 else numInputs)
      in estBaseWeight + numInputs * estInputWeightUpper + numInputs * estRefundOutputWeight + estMarkOutputWeight)"

definition EstimateTieredBlueprintWeight :: "int \<Rightarrow> int \<Rightarrow> int64" where
  "EstimateTieredBlueprintWeight dustInputs normalInputs =
     (let dustInputs = (if dustInputs < 0 then 0 else dustInputs);
          normalInputs = (if normalInputs < 0 then 0 else normalInputs);
          totalInputs = dustInputs + normalInputs
      in estBaseWeight + totalInputs * estInputWeight + normalInputs * estRefundOutputWeight + estMarkOutputWeight)"

definition estimateNextWeight :: "bool \<Rightarrow> int \<Rightarrow> int \<Rightarrow> int \<Rightarrow> REAPParams \<Rightarrow> int64" where
  "estimateNextWeight dustTier dustCount normalCount inputCount p =
     (if DustMaxInputs p \<le> 0 then EstimateBlueprintWeight (inputCount + 1)
      else EstimateTieredBlueprintWeight (if dustTier then dustCount + 1 else dustCount)
             (if dustTier then normalCount else normalCount + 1))"

definition estimatePlanWeight :: "int \<Rightarrow> int \<Rightarrow> int \<Rightarrow> REAPParams \<Rightarrow> int64" where
  "estimatePlanWeight dustCount normalCount inputCount p =
     (if DustMaxInputs p \<le> 0 then EstimateBlueprintWeight inputCount
      else EstimateTieredBlueprintWeight dustCount normalCount)"

section \<open>Selection\<close>

text \<open>One pass over ordered candidates, from index \<open>i\<close> on.  The result holds the plan and the two
  tier counts.\<close>

fun selectLoop :: "(nat \<Rightarrow> bool) \<Rightarrow> REAPParams \<Rightarrow> nat \<Rightarrow> (OutPoint \<times> int64) list \<Rightarrow>
    REAPPlan \<times> int \<times> int \<Rightarrow> reap_error + (REAPPlan \<times> int \<times> int)" where
  "selectLoop ctx p i [] s = Inr s"
| "selectLoop ctx p i ((op, amt) # cs) (plan, dustCount, normalCount) =
     (if ctx i then Inl ErrCtx
      else
        let left = int (length cs) + 1;
            skip = (\<lambda>n. plan\<lparr>Stats := (Stats plan)\<lparr>Skipped := Skipped (Stats plan) + n\<rparr>\<rparr>);
            dustTier = isDustTierAmount amt (DustThresholdSat p)
        in if \<not> canSelectTierCandidate dustTier dustCount normalCount p
           then Inr (skip left, dustCount, normalCount)
           else if WeightBudget p > 0
             \<and> estimateNextWeight dustTier dustCount normalCount (int (length (Inputs plan))) p > WeightBudget p
             \<and> Inputs plan \<noteq> []
           then Inr (skip left, dustCount, normalCount)
           else
             let dustCount = (if dustTier then dustCount + 1 else dustCount);
                 normalCount = (if dustTier then normalCount else normalCount + 1);
                 tax = taxForValue amt p;
                 (refund, tax) = applyDustRule amt (wrap64 (amt - tax)) tax (DustThresholdSat p);
                 plan = plan\<lparr>Inputs := Inputs plan @ [op], TaxTotal := wrap64 (TaxTotal plan + tax),
                          RefundTotal := wrap64 (RefundTotal plan + refund)\<rparr>
             in if tierLimitReached dustCount normalCount p
                then Inr (plan\<lparr>Stats := (Stats plan)\<lparr>Skipped := Skipped (Stats plan) + (left - 1)\<rparr>\<rparr>,
                          dustCount, normalCount)
                else selectLoop ctx p (Suc i) cs (plan, dustCount, normalCount))"

definition finishPlan :: "REAPParams \<Rightarrow> REAPPlan \<times> int \<times> int \<Rightarrow> REAPPlan" where
  "finishPlan p = (\<lambda>(plan, dustCount, normalCount).
     plan\<lparr>Stats := (Stats plan)\<lparr>Picked := int (length (Inputs plan)),
        EstWeight := estimatePlanWeight dustCount normalCount (int (length (Inputs plan))) p\<rparr>\<rparr>)"

definition SelectPrefixCandidates :: "(nat \<Rightarrow> bool) \<Rightarrow> int32 \<Rightarrow> ReapPrefixCandidate list \<Rightarrow> REAPParams \<Rightarrow>
    reap_error + REAPPlan" where
  "SelectPrefixCandidates ctx tip candidates p =
     (if MaxInputs p \<le> 0 then Inl (ErrInvalidParam ''MaxInputs'')
      else if DustMaxInputs p < 0 then Inl (ErrInvalidParam ''DustMaxInputs'')
      else
        let plan = (newPlan tip)\<lparr>Stats := zeroStats\<lparr>Candidates := int (length candidates)\<rparr>\<rparr>
        in bind_r (selectLoop ctx p 0 (map (\<lambda>c. (cand_OutPoint c, cand_Amount c)) candidates) (plan, 0, 0))
             (\<lambda>s. Inr (finishPlan p s)))"

record candidate =
  c_op :: OutPoint
  c_expiry :: u64
  c_amount :: int64

type_synonym expiringScanner =
  "u64 \<Rightarrow> u64 \<Rightarrow> int \<Rightarrow> OutPoint option \<Rightarrow> index_error + (ExpiringUTXO list \<times> bool)"

definition liveCandidates :: "UtxoViewpoint \<Rightarrow> ExpiringUTXO list \<Rightarrow> candidate list" where
  "liveCandidates view rows =
     concat (map (\<lambda>row. case LookupEntry view (exp_OutPoint row) of
         None \<Rightarrow> []
       | Some entry \<Rightarrow>
           if IsSpent entry then []
           else [\<lparr>c_op = exp_OutPoint row, c_expiry = exp_ExpiryKey row, c_amount = amount entry\<rparr>]) rows)"

text \<open>
  The page loop, which an arbitrary scanner may keep running for ever: \<open>None\<close> is a loop that does not
  return.  \<open>n\<close> counts the pages, for the context.
\<close>

partial_function (option) scanPages :: "(nat \<Rightarrow> bool) \<Rightarrow> expiringScanner \<Rightarrow> UtxoViewpoint \<Rightarrow> int \<Rightarrow>
    u64 \<Rightarrow> nat \<Rightarrow> u64 \<Rightarrow> OutPoint option \<Rightarrow> candidate list \<Rightarrow> (reap_error + (candidate list \<times> nat)) option" where
  "scanPages ctx scanner view batch toKey n fromKey startAfter found =
     (if ctx n then Some (Inl ErrCtx)
      else case scanner fromKey toKey batch startAfter of
        Inl e \<Rightarrow> Some (Inl (ErrReapIndex e))
      | Inr (rows, hasMore) \<Rightarrow>
          (if \<not> hasMore \<or> rows = [] then Some (Inr (found @ liveCandidates view rows, Suc n))
           else scanPages ctx scanner view batch toKey (Suc n) (exp_ExpiryKey (last rows))
                  (Some (exp_OutPoint (last rows))) (found @ liveCandidates view rows)))"

text \<open>\<open>slices.SortFunc\<close>, as an insertion sort.\<close>

fun insort_cmp :: "('a \<Rightarrow> 'a \<Rightarrow> int) \<Rightarrow> 'a \<Rightarrow> 'a list \<Rightarrow> 'a list" where
  "insort_cmp cmp x [] = [x]"
| "insort_cmp cmp x (y # ys) = (if cmp x y \<le> 0 then x # y # ys else y # insort_cmp cmp x ys)"

definition SortFunc :: "('a \<Rightarrow> 'a \<Rightarrow> int) \<Rightarrow> 'a list \<Rightarrow> 'a list" where
  "SortFunc cmp xs = foldr (insort_cmp cmp) xs []"

definition compareCandidate :: "SortMode \<Rightarrow> candidate \<Rightarrow> candidate \<Rightarrow> int" where
  "compareCandidate mode a b =
     (if c_expiry a \<noteq> c_expiry b then (if c_expiry a < c_expiry b then -1 else 1)
      else if mode = SortModeStrict \<and> c_amount a \<noteq> c_amount b then (if c_amount a < c_amount b then -1 else 1)
      else
        let hcmp = bytes_compare (hash_bytes (Hash (c_op a))) (hash_bytes (Hash (c_op b))) in
        if hcmp \<noteq> 0 then hcmp
        else if Index (c_op a) < Index (c_op b) then -1
        else if Index (c_op b) < Index (c_op a) then 1
        else 0)"

definition sortCandidates :: "candidate list \<Rightarrow> SortMode \<Rightarrow> candidate list" where
  "sortCandidates cs mode = SortFunc (compareCandidate mode) cs"

definition selectCandidatesWithScanner :: "(nat \<Rightarrow> bool) \<Rightarrow> int32 \<Rightarrow> expiringScanner \<Rightarrow> UtxoViewpoint option \<Rightarrow>
    REAPParams \<Rightarrow> (reap_error + REAPPlan) option" where
  "selectCandidatesWithScanner ctx tip scanner view p =
     (case view of
        None \<Rightarrow> Some (Inl ErrNilView)
      | Some view \<Rightarrow>
          if MaxInputs p \<le> 0 then Some (Inl (ErrInvalidParam ''MaxInputs''))
          else if DustMaxInputs p < 0 then Some (Inl (ErrInvalidParam ''DustMaxInputs''))
          else
            let p = (if ScanBatch p \<le> 0 then p\<lparr>ScanBatch := 10000\<rparr> else p) in
            map_option (\<lambda>r. bind_r r (\<lambda>(found, n).
              let found = sortCandidates found (Sort p);
                  plan = (newPlan tip)\<lparr>Stats := zeroStats\<lparr>Candidates := int (length found)\<rparr>\<rparr>
              in bind_r (selectLoop ctx p n (map (\<lambda>c. (c_op c, c_amount c)) found) (plan, 0, 0))
                   (\<lambda>s. Inr (finishPlan p s))))
              (scanPages ctx scanner view (ScanBatch p) (of_int tip) 0 0 None []))"

definition SelectCandidates :: "(nat \<Rightarrow> bool) \<Rightarrow> int32 \<Rightarrow> index_state option \<Rightarrow> UtxoViewpoint option \<Rightarrow>
    REAPParams \<Rightarrow> (reap_error + REAPPlan) option" where
  "SelectCandidates ctx tip idx view p =
     (case idx of
        None \<Rightarrow> Some (Inl ErrNilIndex)
      | Some (idx, db) \<Rightarrow>
          selectCandidatesWithScanner ctx tip
            (\<lambda>fromKey toKey n startAfter. ScanExpiringUTXOs idx fromKey toKey n startAfter db) view p)"

section \<open>The transaction\<close>

definition MarkerDigest :: "OutPoint list \<Rightarrow> bytes" where
  "MarkerDigest inputs = hex_encode (sha256_bytes (concat (map (\<lambda>op.
     hash_bytes (Hash op) @ le_bytes 4 (unat (Index op))) inputs)))"

definition markerPayload :: "int32 \<Rightarrow> int \<Rightarrow> OutPoint list \<Rightarrow> bytes" where
  "markerPayload height cnt inputs =
     str_bytes ''REAP'' @ [0x3a] @ print_int height @ [0x3a] @ print_int cnt @ [0x3a] @ MarkerDigest inputs"

definition markerScript :: "int32 \<Rightarrow> int \<Rightarrow> OutPoint list \<Rightarrow> script_error + bytes" where
  "markerScript height cnt inputs =
     Script (AddData (markerPayload height cnt inputs) (AddOp OP_RETURN NewScriptBuilder))"

record blueprint =
  bp_in :: int64
  bp_tax :: int64
  bp_refunds :: "(bytes \<times> int64) list"
  bp_txin :: "TxIn list"

definition reapTxIn :: "OutPoint \<Rightarrow> TxIn" where
  "reapTxIn op = \<lparr>PreviousOutPoint = op, SignatureScript = [], Witness = [], Sequence = 0xFFFFFFFE\<rparr>"

definition blueprintInput :: "UtxoViewpoint \<Rightarrow> REAPParams \<Rightarrow> OutPoint \<Rightarrow> blueprint \<Rightarrow> reap_error + blueprint" where
  "blueprintInput view p op b =
     (case LookupEntry view op of
        None \<Rightarrow> Inl (ErrMissingUtxo op)
      | Some entry \<Rightarrow>
          if IsSpent entry then Inl (ErrMissingUtxo op)
          else
            let amt = amount entry;
                tax = taxForValue amt p;
                refund = wrap64 (amt - tax)
            in if refund < 0 then Inl ErrNegativeRefund
               else
                 let (refund, tax) = applyDustRule amt refund tax (DustThresholdSat p)
                 in Inr \<lparr>bp_in = wrap64 (bp_in b + amt), bp_tax = wrap64 (bp_tax b + tax),
                         bp_refunds = (if refund = 0 then bp_refunds b else add_to (pkScript entry) refund (bp_refunds b)),
                         bp_txin = bp_txin b @ [reapTxIn op]\<rparr>)"

definition BuildBlueprint :: "REAPPlan \<Rightarrow> UtxoViewpoint \<Rightarrow> REAPParams \<Rightarrow> reap_error + MsgTx" where
  "BuildBlueprint plan view p =
     bind_r (fold_r (blueprintInput view p) (Inputs plan)
        \<lparr>bp_in = 0, bp_tax = 0, bp_refunds = [], bp_txin = []\<rparr>) (\<lambda>b.
     let refundOutputs = SortFunc (\<lambda>a b. bytes_compare (fst a) (fst b)) (bp_refunds b);
         refundTotal = fold (\<lambda>(_, v) s. wrap64 (s + v)) refundOutputs 0
     in case markerScript (plan_Height plan) (int (length (Inputs plan))) (Inputs plan) of
          Inl e \<Rightarrow> Inl (ErrReapScript e)
        | Inr marker \<Rightarrow>
            let tx = \<lparr>Version = reapTxVersion, TxIn = bp_txin b,
                      TxOut = map (\<lambda>(s, v). \<lparr>Value = v, PkScript = s\<rparr>) refundOutputs
                        @ [\<lparr>Value = 0, PkScript = marker\<rparr>],
                      LockTime = (if plan_Height plan > 0 then of_int (plan_Height plan - 1) else 0)\<rparr>
            in if (TaxTotal plan \<noteq> 0 \<or> RefundTotal plan \<noteq> 0)
                 \<and> (TaxTotal plan \<noteq> bp_tax b \<or> RefundTotal plan \<noteq> refundTotal)
               then Inl ErrPlanTotals
               else if bp_in b \<noteq> wrap64 (refundTotal + bp_tax b) then Inl ErrInvariantBroken
               else Inr tx)"

section \<open>The budget\<close>

text \<open>The totals of the inputs of a plan: tax, refund, dust count and normal count.\<close>

definition planInput :: "UtxoViewpoint \<Rightarrow> REAPParams \<Rightarrow> OutPoint \<Rightarrow> int64 \<times> int64 \<times> int \<times> int \<Rightarrow>
    reap_error + (int64 \<times> int64 \<times> int \<times> int)" where
  "planInput view p op = (\<lambda>(taxTotal, refundTotal, dustCount, normalCount).
     case LookupEntry view op of
       None \<Rightarrow> Inl (ErrMissingUtxo op)
     | Some entry \<Rightarrow>
         if IsSpent entry then Inl (ErrMissingUtxo op)
         else
           let amt = amount entry;
               tax = taxForValue amt p;
               refund = wrap64 (amt - tax)
           in if refund < 0 then Inl ErrNegativeRefund
              else
                let (refund, tax) = applyDustRule amt refund tax (DustThresholdSat p);
                    d = isDustTierAmount amt (DustThresholdSat p)
                in Inr (wrap64 (taxTotal + tax), wrap64 (refundTotal + refund),
                        if d then dustCount + 1 else dustCount, if d then normalCount else normalCount + 1))"

definition normalizePlan :: "REAPPlan \<Rightarrow> UtxoViewpoint \<Rightarrow> REAPParams \<Rightarrow> reap_error + REAPPlan" where
  "normalizePlan plan view p =
     bind_r (fold_r (planInput view p) (Inputs plan) (0, 0, 0, 0)) (\<lambda>(taxTotal, refundTotal, dustCount, normalCount).
     let picked = int (length (Inputs plan));
         candidates = (if Candidates (Stats plan) < picked then picked else Candidates (Stats plan))
     in Inr (plan\<lparr>TaxTotal := taxTotal, RefundTotal := refundTotal,
          Stats := \<lparr>Candidates = candidates, Picked = picked, Skipped = candidates - picked,
             EstWeight = estimatePlanWeight dustCount normalCount picked p\<rparr>\<rparr>))"

text \<open>\<open>plan.Inputs[:len(plan.Inputs)-1]\<close> panics on an empty list.\<close>

function budgetLoop :: "REAPPlan \<Rightarrow> UtxoViewpoint \<Rightarrow> REAPParams \<Rightarrow> int64 \<Rightarrow>
    reap_error + (MsgTx option \<times> REAPPlan \<times> int64)" where
  "budgetLoop plan view p maxTxWeight =
     bind_r (normalizePlan plan view p) (\<lambda>normalized.
     bind_r (BuildBlueprint normalized view p) (\<lambda>msgTx.
     let txWeight = GetTransactionWeight msgTx;
         hardOver = (maxTxWeight > 0 \<and> txWeight \<ge> maxTxWeight);
         softOver = (WeightBudget p > 0 \<and> txWeight > WeightBudget p)
     in if hardOver then
          (if length (Inputs plan) = 1 then Inl ErrHardLimit
           else if Inputs plan = [] then Inl ErrReapPanic
           else budgetLoop (plan\<lparr>Inputs := butlast (Inputs plan)\<rparr>) view p maxTxWeight)
        else if softOver then
          (if length (Inputs plan) = 1 then Inr (None, normalized, txWeight)
           else if Inputs plan = [] then Inl ErrReapPanic
           else budgetLoop (plan\<lparr>Inputs := butlast (Inputs plan)\<rparr>) view p maxTxWeight)
        else Inr (Some msgTx, normalized\<lparr>Stats := (Stats normalized)\<lparr>EstWeight := txWeight\<rparr>\<rparr>, txWeight)))"
  by pat_completeness auto
termination by (relation "measure (\<lambda>(plan, _). length (Inputs plan))") auto

declare budgetLoop.simps [simp del]

definition BuildBudgetedBlueprint :: "REAPPlan \<Rightarrow> UtxoViewpoint option \<Rightarrow> REAPParams \<Rightarrow> int64 \<Rightarrow>
    reap_error + (MsgTx option \<times> REAPPlan \<times> int64)" where
  "BuildBudgetedBlueprint plan view p maxTxWeight =
     (if Inputs plan = [] then Inr (None, plan, 0)
      else case view of
        None \<Rightarrow> Inl ErrNilView
      | Some view \<Rightarrow> budgetLoop plan view p maxTxWeight)"

record DryRunSummary =
  dr_Picked :: int
  dr_TaxTotal :: int64
  dr_RefundTotal :: int64
  dr_EstWeight :: int64
  dr_MarkerHash :: bytes

definition BuildDryRunSummary :: "REAPPlan \<Rightarrow> UtxoViewpoint \<Rightarrow> REAPParams \<Rightarrow> reap_error + DryRunSummary" where
  "BuildDryRunSummary plan view p =
     bind_r (fold_r (planInput view p) (Inputs plan) (0, 0, 0, 0)) (\<lambda>(taxTotal, refundTotal, dustCount, normalCount).
     Inr \<lparr>dr_Picked = int (length (Inputs plan)), dr_TaxTotal = taxTotal, dr_RefundTotal = refundTotal,
          dr_EstWeight = estimatePlanWeight dustCount normalCount (int (length (Inputs plan))) p,
          dr_MarkerHash = MarkerDigest (Inputs plan)\<rparr>)"

section \<open>The policy's recogniser\<close>

definition ExtractMarkerPayload :: "bytes \<Rightarrow> bytes option" where
  "ExtractMarkerPayload pk =
     (if length pk = 0 \<or> hd pk \<noteq> OP_RETURN then None
      else case PushedData pk of
        Inl _ \<Rightarrow> None
      | Inr [] \<Rightarrow> None
      | Inr (d # _) \<Rightarrow> Some d)"

definition IsLikelyREAPTx :: "MsgTx \<Rightarrow> bool" where
  "IsLikelyREAPTx tx =
     (if Version tx \<noteq> reapTxVersion then False
      else if length (TxOut tx) < 1 then False
      else
        let markerOut = last (TxOut tx) in
        if Value markerOut \<noteq> 0 then False
        else case ExtractMarkerPayload (PkScript markerOut) of
          None \<Rightarrow> False
        | Some marker \<Rightarrow> HasPrefix marker (str_bytes ''REAP:''))"

section \<open>Block templates\<close>

text \<open>
  The REAP part of the block template generator (\<open>mining/template_reap.go\<close>).  The chain is a
  parameter: the view it fetches for a list of outpoints.  The policy is present.
\<close>

record reap_generator =
  g_reapIndex :: "index_state option"
  g_chainParams :: Params
  g_fetchUtxoView :: "OutPoint list \<Rightarrow> UtxoViewpoint option"
  g_BlockMaxWeight :: u32

definition maybeBuildREAPTx :: "reap_generator \<Rightarrow> int32 \<Rightarrow> reap_error + (MsgTx \<times> int64) option" where
  "maybeBuildREAPTx g nextBlockHeight =
     (case g_reapIndex g of
        None \<Rightarrow> Inr None
      | Some (idx, db) \<Rightarrow>
        if \<not> IsOBTC (g_chainParams g) then Inr None
        else case GetExpiryParams (g_chainParams g) of
          None \<Rightarrow> Inr None
        | Some ep \<Rightarrow>
          if nextBlockHeight < EnableAtHeight ep then Inr None
          else
            let p = DefaultREAPParamsForNet (g_chainParams g) SortModeStrict in
            bind_r (REAPParams_Validate p) (\<lambda>_.
            case ReapPrefixCandidates idx nextBlockHeight (PrefixCandidateLimit p) db of
              Inl e \<Rightarrow> Inl (ErrReapIndex e)
            | Inr candidates \<Rightarrow>
              if candidates = [] then Inr None
              else
                bind_r (SelectPrefixCandidates (\<lambda>_. False) nextBlockHeight candidates p) (\<lambda>plan.
                if Inputs plan = [] then Inr None
                else case g_fetchUtxoView g (Inputs plan) of
                  None \<Rightarrow> Inl ErrFetchView
                | Some view \<Rightarrow>
                    bind_r (BuildBudgetedBlueprint plan (Some view) p (uint (g_BlockMaxWeight g))) (\<lambda>(tx, plan, actualWeight).
                    case tx of
                      None \<Rightarrow> Inr None
                    | Some tx \<Rightarrow> Inr (Some (tx, TaxTotal plan))))))"

definition reservedREAPWeight :: "reap_generator \<Rightarrow> int32 \<Rightarrow> u32" where
  "reservedREAPWeight g nextBlockHeight =
     (if g_reapIndex g = None \<or> \<not> IsOBTC (g_chainParams g) then 0
      else case GetExpiryParams (g_chainParams g) of
        None \<Rightarrow> 0
      | Some ep \<Rightarrow>
          if nextBlockHeight < EnableAtHeight ep then 0
          else
            let p = DefaultREAPParamsForNet (g_chainParams g) SortModeStrict in
            if WeightBudget p \<le> 0 then 0
            else
              let maxWeight = (ucast (g_BlockMaxWeight g) :: u64);
                  reserve = (of_int (WeightBudget p) :: u64)
              in if maxWeight = 0 \<or> reserve \<ge> maxWeight then 0 else ucast reserve)"

definition normalTxWeightLimit :: "reap_generator \<Rightarrow> int32 \<Rightarrow> bool \<Rightarrow> u32 list \<Rightarrow> u32" where
  "normalTxWeightLimit g nextBlockHeight reserveForREAP plannedREAPWeight =
     (let limit = g_BlockMaxWeight g in
      if \<not> reserveForREAP then limit
      else
        let reserve = (case plannedREAPWeight of w # _ \<Rightarrow> w | [] \<Rightarrow> reservedREAPWeight g nextBlockHeight)
        in if reserve > 0 \<and> reserve < limit then limit - reserve else limit)"

text \<open>The rows of the pages, cut at the limit; \<open>None\<close> is a loop that does not return.\<close>

partial_function (option) collectPages :: "expiringScanner \<Rightarrow> int \<Rightarrow> int \<Rightarrow> u64 \<Rightarrow> u64 \<Rightarrow> OutPoint option \<Rightarrow>
    OutPoint list \<Rightarrow> (index_error + OutPoint list) option" where
  "collectPages scanner batch maxCandidates toKey fromKey startAfter out =
     (if \<not> int (length out) < maxCandidates then Some (Inr out)
      else case scanner fromKey toKey batch startAfter of
        Inl e \<Rightarrow> Some (Inl e)
      | Inr (rows, hasMore) \<Rightarrow>
          (if rows = [] then Some (Inr out)
           else
             let out = out @ take (nat maxCandidates - length out) (map exp_OutPoint rows) in
             if \<not> hasMore then Some (Inr out)
             else collectPages scanner batch maxCandidates toKey (exp_ExpiryKey (last rows))
                    (Some (exp_OutPoint (last rows))) out))"

definition collectExpiredOutpoints :: "expiringScanner \<Rightarrow> int32 \<Rightarrow> REAPParams \<Rightarrow> (index_error + OutPoint list) option" where
  "collectExpiredOutpoints scanner nextBlockHeight p =
     (let prefixLimit = PrefixCandidateLimit p;
          maxCandidates = wrap64 (prefixLimit * 20);
          maxCandidates = (if maxCandidates < prefixLimit then prefixLimit else maxCandidates);
          maxCandidates = (if maxCandidates > 50000 then 50000 else maxCandidates)
      in collectPages scanner (ScanBatch p) maxCandidates (of_int nextBlockHeight) 0 None [])"

definition mergeUtxoEntriesIfMissing :: "UtxoViewpoint \<Rightarrow> UtxoViewpoint \<Rightarrow> UtxoViewpoint" where
  "mergeUtxoEntriesIfMissing dst src =
     dst\<lparr>entries := (\<lambda>op. case entries dst op of Some e \<Rightarrow> Some e | None \<Rightarrow> entries src op)\<rparr>"

end
