(* ===== verification/Reap_Agreement.thy ===== *)
theory Reap_Agreement
  imports Reap_Mining
begin

text \<open>
  The miner and the validator agree: the marker a blueprint carries is the one the validator
  recomputes, the parameters of the two sides coincide, and the transaction the template generator
  builds from the index passes every REAP rule.
\<close>

section \<open>Markers\<close>

lemma length_print_digits: "n < 10 ^ Suc k \<Longrightarrow> length (print_digits n) \<le> Suc k"
proof (induction k arbitrary: n)
  case 0
  then show ?case by (subst print_digits.simps) simp
next
  case (Suc k)
  then have "n div 10 < 10 ^ Suc k" by (simp add: less_mult_imp_div_less)
  with Suc.IH [of "n div 10"] show ?case by (subst print_digits.simps) simp
qed

lemma length_print_int:
  assumes "is_int64 v"
  shows "length (print_int v) \<le> 20"
proof -
  have "nat \<bar>v\<bar> < 10 ^ Suc 18" using assms by (auto simp: is_int64_def nat_less_iff)
  from length_print_digits [OF this] show ?thesis by (simp add: print_int_def abs_if split: if_splits)
qed

lemma length_MarkerDigest [simp]: "length (MarkerDigest ops) = 64"
  by (simp add: MarkerDigest_def)

lemma length_markerPayload:
  assumes "is_int64 h" and "is_int64 n"
  shows "length (markerPayload h n ops) \<le> 111"
  using length_print_int [OF assms(1)] length_print_int [OF assms(2)]
  by (simp add: markerPayload_def str_bytes_def)

lemma markerScript_eq:
  assumes "is_int64 h" and "is_int64 n"
  shows "markerScript h n ops = Inr (OP_RETURN # push_bytes (markerPayload h n ops))"
  using length_markerPayload [OF assms, of ops]
  by (simp add: markerScript_def Script_OP_RETURN_AddData MaxScriptElementSize_def)

lemma marker_payload_read_back:
  assumes "is_int64 h" and "is_int64 n"
  shows "extractMarkerPayload (OP_RETURN # push_bytes (markerPayload h n ops)) = Some (markerPayload h n ops)"
proof -
  have "\<not> is_small_push (markerPayload h n ops)"
    by (auto simp: is_small_push_def markerPayload_def str_bytes_def)
  then show ?thesis
    using length_markerPayload [OF assms, of ops]
    by (simp add: extractMarkerPayload_def PushedData_OP_RETURN_push)
qed

lemma HasPrefix_markerPayload: "HasPrefix (markerPayload h n ops) (str_bytes ''REAP:'')"
  by (simp add: HasPrefix_def markerPayload_def str_bytes_def)

lemma parse_markerPayload:
  assumes "is_int32 h" and "is_int64 n"
  shows "parseReapMarkerPayload (markerPayload h n ops) = Some (h, n, MarkerDigest ops)"
proof -
  have nc: "0x3a \<notin> set (str_bytes ''REAP'')" "0x3a \<notin> set (print_int h)" "0x3a \<notin> set (print_int n)"
    "0x3a \<notin> set (MarkerDigest ops)"
    by (simp_all add: str_bytes_def print_int_no_colon MarkerDigest_def hex_encode_no_colon)
  have "Split 0x3a (markerPayload h n ops) = [str_bytes ''REAP'', print_int h, print_int n, MarkerDigest ops]"
    by (simp add: markerPayload_def Split_append [OF nc(1)] Split_append [OF nc(2)] Split_append [OF nc(3)]
        Split_no_sep [OF nc(4)])
  moreover have "ParseInt 32 (print_int h) = Some h"
    using assms(1) by (intro ParseInt_print) (simp_all add: is_int32_def)
  moreover have "Atoi (print_int n) = Some n"
    unfolding Atoi_def using assms(2) by (intro ParseInt_print) (simp_all add: is_int64_def)
  moreover have "hex_decode (MarkerDigest ops) \<noteq> None" by (simp add: MarkerDigest_def)
  ultimately show ?thesis by (auto simp: parseReapMarkerPayload_def)
qed

lemma reapInputDigest_eq: "reapInputDigest tx = MarkerDigest (map PreviousOutPoint (TxIn tx))"
  by (simp add: reapInputDigest_def MarkerDigest_def comp_def)

text \<open>A transaction of the right version whose last output carries the marker of its own inputs.\<close>

definition marked :: "int32 \<Rightarrow> MsgTx \<Rightarrow> bool" where
  "marked h tx \<longleftrightarrow> Version tx = reapTxVersion \<and> TxOut tx \<noteq> [] \<and>
     last (TxOut tx) = \<lparr>Value = 0, PkScript = OP_RETURN # push_bytes
       (markerPayload h (int (length (TxIn tx))) (map PreviousOutPoint (TxIn tx)))\<rparr>"

lemma marked_accepted:
  assumes "marked h tx" and "is_int32 h" and "is_int64 (int (length (TxIn tx)))"
  shows "isLikelyReapTx tx" and "checkReapMarker tx h = Inr ()"
proof -
  have h: "is_int64 h" using assms(2) by (simp add: is_int32_def is_int64_def)
  note rb = marker_payload_read_back [OF h assms(3), of "map PreviousOutPoint (TxIn tx)"]
  show r: "isLikelyReapTx tx"
    using assms(1) rb HasPrefix_markerPayload by (simp add: marked_def isLikelyReapTx_def Suc_le_eq)
  show "checkReapMarker tx h = Inr ()"
    using assms(1) rb r parse_markerPayload [OF assms(2,3)]
    by (simp add: marked_def checkReapMarker_def reapInputDigest_eq)
qed

section \<open>Parameters\<close>

definition miner_params :: "ExpiryParams \<Rightarrow> REAPParams \<Rightarrow> bool" where
  "miner_params ep p \<longleftrightarrow> wf_expiry_params ep \<and> MaxInputs p = ReapMaxInputs ep \<and>
     DustMaxInputs p = ReapDustMaxInputs ep \<and> WeightBudget p = ReapMaxWeight ep \<and>
     TaxNum p = ReapTaxNumerator ep \<and> TaxDen p = ReapTaxDenominator ep \<and>
     DustThresholdSat p = ReapDustThresholdSat ep"

lemma miner_params_ForNet:
  assumes "GetExpiryParams params = Some ep"
  shows "miner_params ep (DefaultREAPParamsForNet params mode)"
    and "REAPParams_Validate (DefaultREAPParamsForNet params mode) = Inr ()"
    and "PrefixCandidateLimit (DefaultREAPParamsForNet params mode) = ReapMaxInputs ep + ReapDustMaxInputs ep"
proof -
  have wf: "wf_expiry_params ep" by (rule wf_GetExpiryParams [OF assms])
  have pos: "0 < ReapMaxInputs ep" "0 < ReapDustMaxInputs ep" "0 < ReapMaxWeight ep"
    "0 < ReapTaxNumerator ep" "0 < ReapTaxDenominator ep" "0 < ReapDustThresholdSat ep"
    "ReapMaxInputs ep + ReapDustMaxInputs ep < 2 ^ 31"
    using wf by (auto simp: wf_expiry_params_def)
  then have w: "wrap64 (ReapMaxInputs ep + ReapDustMaxInputs ep) = ReapMaxInputs ep + ReapDustMaxInputs ep"
    by (intro wrap64_id) (simp add: is_int64_def)
  show "miner_params ep (DefaultREAPParamsForNet params mode)"
    "REAPParams_Validate (DefaultREAPParamsForNet params mode) = Inr ()"
    "PrefixCandidateLimit (DefaultREAPParamsForNet params mode) = ReapMaxInputs ep + ReapDustMaxInputs ep"
    using assms pos wf w
    by (simp_all add: miner_params_def DefaultREAPParamsForNet_def DefaultREAPParams_def Let_def
        REAPParams_Validate_def PrefixCandidateLimit_def)
qed

lemma rules_agree:
  assumes "miner_params ep p"
  shows "taxForValue v p = reapTaxForValue v ep"
    and "applyDustRule v r t (DustThresholdSat p) = applyReapDustRule v r t ep"
    and "isDustTierAmount v (DustThresholdSat p) = isReapDustTierAmount v ep"
  using assms
  by (simp_all add: miner_params_def taxForValue_def reapTaxForValue_def applyDustRule_def applyReapDustRule_def
      isDustTierAmount_def isReapDustTierAmount_def)

section \<open>Selection\<close>

lemma cand_key_fields [simp]:
  "ok_expiry (cand_key c) = cand_ExpiryKey c" "ok_amount (cand_key c) = cand_Amount c"
  "ok_op (cand_key c) = cand_OutPoint c"
  by (simp_all add: cand_key_def)

text \<open>The selection is a prefix of the candidates that respects the caps.\<close>

lemma selectLoop_prefix:
  assumes "miner_params ep p"
    and "selectLoop (\<lambda>_. False) p i (map (\<lambda>c. (cand_OutPoint c, cand_Amount c)) cs) (plan, d, n) = Inr (plan', d', n')"
  shows "\<exists>k. Inputs plan' = Inputs plan @ map cand_OutPoint (take k cs) \<and> plan_Height plan' = plan_Height plan
    \<and> within_caps ep d n (map cand_key (take k cs))
    \<and> (cs \<noteq> [] \<and> Inputs plan = [] \<and> d < ReapDustMaxInputs ep \<and> n < ReapMaxInputs ep \<longrightarrow> 0 < k)"
  using assms(2)
proof (induction cs arbitrary: i plan d n)
  case Nil
  then show ?case by (auto intro!: exI [of _ 0])
next
  case (Cons c cs)
  have caps: "DustMaxInputs p = ReapDustMaxInputs ep" "MaxInputs p = ReapMaxInputs ep" "0 < DustMaxInputs p"
    using assms(1) by (simp_all add: miner_params_def wf_expiry_params_def)
  let ?t = "isReapDustTierAmount (cand_Amount c) ep"
  let ?d = "if ?t then d + 1 else d" and ?n = "if ?t then n else n + 1"
  show ?case
  proof (cases "canSelectTierCandidate ?t d n p \<and> \<not> (WeightBudget p > 0 \<and>
      estimateNextWeight ?t d n (int (length (Inputs plan))) p > WeightBudget p \<and> Inputs plan \<noteq> [])")
    case False
    then have "Inputs plan' = Inputs plan" "plan_Height plan' = plan_Height plan"
      using Cons.prems by (auto simp: rules_agree(3) [OF assms(1)] Let_def split: if_splits)
    moreover have "Inputs plan \<noteq> [] \<or> \<not> (d < ReapDustMaxInputs ep \<and> n < ReapMaxInputs ep)"
      using False caps by (auto simp: canSelectTierCandidate_def split: if_splits)
    ultimately show ?thesis by (intro exI [of _ 0]) auto
  next
    case True
    then have dn: "d < ReapDustMaxInputs ep" "n < ReapMaxInputs ep"
      using caps by (auto simp: canSelectTierCandidate_def split: if_splits)
    obtain refund tax where rt: "applyDustRule (cand_Amount c) (wrap64 (cand_Amount c - taxForValue (cand_Amount c) p))
        (taxForValue (cand_Amount c) p) (DustThresholdSat p) = (refund, tax)" by (rule prod.exhaust)
    define pl where "pl = plan\<lparr>Inputs := Inputs plan @ [cand_OutPoint c], TaxTotal := wrap64 (TaxTotal plan + tax),
      RefundTotal := wrap64 (RefundTotal plan + refund)\<rparr>"
    have pl: "Inputs pl = Inputs plan @ [cand_OutPoint c]" "plan_Height pl = plan_Height plan" by (simp_all add: pl_def)
    show ?thesis
    proof (cases "tierLimitReached ?d ?n p")
      case limit: True
      then have "Inputs plan' = Inputs pl" "plan_Height plan' = plan_Height pl"
        using Cons.prems True rt by (auto simp: rules_agree(3) [OF assms(1)] Let_def pl_def)
      then show ?thesis
        using dn pl by (intro exI [of _ 1]) (simp add: within_caps_Cons)
    next
      case no_limit: False
      then have "selectLoop (\<lambda>_. False) p (Suc i) (map (\<lambda>c. (cand_OutPoint c, cand_Amount c)) cs) (pl, ?d, ?n)
          = Inr (plan', d', n')"
        using Cons.prems True rt by (simp add: rules_agree(3) [OF assms(1)] Let_def pl_def)
      from Cons.IH [OF this] obtain k where k: "Inputs plan' = Inputs pl @ map cand_OutPoint (take k cs)"
        "plan_Height plan' = plan_Height pl" "within_caps ep ?d ?n (map cand_key (take k cs))" by blast
      then show ?thesis
        using dn pl by (intro exI [of _ "Suc k"]) (simp add: within_caps_Cons)
    qed
  qed
qed

lemma selectLoop_total:
  "\<exists>r. selectLoop (\<lambda>_. False) p i cs s = Inr r"
  by (induction "\<lambda>_ :: nat. False" p i cs s rule: selectLoop.induct) (auto simp: Let_def split: prod.splits)

lemma within_caps_take: "within_caps p d n ks \<Longrightarrow> within_caps p d n (take k ks)"
  by (simp add: within_caps_def min_def)

lemma SelectPrefixCandidates_prefix:
  assumes "miner_params ep p" and "SelectPrefixCandidates (\<lambda>_. False) h cs p = Inr plan"
  shows "\<exists>k. Inputs plan = map cand_OutPoint (take k cs) \<and> plan_Height plan = h
    \<and> within_caps ep 0 0 (map cand_key (take k cs)) \<and> (cs \<noteq> [] \<longrightarrow> 0 < k)"
proof -
  let ?plan = "(newPlan h)\<lparr>Stats := zeroStats\<lparr>Candidates := int (length cs)\<rparr>\<rparr>"
  have pos: "0 < ReapDustMaxInputs ep" "0 < ReapMaxInputs ep"
    using assms(1) by (simp_all add: miner_params_def wf_expiry_params_def)
  obtain plan' d' n' where
    "selectLoop (\<lambda>_. False) p 0 (map (\<lambda>c. (cand_OutPoint c, cand_Amount c)) cs) (?plan, 0, 0) = Inr (plan', d', n')"
    and fin: "plan = finishPlan p (plan', d', n')"
    using assms(2) by (auto simp: SelectPrefixCandidates_def bind_r_eq_Inr Let_def split: if_splits)
  from selectLoop_prefix [OF assms(1) this(1)] obtain k where
    "Inputs plan' = map cand_OutPoint (take k cs)" "plan_Height plan' = h"
    "within_caps ep 0 0 (map cand_key (take k cs))" "cs \<noteq> [] \<longrightarrow> 0 < k"
    using pos by (auto simp: newPlan_def)
  then show ?thesis by (auto simp: fin finishPlan_def)
qed

section \<open>The budget loop\<close>

lemma budgetLoop_step:
  assumes "normalizePlan plan view p = Inr norm" and "BuildBlueprint norm view p = Inr tx"
  shows "budgetLoop plan view p w =
    (let cut = (if Inputs plan = [] then Inl ErrReapPanic
                else budgetLoop (plan\<lparr>Inputs := butlast (Inputs plan)\<rparr>) view p w);
         wt = GetTransactionWeight tx
     in if 0 < w \<and> w \<le> wt then (if length (Inputs plan) = 1 then Inl ErrHardLimit else cut)
        else if 0 < WeightBudget p \<and> WeightBudget p < wt
        then (if length (Inputs plan) = 1 then Inr (None, norm, wt) else cut)
        else Inr (Some tx, norm\<lparr>Stats := (Stats norm)\<lparr>EstWeight := wt\<rparr>\<rparr>, wt))"
  by (subst budgetLoop.simps) (simp only: assms bind_r_Inr Let_def)

text \<open>A transaction the loop returns is the blueprint of a non-empty prefix of the inputs and within
  both limits.\<close>

lemma budgetLoop_Some:
  assumes "budgetLoop plan view p w = Inr (Some tx, plan', wt)" and "Inputs plan \<noteq> []"
  shows "\<exists>k norm. 0 < k \<and> normalizePlan (plan\<lparr>Inputs := take k (Inputs plan)\<rparr>) view p = Inr norm
    \<and> BuildBlueprint norm view p = Inr tx \<and> TaxTotal plan' = TaxTotal norm \<and> wt = GetTransactionWeight tx
    \<and> (0 < w \<longrightarrow> wt < w) \<and> (0 < WeightBudget p \<longrightarrow> wt \<le> WeightBudget p)"
  using assms
proof (induction "length (Inputs plan)" arbitrary: plan rule: less_induct)
  case less
  have "bind_r (normalizePlan plan view p) (\<lambda>norm. BuildBlueprint norm view p) \<noteq> Inl e" for e
    using less.prems(1) by (subst (asm) budgetLoop.simps) (auto simp: bind_r_def split: sum.splits)
  then obtain norm msgTx where nb: "normalizePlan plan view p = Inr norm" "BuildBlueprint norm view p = Inr msgTx"
    by (metis bind_r_Inl bind_r_Inr old.sum.exhaust)
  let ?wt = "GetTransactionWeight msgTx"
  let ?over = "0 < w \<and> w \<le> ?wt \<or> 0 < WeightBudget p \<and> WeightBudget p < ?wt"
  let ?cut = "plan\<lparr>Inputs := butlast (Inputs plan)\<rparr>"
  note step = less.prems(1) [unfolded budgetLoop_step [OF nb] Let_def]
  show ?case
  proof (cases ?over)
    case False
    then have "tx = msgTx" "wt = ?wt" "TaxTotal plan' = TaxTotal norm"
      using step by (auto split: if_splits)
    then show ?thesis
      using False nb less.prems(2) by (intro exI [of _ "length (Inputs plan)"] exI [of _ norm]) auto
  next
    case True
    then have len: "length (Inputs plan) \<noteq> 1" and rec: "budgetLoop ?cut view p w = Inr (Some tx, plan', wt)"
      using step less.prems(2) by (auto split: if_splits)
    have ne: "Inputs ?cut \<noteq> []"
      using len less.prems(2) by (cases "Inputs plan" rule: rev_cases) auto
    have lt: "length (Inputs ?cut) < length (Inputs plan)" using less.prems(2) by simp
    obtain k norm' where k: "0 < k" "normalizePlan (?cut\<lparr>Inputs := take k (Inputs ?cut)\<rparr>) view p = Inr norm'"
      "BuildBlueprint norm' view p = Inr tx" "TaxTotal plan' = TaxTotal norm'" "wt = GetTransactionWeight tx"
      "(0 < w \<longrightarrow> wt < w) \<and> (0 < WeightBudget p \<longrightarrow> wt \<le> WeightBudget p)"
      using less.hyps [OF lt rec ne] by blast
    have "take k (butlast (Inputs plan)) = take (min k (length (Inputs plan) - 1)) (Inputs plan)"
      by (simp add: butlast_conv_take min_def)
    moreover have "0 < min k (length (Inputs plan) - 1)" using k(1) ne by (cases "Inputs plan") auto
    ultimately show ?thesis
      using k by (intro exI [of _ "min k (length (Inputs plan) - 1)"] exI [of _ norm']) auto
  qed
qed

section \<open>The blueprint\<close>

text \<open>The outputs a plan spends are there, and their values are amounts of money.\<close>

definition sane_entries :: "UtxoViewpoint \<Rightarrow> OutPoint list \<Rightarrow> UtxoEntry list \<Rightarrow> bool" where
  "sane_entries view ops es \<longleftrightarrow> spends_entries view (map reapTxIn ops) es
     \<and> (\<forall>e \<in> set es. 0 \<le> amount e) \<and> total_amount es \<le> MaxSatoshi"

lemma sane_entries_Cons:
  assumes "sane_entries view (op # ops) es"
  obtains e es' where "es = e # es'" and "LookupEntry view op = Some e" and "\<not> IsSpent e"
    and "0 \<le> amount e" and "amount e \<le> MaxSatoshi" and "sane_entries view ops es'"
proof -
  obtain e es' where e: "es = e # es'" "live_entry view (reapTxIn op) = Some e" "spends_entries view (map reapTxIn ops) es'"
    using assms by (auto simp: sane_entries_def spends_entries_Cons)
  have "0 \<le> total_amount es'" using assms e(1) by (intro sum_list_nonneg) (auto simp: sane_entries_def)
  then show ?thesis
    using assms e that by (auto simp: sane_entries_def live_entry_Some_iff reapTxIn_def)
qed

lemma planInputs_eq:
  assumes mp: "miner_params ep p" and "sane_entries view ops es"
    and "0 \<le> t" "0 \<le> r" "t + r + total_amount es \<le> MaxSatoshi"
  shows "\<exists>d' n'. fold_r (planInput view p) ops (t, r, d, n) =
    Inr (t + sum_list (map (tax_of ep) es), r + sum_list (map (refund_of ep) es), d', n')"
  using assms(2-)
proof (induction ops arbitrary: es t r d n)
  case (Cons op ops)
  have wf: "wf_expiry_params ep" using mp by (simp add: miner_params_def)
  from Cons.prems(1) obtain e es' where e: "es = e # es'" "LookupEntry view op = Some e" "\<not> IsSpent e"
    "0 \<le> amount e" "amount e \<le> MaxSatoshi" "sane_entries view ops es'" by (rule sane_entries_Cons)
  note r = refund_rule [OF wf e(4,5)] and b = tax_of_bounds [OF wf e(4,5)]
  have tot: "0 \<le> total_amount es'" using e(6) by (intro sum_list_nonneg) (auto simp: sane_entries_def)
  have rt: "refund_of ep e + tax_of ep e = amount e" by (simp add: refund_of_def)
  have w: "wrap64 (t + tax_of ep e) = t + tax_of ep e" "wrap64 (r + refund_of ep e) = r + refund_of ep e"
    using b rt Cons.prems e(1) tot by (auto intro!: wrap64_id simp: is_int64_def MaxSatoshi_def)
  have nonneg: "\<not> wrap64 (amount e - reapTaxForValue (amount e) ep) < 0"
    using reapTaxForValue_eq(3) [OF wf e(4,5)] r(1) by simp
  then obtain d1 n1 where one: "planInput view p op (t, r, d, n) = Inr (t + tax_of ep e, r + refund_of ep e, d1, n1)"
    using e(2,3) r w by (simp add: planInput_def rules_agree [OF mp] Let_def)
  have "\<exists>d' n'. fold_r (planInput view p) ops (t + tax_of ep e, r + refund_of ep e, d1, n1) =
    Inr (t + tax_of ep e + sum_list (map (tax_of ep) es'), r + refund_of ep e + sum_list (map (refund_of ep) es'), d', n')"
    using Cons.prems b rt e(1,6) by (intro Cons.IH) auto
  with one e(1) show ?case by (simp add: add.assoc)
qed (auto simp: sane_entries_def)

lemma blueprintInputs_eq:
  assumes mp: "miner_params ep p" and "sane_entries view ops es"
    and "0 \<le> bp_tax b" "0 \<le> bp_in b" "bp_tax b + total_amount es \<le> MaxSatoshi" "bp_in b + total_amount es \<le> MaxSatoshi"
  shows "fold_r (blueprintInput view p) ops b =
    Inr \<lparr>bp_in = bp_in b + total_amount es, bp_tax = bp_tax b + sum_list (map (tax_of ep) es),
      bp_refunds = add_all (filter (\<lambda>(k, v). 0 < v) (refunds ep es)) (bp_refunds b),
      bp_txin = bp_txin b @ map reapTxIn ops\<rparr>"
  using assms(2-)
proof (induction ops arbitrary: es b)
  case (Cons op ops)
  have wf: "wf_expiry_params ep" using mp by (simp add: miner_params_def)
  from Cons.prems(1) obtain e es' where e: "es = e # es'" "LookupEntry view op = Some e" "\<not> IsSpent e"
    "0 \<le> amount e" "amount e \<le> MaxSatoshi" "sane_entries view ops es'" by (rule sane_entries_Cons)
  note r = refund_rule [OF wf e(4,5)] and bd = tax_of_bounds [OF wf e(4,5)]
  have tot: "0 \<le> total_amount es'" using e(6) by (intro sum_list_nonneg) (auto simp: sane_entries_def)
  have w: "wrap64 (bp_tax b + tax_of ep e) = bp_tax b + tax_of ep e" "wrap64 (bp_in b + amount e) = bp_in b + amount e"
    using bd e(4) Cons.prems e(1) tot by (auto intro!: wrap64_id simp: is_int64_def MaxSatoshi_def)
  have nonneg: "\<not> wrap64 (amount e - reapTaxForValue (amount e) ep) < 0"
    using reapTaxForValue_eq(3) [OF wf e(4,5)] r(1) by simp
  let ?b = "\<lparr>bp_in = bp_in b + amount e, bp_tax = bp_tax b + tax_of ep e,
    bp_refunds = (if 0 < refund_of ep e then add_to (pkScript e) (refund_of ep e) (bp_refunds b) else bp_refunds b),
    bp_txin = bp_txin b @ [reapTxIn op]\<rparr>"
  have one: "blueprintInput view p op b = Inr ?b"
    using e(2,3) r w nonneg bd(3) by (simp add: blueprintInput_def rules_agree [OF mp] Let_def)
  have "fold_r (blueprintInput view p) ops ?b =
    Inr \<lparr>bp_in = bp_in ?b + total_amount es', bp_tax = bp_tax ?b + sum_list (map (tax_of ep) es'),
      bp_refunds = add_all (filter (\<lambda>(k, v). 0 < v) (refunds ep es')) (bp_refunds ?b),
      bp_txin = bp_txin ?b @ map reapTxIn ops\<rparr>"
    using Cons.prems bd e(1,4,6) by (intro Cons.IH) auto
  with one e(1) show ?case by simp
qed (auto simp: sane_entries_def)

lemma mset_insort_cmp: "mset (insort_cmp cmp x xs) = add_mset x (mset xs)"
  by (induction xs) auto

lemma mset_SortFunc: "mset (SortFunc cmp xs) = mset xs"
  by (induction xs) (auto simp: SortFunc_def mset_insort_cmp)

lemma set_SortFunc [simp]: "set (SortFunc cmp xs) = set xs"
  using mset_SortFunc [of cmp xs] by (metis set_mset_mset)

lemma paid_to_mset: "mset ps = mset qs \<Longrightarrow> paid_to ps s = paid_to qs s"
  by (metis (no_types, lifting) paid_to_def mset_filter mset_map sum_mset_sum_list)

lemma paid_to_map_of:
  assumes "distinct (map fst m)"
  shows "paid_to m s = (case map_of m s of None \<Rightarrow> 0 | Some v \<Rightarrow> v)"
  using assms
proof (induction m)
  case (Cons kv m)
  obtain k v where kv: "kv = (k, v)" by (cases kv)
  have "map_of m k = None" using Cons.prems kv by (simp add: map_of_eq_None_iff)
  then show ?case using Cons kv by auto
qed simp

text \<open>The sorted refund list of sane entries: positive, what every script gets, and its sum.\<close>

lemma refundOutputs_paid:
  assumes wf: "wf_expiry_params ep" and es: "\<forall>e \<in> set es. 0 \<le> amount e" "total_amount es \<le> MaxSatoshi"
    and ro: "ro = SortFunc cmp (add_all (filter (\<lambda>(k, v). 0 < v) (refunds ep es)) [])"
  shows "\<forall>(k, v) \<in> set ro. 0 < v" and "paid_to ro s = paid_to (refunds ep es) s"
    and "sum_list (map snd ro) = sum_list (map (refund_of ep) es)" and "distinct (map fst ro)"
proof -
  let ?pos = "filter (\<lambda>(k, v). 0 < v) (refunds ep es)" let ?m = "add_all ?pos []"
  note ref = sum_refunds_le [OF wf es]
  have nn: "\<forall>(k, v) \<in> set (refunds ep es). 0 \<le> v" using ref(1) by auto
  have bound: "sum_list (map snd ?pos) \<le> MaxSatoshi" using sum_filter_pos [OF nn] ref(2) es(2) by (simp add: comp_def)
  have m: "map_of ?m s = (if paid_to ?pos s = 0 then None else Some (paid_to ?pos s))" for s
    using map_of_add_all [of ?pos "[]" "[]" s] bound by simp
  have dm: "distinct (map fst ?m)" by (simp add: distinct_add_all)
  have "mset (map fst ro) = mset (map fst ?m)" unfolding ro by (simp add: mset_SortFunc)
  then show "distinct (map fst ro)" using dm mset_eq_imp_distinct_iff by blast
  have ge: "0 \<le> paid_to ?pos s" for s by (rule paid_to_bounds) auto
  have "0 < v" if "(k, v) \<in> set ?m" for k v
  proof -
    have "map_of ?m k = Some v" by (rule map_of_is_SomeI [OF dm that])
    then have "v = paid_to ?pos k" "paid_to ?pos k \<noteq> 0" unfolding m by (simp_all split: if_splits)
    with ge [of k] show ?thesis by simp
  qed
  then have "\<forall>(k, v) \<in> set ?m. 0 < v" by fast
  then show "\<forall>(k, v) \<in> set ro. 0 < v" unfolding ro set_SortFunc .
  have paid: "paid_to ro s = paid_to (refunds ep es) s" for s
  proof -
    have "paid_to ro s = paid_to ?m s" unfolding ro by (rule paid_to_mset [OF mset_SortFunc])
    also have "\<dots> = paid_to ?pos s" unfolding paid_to_map_of [OF dm] m by simp
    also have "\<dots> = paid_to (refunds ep es) s" by (rule paid_to_filter_pos [OF nn])
    finally show ?thesis .
  qed
  then show "paid_to ro s = paid_to (refunds ep es) s" .
  let ?S = "fst ` set ro \<union> fst ` set (refunds ep es)"
  have "(\<Sum>s \<in> ?S. paid_to ro s) = (\<Sum>s \<in> ?S. paid_to (refunds ep es) s)" by (simp add: paid)
  then show "sum_list (map snd ro) = sum_list (map (refund_of ep) es)"
    using paid_to_total [of ?S ro] paid_to_total [of ?S "refunds ep es"] by (simp add: comp_def)
qed

lemma fold_wrap_sum:
  assumes "\<forall>(k :: bytes, v) \<in> set ro. 0 < v" and "0 \<le> t" and "t + sum_list (map snd ro) \<le> MaxSatoshi"
  shows "fold (\<lambda>(_, v) s. wrap64 (s + v)) ro t = t + sum_list (map snd ro)"
  using assms
proof (induction ro arbitrary: t)
  case (Cons kv ro)
  obtain k v where kv: "kv = (k, v)" by (cases kv)
  have "0 \<le> sum_list (map snd ro)" using Cons.prems(1) by (intro sum_list_nonneg) fastforce
  then have "wrap64 (t + v) = t + v"
    using Cons.prems kv by (intro wrap64_id) (auto simp: is_int64_def MaxSatoshi_def)
  then show ?case using Cons kv by auto
qed simp

text \<open>What a blueprint is: the marked transaction that pays every script its refunds.\<close>

definition reaps :: "ExpiryParams \<Rightarrow> int32 \<Rightarrow> OutPoint list \<Rightarrow> UtxoEntry list \<Rightarrow> MsgTx \<Rightarrow> bool" where
  "reaps ep h ops es tx \<longleftrightarrow> marked h tx \<and> TxIn tx = map reapTxIn ops
     \<and> (\<forall>out \<in> set (butlast (TxOut tx)). 0 < Value out)
     \<and> distinct (map PkScript (butlast (TxOut tx)))
     \<and> (\<forall>s. paid_to (payments (butlast (TxOut tx))) s = paid_to (refunds ep es) s)
     \<and> sum_list (map Value (TxOut tx)) = sum_list (map (refund_of ep) es)"

lemma map_PreviousOutPoint_reapTxIn [simp]: "map PreviousOutPoint (map reapTxIn ops) = ops"
  by (simp add: reapTxIn_def comp_def)

lemma normalizePlan_ok:
  assumes "miner_params ep p" and "sane_entries view (Inputs plan) es"
  shows "\<exists>norm. normalizePlan plan view p = Inr norm \<and> Inputs norm = Inputs plan
    \<and> plan_Height norm = plan_Height plan \<and> TaxTotal norm = sum_list (map (tax_of ep) es)
    \<and> RefundTotal norm = sum_list (map (refund_of ep) es)"
proof -
  have "total_amount es \<le> MaxSatoshi" using assms(2) by (simp add: sane_entries_def)
  then obtain d n where "fold_r (planInput view p) (Inputs plan) (0, 0, 0, 0) =
      Inr (sum_list (map (tax_of ep) es), sum_list (map (refund_of ep) es), d, n)"
    using planInputs_eq [OF assms, of 0 0 0 0] by auto
  then show ?thesis by (simp add: normalizePlan_def Let_def)
qed

lemma BuildBlueprint_ok:
  assumes mp: "miner_params ep p" and se: "sane_entries view (Inputs plan) es"
    and h: "is_int32 (plan_Height plan)" and len: "is_int64 (int (length (Inputs plan)))"
    and tot: "TaxTotal plan = sum_list (map (tax_of ep) es)" "RefundTotal plan = sum_list (map (refund_of ep) es)"
  shows "\<exists>tx. BuildBlueprint plan view p = Inr tx \<and> reaps ep (plan_Height plan) (Inputs plan) es tx"
proof -
  have wf: "wf_expiry_params ep" using mp by (simp add: miner_params_def)
  have es: "\<forall>e \<in> set es. 0 \<le> amount e" "total_amount es \<le> MaxSatoshi" using se by (simp_all add: sane_entries_def)
  have h64: "is_int64 (plan_Height plan)" using h by (simp add: is_int32_def is_int64_def)
  let ?m = "add_all (filter (\<lambda>(k, v). 0 < v) (refunds ep es)) []"
  define ro where "ro = SortFunc (\<lambda>a b. bytes_compare (fst a) (fst b)) ?m"
  note ro = refundOutputs_paid [OF wf es ro_def] and ref = sum_refunds_le [OF wf es]
  let ?marker = "OP_RETURN # push_bytes (markerPayload (plan_Height plan) (int (length (Inputs plan))) (Inputs plan))"
  have fold: "fold_r (blueprintInput view p) (Inputs plan) \<lparr>bp_in = 0, bp_tax = 0, bp_refunds = [], bp_txin = []\<rparr> =
      Inr \<lparr>bp_in = total_amount es, bp_tax = sum_list (map (tax_of ep) es), bp_refunds = ?m,
        bp_txin = map reapTxIn (Inputs plan)\<rparr>"
    using blueprintInputs_eq [OF mp se, of "\<lparr>bp_in = 0, bp_tax = 0, bp_refunds = [], bp_txin = []\<rparr>"] es(2) by simp
  have rt: "fold (\<lambda>(_, v) s. wrap64 (s + v)) ro 0 = sum_list (map (refund_of ep) es)"
    using fold_wrap_sum [OF ro(1), of 0] ro(3) ref(2) es(2) by simp
  have "0 \<le> total_amount es" using es(1) by (intro sum_list_nonneg) auto
  then have w: "wrap64 (total_amount es) = total_amount es"
    using es(2) by (intro wrap64_id) (simp add: is_int64_def MaxSatoshi_def)
  let ?tx = "\<lparr>Version = reapTxVersion, TxIn = map reapTxIn (Inputs plan),
    TxOut = map (\<lambda>(s, v). \<lparr>Value = v, PkScript = s\<rparr>) ro @ [\<lparr>Value = 0, PkScript = ?marker\<rparr>],
    LockTime = (if plan_Height plan > 0 then of_int (plan_Height plan - 1) else 0)\<rparr>"
  have "BuildBlueprint plan view p = Inr ?tx"
    unfolding BuildBlueprint_def fold bind_r_Inr blueprint.simps ro_def [symmetric] Let_def rt
      markerScript_eq [OF h64 len] using tot w ref(3) by simp
  moreover have "reaps ep (plan_Height plan) (Inputs plan) es ?tx"
  proof -
    have pay: "payments (map (\<lambda>(s, v). \<lparr>Value = v, PkScript = s\<rparr>) ro) = ro"
      "map Value (map (\<lambda>(s, v). \<lparr>Value = v, PkScript = s\<rparr>) ro) = map snd ro"
      "map PkScript (map (\<lambda>(s, v). \<lparr>Value = v, PkScript = s\<rparr>) ro) = map fst ro"
      by (induction ro) auto
    have "\<forall>out \<in> set (map (\<lambda>(s, v). \<lparr>Value = v, PkScript = s\<rparr>) ro). 0 < Value out" using ro(1) by auto
    then show ?thesis
      unfolding reaps_def marked_def using pay ro(2-4) by (simp del: map_map)
  qed
  ultimately show ?thesis by blast
qed

section \<open>What the miner builds, the validator accepts\<close>

text \<open>
  The state of the chain behind an index: every expired output the index tracks is an unspent,
  spendable entry of the view with the amount and expiry key the index has, and the tracked outputs
  hold no more money than there is.
\<close>

definition backs :: "UtxoViewpoint \<Rightarrow> 'a Params_scheme \<Rightarrow> ExpiryParams \<Rightarrow> int32 \<Rightarrow> idx_map \<Rightarrow> bool" where
  "backs view params ep h M \<longleftrightarrow>
     (\<forall>op k a. M op = Some (k, a) \<and> k \<le> of_int h \<longrightarrow> \<not> isNullOutpoint op \<and>
        (\<exists>e. LookupEntry view op = Some e \<and> \<not> IsSpent e \<and> amount e = a \<and> is_int32 (blockHeight e)
           \<and> CalculateExpiryKey ep (blockHeight e) = k \<and> mature params h e))
     \<and> (\<forall>ops. distinct ops \<and> set ops \<subseteq> dom M \<longrightarrow> sum_list (map (\<lambda>op. snd (the (M op))) ops) \<le> MaxSatoshi)"

text \<open>The entries of expired candidates.\<close>

definition cand_entry :: "UtxoViewpoint \<Rightarrow> ReapPrefixCandidate \<Rightarrow> UtxoEntry" where
  "cand_entry view c = the (LookupEntry view (cand_OutPoint c))"

lemma backs_entry:
  assumes "backs view params ep h M" and "c \<in> candidates_of M" and "cand_ExpiryKey c \<le> of_int h"
  shows "LookupEntry view (cand_OutPoint c) = Some (cand_entry view c)" and "\<not> IsSpent (cand_entry view c)"
    and "amount (cand_entry view c) = cand_Amount c"
    and "CalculateExpiryKey ep (blockHeight (cand_entry view c)) = cand_ExpiryKey c"
    and "mature params h (cand_entry view c)" and "is_int32 (blockHeight (cand_entry view c))"
    and "\<not> isNullOutpoint (cand_OutPoint c)"
proof -
  have "M (cand_OutPoint c) = Some (cand_ExpiryKey c, cand_Amount c)" using assms(2) by (simp add: candidates_of_def)
  then obtain e where "LookupEntry view (cand_OutPoint c) = Some e" "\<not> IsSpent e" "amount e = cand_Amount c"
    "CalculateExpiryKey ep (blockHeight e) = cand_ExpiryKey c" "mature params h e" "is_int32 (blockHeight e)"
    "\<not> isNullOutpoint (cand_OutPoint c)"
    using assms(1,3) unfolding backs_def by metis
  then show "LookupEntry view (cand_OutPoint c) = Some (cand_entry view c)" "\<not> IsSpent (cand_entry view c)"
    "amount (cand_entry view c) = cand_Amount c"
    "CalculateExpiryKey ep (blockHeight (cand_entry view c)) = cand_ExpiryKey c"
    "mature params h (cand_entry view c)" "is_int32 (blockHeight (cand_entry view c))"
    "\<not> isNullOutpoint (cand_OutPoint c)"
    by (simp_all add: cand_entry_def)
qed

lemma canonical_distinct:
  assumes "canonical_order cs"
  shows "distinct cs"
proof -
  have "compareReapInputOrderKey k k = 0" for k
    by (simp add: compareReapInputOrderKey_def compareIndex_def bytes_compare_eq)
  then have "a \<noteq> b" if "compareReapInputOrderKey (cand_key a) (cand_key b) < 0" for a b
    using that by (metis less_irrefl)
  then show ?thesis
    using assms by (induction cs) (auto simp: canonical_order_def)
qed

lemma picked_distinct:
  assumes cs: "set cs \<subseteq> {c \<in> candidates_of M. cand_ExpiryKey c \<le> of_int h}" "canonical_order cs"
  shows "distinct (map cand_OutPoint cs)"
proof -
  have M: "M (cand_OutPoint c) = Some (cand_ExpiryKey c, cand_Amount c)" if "c \<in> set cs" for c
    using that cs(1) by (auto simp: candidates_of_def)
  have "inj_on cand_OutPoint (set cs)"
  proof (rule inj_onI)
    fix a b assume ab: "a \<in> set cs" "b \<in> set cs" "cand_OutPoint a = cand_OutPoint b"
    then have "cand_ExpiryKey a = cand_ExpiryKey b" "cand_Amount a = cand_Amount b"
      using M [of a] M [of b] by simp_all
    with ab(3) show "a = b" by (cases a; cases b) simp
  qed
  then show ?thesis using canonical_distinct [OF cs(2)] by (simp add: distinct_map)
qed

lemma picked_sane:
  assumes b: "backs view params ep h M" and wfM: "wf_idx_map M"
    and cs: "set cs \<subseteq> {c \<in> candidates_of M. cand_ExpiryKey c \<le> of_int h}" "canonical_order cs"
  shows "sane_entries view (map cand_OutPoint cs) (map (cand_entry view) cs)"
proof -
  have mem: "c \<in> candidates_of M" "cand_ExpiryKey c \<le> of_int h" if "c \<in> set cs" for c using that cs(1) by auto
  note e = backs_entry [OF b mem]
  have M: "M (cand_OutPoint c) = Some (cand_ExpiryKey c, cand_Amount c)" if "c \<in> set cs" for c
    using mem(1) [OF that] by (simp add: candidates_of_def)
  have "distinct (map cand_OutPoint cs)" by (rule picked_distinct [OF cs])
  moreover have "set (map cand_OutPoint cs) \<subseteq> dom M" using M by auto
  ultimately have "sum_list (map (\<lambda>op. snd (the (M op))) (map cand_OutPoint cs)) \<le> MaxSatoshi"
    using b unfolding backs_def by blast
  moreover have "map (\<lambda>op. snd (the (M op))) (map cand_OutPoint cs) = map amount (map (cand_entry view) cs)"
    using M e(3) by simp
  ultimately have total: "total_amount (map (cand_entry view) cs) \<le> MaxSatoshi" by (simp only:)
  have "0 \<le> amount (cand_entry view c)" if "c \<in> set cs" for c
    using M [OF that] e(3) [OF that that] wfM by (auto simp: wf_idx_map_def valid_amount_def)
  moreover have "spends_entries view (map reapTxIn (map cand_OutPoint cs)) (map (cand_entry view) cs)"
    using e(1,2) by (simp add: spends_entries_def live_entry_def reapTxIn_def)
  ultimately show ?thesis using total by (auto simp: sane_entries_def)
qed

lemma picked_expired:
  assumes p: "wf_expiry_params ep" and h: "is_int32 h" "0 \<le> h"
    and e: "CalculateExpiryKey ep (blockHeight e) = k" "k \<le> of_int h" "is_int32 (blockHeight e)"
  shows "spendable_when True ep h e"
proof -
  have "unat (of_int h :: u64) = nat h" using h by (intro unat_of_int_height) (simp_all add: is_int32_def)
  then have nle: "unat k \<le> nat h" using e(2) by (simp add: word_le_nat_alt)
  then have "int (unat k) \<le> h" using h(2) by linarith
  then have le: "uint k \<le> h" by simp
  moreover have "0 \<le> uint k" by simp
  ultimately have "is_int32 (uint k)" using h(1) unfolding is_int32_def by linarith
  then have "wrap32 (uint k) = uint k" by (rule wrap32_id)
  with le e(1) have "isExpiredAt ep (blockHeight e) h" by (simp add: isExpiredAt_def)
  moreover have "blockHeight e \<noteq> unminedInputHeight"
  proof
    assume bh: "blockHeight e = unminedInputHeight"
    have w: "unat (WindowBlocks ep) < 2 ^ 30" "0 < unat (WindowBlocks ep)"
      using p by (simp_all add: wf_expiry_params_def)
    have u: "0 \<le> unminedInputHeight" "unminedInputHeight < 2 ^ 31" by (simp_all add: unminedInputHeight_def)
    have "unat k = nat unminedInputHeight + unat (WindowBlocks ep)"
      using unat_CalculateExpiryKey [OF u w(1)] e(1) bh by simp
    then have "int (unat k) = unminedInputHeight + int (unat (WindowBlocks ep))" using u(1) by simp
    moreover have "h < unminedInputHeight + 1" using h(1) by (simp add: is_int32_def unminedInputHeight_def)
    moreover have "int (unat k) \<le> h" using nle h(2) by linarith
    ultimately show False using w(2) by linarith
  qed
  ultimately show ?thesis by (simp add: spendable_when_def)
qed

lemma reap_keys_of:
  assumes b: "backs view params ep h M" and cs: "set cs \<subseteq> {c \<in> candidates_of M. cand_ExpiryKey c \<le> of_int h}"
  shows "keys_of view ep (map reapTxIn (map cand_OutPoint cs)) (map cand_key cs)"
proof -
  have "makeReapInputOrderKey (cand_OutPoint c) view ep = Some (cand_key c)" if "c \<in> set cs" for c
    using backs_entry [OF b, of c] that cs by (auto simp: makeReapInputOrderKey_def cand_key_def)
  then show ?thesis by (simp add: keys_of_def reapTxIn_def)
qed

lemma in_reap_order_canonical: "canonical_order cs \<Longrightarrow> in_reap_order (map cand_key cs)"
proof -
  have "successively (\<lambda>a b. compareReapInputOrderKey a b \<le> 0) ks"
    if "sorted_wrt (\<lambda>a b. compareReapInputOrderKey a b < 0) ks" for ks
    using that by (induction ks rule: induct_list012) auto
  then show "canonical_order cs \<Longrightarrow> in_reap_order (map cand_key cs)" by (simp add: canonical_order_map)
qed

lemma isNullOutpoint_iff: "isNullOutpoint op \<longleftrightarrow> Index op = 0xffffffff \<and> Hash op = 0"
  by (simp add: isNullOutpoint_def)

lemma reaps_accepted:
  assumes params: "GetExpiryParams params = Some ep" and h: "EnableAtHeight ep \<le> h" "is_int32 h"
    and b: "backs view params ep h M" and wfM: "wf_idx_map M"
    and cs: "set cs \<subseteq> {c \<in> candidates_of M. cand_ExpiryKey c \<le> of_int h}" "canonical_order cs" "cs \<noteq> []"
    and caps: "within_caps ep 0 0 (map cand_key cs)" and len: "is_int64 (int (length cs))"
    and tx: "reaps ep h (map cand_OutPoint cs) (map (cand_entry view) cs) tx"
    and weight: "GetTransactionWeight tx \<le> ReapMaxWeight ep"
  shows "CheckTransactionInputs tx h view params = Inr (sum_list (map (tax_of ep) (map (cand_entry view) cs)))"
proof -
  let ?ops = "map cand_OutPoint cs" and ?es = "map (cand_entry view) cs"
  have wf: "wf_expiry_params ep" by (rule wf_GetExpiryParams [OF params])
  have h0: "0 \<le> h" using wf h(1) by (simp add: wf_expiry_params_def)
  note e = backs_entry [OF b]
  have mem: "c \<in> candidates_of M" "cand_ExpiryKey c \<le> of_int h" if "c \<in> set cs" for c using that cs(1) by auto
  have sane: "sane_entries view ?ops ?es" by (rule picked_sane [OF b wfM cs(1,2)])
  then have es: "spends_entries view (TxIn tx) ?es" "\<forall>e \<in> set ?es. 0 \<le> amount e" "total_amount ?es \<le> MaxSatoshi"
    using tx by (simp_all add: sane_entries_def reaps_def)
  have in_tx: "TxIn tx = map reapTxIn ?ops" and mk: "marked h tx" using tx by (simp_all add: reaps_def)
  have "\<not> isNullOutpoint (cand_OutPoint c)" if "c \<in> set cs" for c using e(7) mem [OF that] by blast
  then have nocb: "\<not> IsCoinBaseTx tx"
    using cs(3) by (cases cs) (auto simp: IsCoinBaseTx_def in_tx reapTxIn_def isNullOutpoint_iff split: list.splits)
  have "is_int64 (int (length (TxIn tx)))" using len in_tx by simp
  note m = marked_accepted [OF mk h(2) this]
  have exp: "checkExpirySpendRules tx h view params = Inr ()"
  proof -
    have "spendable_when True ep h (cand_entry view c)" if "c \<in> set cs" for c
      using picked_expired [OF wf h(2) h0 e(4) _ e(6)] mem [OF that] by blast
    then show ?thesis
      unfolding checkExpirySpendRules_iff [OF params h(1)] using es(1) m(1) by (intro exI [of _ ?es]) simp
  qed
  have hard: "checkReapConsensusHardening tx h view params = Inr ()"
  proof (cases "ReapConsensusAtHeight ep \<le> h")
    case True
    have "keys_of view ep (TxIn tx) (map cand_key cs)" unfolding in_tx by (rule reap_keys_of [OF b cs(1)])
    then show ?thesis
      using checkReapConsensusHardening_iff [OF params True m(1)] weight caps in_reap_order_canonical [OF cs(2)] by blast
  next
    case False
    then show ?thesis using params by (simp add: checkReapConsensusHardening_def)
  qed
  note ref = sum_refunds_le [OF wf es(2,3)]
  have last: "TxOut tx = butlast (TxOut tx) @ [last (TxOut tx)]" "Value (last (TxOut tx)) = 0"
    using isLikelyReapTx_outputs [OF m(1)] by simp_all
  have out_sum: "sum_list (map Value (TxOut tx)) = sum_list (map (refund_of ep) ?es)"
    and pos: "\<forall>out \<in> set (butlast (TxOut tx)). 0 < Value out"
    and paid: "\<forall>s. paid_to (payments (butlast (TxOut tx))) s = paid_to (refunds ep ?es) s"
    using tx by (simp_all add: reaps_def)
  have "sum_list (map Value (TxOut tx)) = sum_list (map Value (butlast (TxOut tx)))"
    by (subst last(1)) (simp add: last(2))
  then have bsum: "sum_list (map Value (butlast (TxOut tx))) \<le> MaxSatoshi" using out_sum ref(2) es(3) by simp
  have tax: "checkReapTaxRules tx h view params = Inr ()"
    using checkReapTaxRules_iff [OF params h(1) m(1) es _ bsum] pos paid by fastforce
  have outs: "\<forall>out \<in> set (TxOut tx). 0 \<le> Value out" using pos by (subst last(1)) (auto simp: last(2))
  have so: "sumOutputs (TxOut tx) = sum_list (map (refund_of ep) ?es)"
    using sumOutputs_sane [OF outs] out_sum ref(2) es(3) by simp
  have mat: "\<forall>e \<in> set ?es. mature params h e \<and> 0 \<le> amount e" using es(2) e(5) mem by simp
  have "0 \<le> MaxSatoshi" by (simp add: MaxSatoshi_def)
  then have ins: "fold_r (sumInput h view params) (TxIn tx) 0 = Inr (total_amount ?es)"
    unfolding sumInputs_Inr_iff [OF order_refl \<open>0 \<le> MaxSatoshi\<close>]
    using es(1,3) mat by (intro exI [of _ ?es] conjI) simp_all
  have "0 \<le> sum_list (map (tax_of ep) ?es)" and tot: "total_amount ?es - sumOutputs (TxOut tx) = sum_list (map (tax_of ep) ?es)"
    using ref so by auto
  moreover have "0 \<le> sumOutputs (TxOut tx)" unfolding so using ref(1) by (intro sum_list_nonneg) auto
  ultimately have "wrap64 (total_amount ?es - sumOutputs (TxOut tx)) = sum_list (map (tax_of ep) ?es)"
    using es(3) by (subst tot, intro wrap64_id) (simp add: is_int64_def MaxSatoshi_def)
  then show ?thesis
    unfolding CheckTransactionInputs_def m(2) exp hard tax bind_r_Inr ins Let_def
    using nocb so ref(2) by (simp only: if_False) (simp add: not_less)
qed

lemma reaps_sane:
  assumes params: "GetExpiryParams params = Some ep" and b: "backs view params ep h M" and wfM: "wf_idx_map M"
    and cs: "set cs \<subseteq> {c \<in> candidates_of M. cand_ExpiryKey c \<le> of_int h}" "canonical_order cs" "cs \<noteq> []"
    and tx: "reaps ep h (map cand_OutPoint cs) (map (cand_entry view) cs) tx"
    and weight: "GetTransactionWeight tx \<le> 400000"
  shows "CheckTransactionSanity tx = Inr ()" and "\<not> IsCoinBaseTx tx"
proof -
  let ?es = "map (cand_entry view) cs"
  have in_tx: "TxIn tx = map reapTxIn (map cand_OutPoint cs)" and mk: "marked h tx" using tx by (simp_all add: reaps_def)
  have nn: "\<not> isNullOutpoint (cand_OutPoint c)" if "c \<in> set cs" for c using backs_entry(7) [OF b] that cs(1) by blast
  then show cb: "\<not> IsCoinBaseTx tx"
    using cs(3) by (cases cs) (auto simp: IsCoinBaseTx_def in_tx reapTxIn_def isNullOutpoint_iff split: list.splits)
  have es: "\<forall>e \<in> set ?es. 0 \<le> amount e" "total_amount ?es \<le> MaxSatoshi"
    using picked_sane [OF b wfM cs(1,2)] by (simp_all add: sane_entries_def)
  have sum: "sum_list (map Value (TxOut tx)) \<le> MaxSatoshi"
    using tx sum_refunds_le(2) [OF wf_GetExpiryParams [OF params] es] es(2) by (simp add: reaps_def)
  have ne: "TxOut tx \<noteq> []" "Value (last (TxOut tx)) = 0" using mk by (simp_all add: marked_def)
  have "\<forall>out \<in> set (butlast (TxOut tx)). 0 < Value out" using tx by (simp add: reaps_def)
  then have vals: "list_all (\<lambda>out. 0 \<le> Value out) (TxOut tx)"
    using ne by (cases "TxOut tx" rule: rev_cases) (auto simp: list_all_iff)
  have "int (4 * baseSize tx) \<le> GetTransactionWeight tx"
    by (simp add: GetTransactionWeight_def SerializeSizeStripped_def SerializeSize_def WitnessScaleFactor_def)
  then have size: "SerializeSizeStripped tx \<le> MaxBlockBaseSize"
    using weight by (simp add: SerializeSizeStripped_def MaxBlockBaseSize_def)
  have "distinct (map PreviousOutPoint (TxIn tx))" using picked_distinct [OF cs(1,2)] by (simp del: map_map add: in_tx)
  moreover have "list_all (\<lambda>ti. \<not> isNullOutpoint (PreviousOutPoint ti)) (TxIn tx)"
    using nn by (auto simp: list_all_iff in_tx reapTxIn_def)
  ultimately show "CheckTransactionSanity tx = Inr ()"
    unfolding CheckTransactionSanity_iff using cb vals sum ne(1) size cs(3) in_tx by simp
qed

lemma ReapMaxWeight_all: "GetExpiryParams params = Some ep \<Longrightarrow> ReapMaxWeight ep = 400000"
  by (erule GetExpiryParams_cases) (simp_all add: expiry_param_defs)

section \<open>The template generator\<close>

text \<open>The chain answers a fetch from the view: the entries of the outpoints it is asked for.\<close>

definition fetches_from :: "reap_generator \<Rightarrow> UtxoViewpoint \<Rightarrow> bool" where
  "fetches_from g view \<longleftrightarrow> (\<forall>ops v. g_fetchUtxoView g ops = Some v \<longrightarrow>
     (\<forall>op \<in> set ops. LookupEntry v op = LookupEntry view op))"

lemma sane_entries_cong:
  assumes "\<forall>op \<in> set ops. LookupEntry v op = LookupEntry view op"
  shows "sane_entries v ops es \<longleftrightarrow> sane_entries view ops es"
proof -
  have "map (live_entry v) (map reapTxIn ops) = map (live_entry view) (map reapTxIn ops)"
    using assms by (simp add: live_entry_def reapTxIn_def)
  then show ?thesis by (simp only: sane_entries_def spends_entries_def)
qed

lemma maybeBuildREAPTx_Some:
  assumes params: "GetExpiryParams (g_chainParams g) = Some ep" and h: "EnableAtHeight ep \<le> h" "is_int32 h"
    and idx: "g_reapIndex g = Some s" "index_stands_for s M"
    and view: "fetches_from g view" "backs view (g_chainParams g) ep h M"
    and built: "maybeBuildREAPTx g h = Inr (Some (tx, fee))"
  shows "\<exists>cs k. set cs = {c \<in> candidates_of M. cand_ExpiryKey c \<le> of_int h} \<and> canonical_order cs \<and>
    0 < k \<and> k \<le> length cs \<and>
    map PreviousOutPoint (TxIn tx) = map cand_OutPoint (take k cs) \<and> isLikelyReapTx tx \<and>
    CheckTransactionSanity tx = Inr () \<and> \<not> IsCoinBaseTx tx \<and>
    CheckTransactionInputs tx h view (g_chainParams g) = Inr fee \<and>
    (0 < g_BlockMaxWeight g \<longrightarrow> GetTransactionWeight tx < uint (g_BlockMaxWeight g))"
proof -
  let ?params = "g_chainParams g" let ?p = "DefaultREAPParamsForNet ?params SortModeStrict"
  let ?limit = "ReapMaxInputs ep + ReapDustMaxInputs ep" let ?w = "uint (g_BlockMaxWeight g)"
  obtain i db where s: "s = (i, db)" by (cases s)
  note mp = miner_params_ForNet [OF params, of SortModeStrict]
  have wf: "wf_expiry_params ep" by (rule wf_GetExpiryParams [OF params])
  have h0: "0 \<le> h" and lim: "0 < ?limit" "?limit < 2 ^ 31" using wf h(1) by (auto simp: wf_expiry_params_def)
  have wfM: "wf_idx_map M" using idx_src.map_ok [OF idx(2)] .
  obtain cs where cs: "ReapPrefixCandidates i h ?limit db = Inr (take (nat ?limit) cs)"
    "set cs = {c \<in> candidates_of M. cand_ExpiryKey c \<le> of_int h}" "canonical_order cs"
    using idx_src.candidates_ok [OF idx(2) lim(1) h0] by (auto simp: s index_source_def)
  let ?cs = "take (nat ?limit) cs"
  have "IsOBTC ?params" using params GetExpiryParams_None_iff [of ?params] by auto
  then obtain plan v plan' wt where ne: "?cs \<noteq> []" and sel: "SelectPrefixCandidates (\<lambda>_. False) h ?cs ?p = Inr plan"
    and inp: "Inputs plan \<noteq> []" and fetch: "g_fetchUtxoView g (Inputs plan) = Some v"
    and bud: "budgetLoop plan v ?p ?w = Inr (Some tx, plan', wt)" and fee: "fee = TaxTotal plan'"
    using built idx(1) s params h(1) mp(2,3) cs(1)
    by (auto simp: maybeBuildREAPTx_def BuildBudgetedBlueprint_def Let_def bind_r_eq_Inr
        split: if_splits option.splits sum.splits)
  obtain k1 where k1: "Inputs plan = map cand_OutPoint (take k1 ?cs)" "plan_Height plan = h"
    "within_caps ep 0 0 (map cand_key (take k1 ?cs))"
    using SelectPrefixCandidates_prefix [OF mp(1) sel] by blast
  obtain k2 norm where k2: "0 < k2" "normalizePlan (plan\<lparr>Inputs := take k2 (Inputs plan)\<rparr>) v ?p = Inr norm"
    "BuildBlueprint norm v ?p = Inr tx" "TaxTotal plan' = TaxTotal norm" "wt = GetTransactionWeight tx"
    "0 < ?w \<longrightarrow> wt < ?w" "0 < WeightBudget ?p \<longrightarrow> wt \<le> WeightBudget ?p"
    using budgetLoop_Some [OF bud inp] by blast
  define k where "k = min k2 (min k1 (min (nat ?limit) (length cs)))"
  let ?picked = "take k cs"
  have picked: "take k2 (take k1 ?cs) = ?picked" proof -
    have "take (min n (length cs)) cs = take n cs" for n by (simp add: min_def)
    from this [of "min k2 (min k1 (nat ?limit))"] show ?thesis by (simp add: k_def min.assoc)
  qed
  then have ops: "take k2 (Inputs plan) = map cand_OutPoint ?picked" using k1(1) by (simp add: take_map)
  have k: "0 < k" "k \<le> length cs" using k2(1) inp k1(1) ne by (auto simp: k_def)
  have caps: "within_caps ep 0 0 (map cand_key ?picked)"
    using within_caps_take [OF k1(3), of k2] picked by (simp add: take_map)
  have can: "canonical_order ?picked"
    using cs(3) by (simp add: canonical_order_def sorted_wrt_take)
  have sub: "set ?picked \<subseteq> {c \<in> candidates_of M. cand_ExpiryKey c \<le> of_int h}"
    using cs(2) set_take_subset [of k cs] by blast
  have len: "is_int64 (int (length ?picked))" using lim by (simp add: k_def is_int64_def)
  have "\<forall>op \<in> set (map cand_OutPoint ?picked). LookupEntry v op = LookupEntry view op"
    using view(1) fetch ops set_take_subset [of k2 "Inputs plan"] unfolding fetches_from_def by (metis subsetD)
  then have sane: "sane_entries v (map cand_OutPoint ?picked) (map (cand_entry view) ?picked)"
    using picked_sane [OF view(2) wfM sub can] sane_entries_cong by blast
  have "sane_entries v (Inputs (plan\<lparr>Inputs := take k2 (Inputs plan)\<rparr>)) (map (cand_entry view) ?picked)"
    using sane ops by simp
  from normalizePlan_ok [OF mp(1) this] obtain norm' where
    "normalizePlan (plan\<lparr>Inputs := take k2 (Inputs plan)\<rparr>) v ?p = Inr norm'"
    and n: "Inputs norm' = map cand_OutPoint ?picked" "plan_Height norm' = h"
    "TaxTotal norm' = sum_list (map (tax_of ep) (map (cand_entry view) ?picked))"
    "RefundTotal norm' = sum_list (map (refund_of ep) (map (cand_entry view) ?picked))"
    using ops k1(2) by (auto simp del: map_map)
  then have "norm' = norm" using k2(2) by simp
  moreover obtain tx' where "BuildBlueprint norm' v ?p = Inr tx'"
    "reaps ep h (map cand_OutPoint ?picked) (map (cand_entry view) ?picked) tx'"
    using BuildBlueprint_ok [OF mp(1), of v norm' "map (cand_entry view) ?picked"] sane n h(2) len
    by (auto simp del: map_map)
  ultimately have tx: "reaps ep h (map cand_OutPoint ?picked) (map (cand_entry view) ?picked) tx" using k2(3) by simp
  have wt: "GetTransactionWeight tx \<le> ReapMaxWeight ep"
    using k2(5,7) mp(1) wf by (simp add: miner_params_def wf_expiry_params_def)
  have "?picked \<noteq> []" using k by auto
  from reaps_accepted [OF params h view(2) wfM sub can this caps len tx wt]
  have "CheckTransactionInputs tx h view ?params = Inr fee" using fee k2(4) n(3) \<open>norm' = norm\<close> by simp
  moreover have "CheckTransactionSanity tx = Inr ()" "\<not> IsCoinBaseTx tx"
    using reaps_sane [OF params view(2) wfM sub can \<open>?picked \<noteq> []\<close> tx] wt ReapMaxWeight_all [OF params] by simp_all
  moreover have "isLikelyReapTx tx"
    using marked_accepted(1) [of h tx] tx h(2) len by (simp add: reaps_def)
  moreover have "map PreviousOutPoint (TxIn tx) = map cand_OutPoint (take k cs)"
    using tx by (simp add: reaps_def reapTxIn_def)
  moreover have "0 < g_BlockMaxWeight g \<longrightarrow> GetTransactionWeight tx < uint (g_BlockMaxWeight g)"
    using k2(5,6) by (simp add: word_less_def)
  ultimately show ?thesis using cs(2,3) k by blast
qed

end
