(* ===== verification/Script_Validation.thy ===== *)
theory Script_Validation
  imports Reap_Validation "HOL-Library.Multiset"
begin

text \<open>
  Which inputs are given to the script engine, and the concurrent validator that runs it
  (\<open>blockchain/scriptval.go\<close>).

  The engine is a parameter: its verdict on the script of an output, a transaction, the index of the
  input and the value of the output.  The signature and sighash caches only avoid work and are left
  out.  The goroutines of \<open>Validate\<close> are a step relation: \<open>queue\<close> holds the items the main loop has not
  sent, \<open>busy\<close> the items the handlers are working on, \<open>idle\<close> is the number of handlers waiting on the
  channel.  A handler that failed has left its loop and a result is only consumed by the main loop, so
  one step stands for a handler's run on an item and the receipt of its result.
\<close>

section \<open>Items\<close>

datatype script_verdict = ScriptOk | ScriptBadParse | ScriptFailed

type_synonym engine = "bytes \<Rightarrow> MsgTx \<Rightarrow> nat \<Rightarrow> int64 \<Rightarrow> script_verdict"

record txValidateItem =
  txInIndex :: nat
  txIn :: TxIn
  vi_tx :: MsgTx

definition txItems :: "MsgTx \<Rightarrow> txValidateItem list" where
  "txItems tx = map (\<lambda>(i, ti). \<lparr>txInIndex = i, txIn = ti, vi_tx = tx\<rparr>)
     (filter (\<lambda>(i, ti). Index (PreviousOutPoint ti) \<noteq> 0xffffffff) (enumerate 0 (TxIn tx)))"

definition blockScriptItems :: "Block \<Rightarrow> txValidateItem list" where
  "blockScriptItems block =
     concat (map (\<lambda>tx. if isLikelyReapTx tx then [] else txItems tx) (Transactions block))"

definition validateItem :: "engine \<Rightarrow> UtxoViewpoint \<Rightarrow> txValidateItem \<Rightarrow> rule_error + unit" where
  "validateItem engine utxoView txVI =
     (case LookupEntry utxoView (PreviousOutPoint (txIn txVI)) of
        None \<Rightarrow> Inl ErrMissingTxOut
      | Some utxo \<Rightarrow>
          (case engine (pkScript utxo) (vi_tx txVI) (txInIndex txVI) (amount utxo) of
             ScriptBadParse \<Rightarrow> Inl ErrScriptMalformed
           | ScriptFailed \<Rightarrow> Inl ErrScriptValidation
           | ScriptOk \<Rightarrow> Inr ()))"

section \<open>The validator\<close>

record validator =
  queue :: "txValidateItem list"
  busy :: "txValidateItem multiset"
  idle :: nat
  processed :: nat
  returned :: "(rule_error + unit) option"

definition maxGoRoutines :: "nat \<Rightarrow> nat \<Rightarrow> nat" where
  "maxGoRoutines numCPU n =
     (let g = numCPU * 3; g = (if g \<le> 0 then 1 else g) in if g > n then n else g)"

definition startValidate :: "nat \<Rightarrow> txValidateItem list \<Rightarrow> validator" where
  "startValidate numCPU items =
     \<lparr>queue = items, busy = {#}, idle = maxGoRoutines numCPU (length items), processed = 0,
      returned = (if items = [] then Some (Inr ()) else None)\<rparr>"

inductive validate_step ::
    "(txValidateItem \<Rightarrow> rule_error + unit) \<Rightarrow> nat \<Rightarrow> validator \<Rightarrow> validator \<Rightarrow> bool"
  for check :: "txValidateItem \<Rightarrow> rule_error + unit" and numInputs :: nat where
  send: "returned v = None \<Longrightarrow> processed v < numInputs \<Longrightarrow> queue v = x # q \<Longrightarrow> 0 < idle v \<Longrightarrow>
    validate_step check numInputs v (v\<lparr>queue := q, busy := busy v + {#x#}, idle := idle v - 1\<rparr>)"
| result_ok: "returned v = None \<Longrightarrow> processed v < numInputs \<Longrightarrow> x \<in># busy v \<Longrightarrow> check x = Inr () \<Longrightarrow>
    validate_step check numInputs v
      (v\<lparr>busy := busy v - {#x#}, idle := Suc (idle v), processed := Suc (processed v)\<rparr>)"
| result_err: "returned v = None \<Longrightarrow> processed v < numInputs \<Longrightarrow> x \<in># busy v \<Longrightarrow> check x = Inl e \<Longrightarrow>
    validate_step check numInputs v
      (v\<lparr>busy := busy v - {#x#}, processed := Suc (processed v), returned := Some (Inl e)\<rparr>)"
| finish: "returned v = None \<Longrightarrow> \<not> processed v < numInputs \<Longrightarrow>
    validate_step check numInputs v (v\<lparr>returned := Some (Inr ())\<rparr>)"

inductive_cases validate_stepE: "validate_step check n v w"

text \<open>The outcome of one schedule: the items in order, up to the first failure.\<close>

definition Validate :: "(txValidateItem \<Rightarrow> rule_error + unit) \<Rightarrow> txValidateItem list \<Rightarrow> rule_error + unit" where
  "Validate check items = fold_r (\<lambda>x _. check x) items ()"

definition ValidateTransactionScripts :: "engine \<Rightarrow> MsgTx \<Rightarrow> UtxoViewpoint \<Rightarrow> rule_error + unit" where
  "ValidateTransactionScripts engine tx utxoView =
     (if isLikelyReapTx tx then Inr () else Validate (validateItem engine utxoView) (txItems tx))"

definition checkBlockScripts :: "engine \<Rightarrow> Block \<Rightarrow> UtxoViewpoint \<Rightarrow> rule_error + unit" where
  "checkBlockScripts engine block utxoView =
     Validate (validateItem engine utxoView) (blockScriptItems block)"

section \<open>Every schedule agrees\<close>

definition validate_inv :: "(txValidateItem \<Rightarrow> rule_error + unit) \<Rightarrow> txValidateItem list \<Rightarrow> nat \<Rightarrow> validator \<Rightarrow> bool" where
  "validate_inv check items w v \<longleftrightarrow>
     (\<exists>fin. mset items = mset (queue v) + busy v + fin
        \<and> processed v = size fin
        \<and> (case returned v of
             None \<Rightarrow> (\<forall>x \<in># fin. check x = Inr ()) \<and> idle v + size (busy v) = w
           | Some (Inr _) \<Rightarrow> queue v = [] \<and> busy v = {#} \<and> (\<forall>x \<in># fin. check x = Inr ())
           | Some (Inl e) \<Rightarrow> \<exists>x \<in># fin. check x = Inl e))"

lemma validate_inv_start:
  "validate_inv check items (maxGoRoutines numCPU (length items)) (startValidate numCPU items)"
  by (auto simp: validate_inv_def startValidate_def)

lemma validate_inv_step:
  assumes "validate_step check (length items) v v'" and "validate_inv check items w v"
  shows "validate_inv check items w v'"
proof -
  have none: "returned v = None" using assms(1) by cases auto
  then obtain fin where d: "mset items = mset (queue v) + busy v + fin" "processed v = size fin"
    and r: "\<forall>x \<in># fin. check x = Inr ()" "idle v + size (busy v) = w"
    using assms(2) by (auto simp: validate_inv_def)
  from assms(1) show ?thesis
  proof cases
    case (send x q)
    then show ?thesis using d r by (auto simp: validate_inv_def)
  next
    case (result_ok x)
    then obtain b where "busy v = add_mset x b" by (meson multi_member_split)
    then show ?thesis using d r result_ok
      by (auto simp: validate_inv_def intro!: exI [of _ "add_mset x fin"])
  next
    case (result_err x e)
    then obtain b where "busy v = add_mset x b" by (meson multi_member_split)
    then show ?thesis using d r result_err
      by (auto simp: validate_inv_def intro!: exI [of _ "add_mset x fin"])
  next
    case finish
    have "size (mset (queue v) + busy v) = 0"
      using arg_cong [OF d(1), of size] d(2) finish(3) by simp
    then have "queue v = []" "busy v = {#}" by simp_all
    then show ?thesis using d r finish by (auto simp: validate_inv_def)
  qed
qed

lemma validate_inv_reachable:
  assumes "(validate_step check (length items))\<^sup>*\<^sup>* (startValidate numCPU items) v"
  shows "validate_inv check items (maxGoRoutines numCPU (length items)) v"
  using assms by (induction rule: rtranclp_induct) (auto intro: validate_inv_start validate_inv_step)

lemma Validate_Inr_iff: "Validate check items = Inr () \<longleftrightarrow> (\<forall>x \<in> set items. check x = Inr ())"
  unfolding Validate_def
  by (induction items) (auto simp: bind_r_def split: sum.splits)

text \<open>The validator has work left: an item to send counts twice, an item being checked once.\<close>

definition validate_measure :: "validator \<Rightarrow> nat" where
  "validate_measure v = 2 * length (queue v) + size (busy v) + (if returned v = None then 1 else 0)"

lemma validate_step_decreases:
  assumes "validate_step check n v v'"
  shows "validate_measure v' < validate_measure v"
  using assms by cases (auto simp: validate_measure_def size_Diff_singleton dest: multi_member_split)

lemma validate_progress:
  assumes "validate_inv check items w v" and "returned v = None" and "0 < w"
  shows "\<exists>v'. validate_step check (length items) v v'"
proof (cases "processed v < length items")
  case False
  with assms(2) show ?thesis by (blast intro: validate_step.finish)
next
  case True
  obtain fin where d: "mset items = mset (queue v) + busy v + fin" "processed v = size fin"
    "idle v + size (busy v) = w"
    using assms(1,2) by (auto simp: validate_inv_def)
  show ?thesis
  proof (cases "busy v = {#}")
    case False
    then obtain x where x: "x \<in># busy v" by auto
    show ?thesis
    proof (cases "check x")
      case (Inl e)
      with assms(2) True x show ?thesis by (blast intro: validate_step.result_err)
    next
      case (Inr u)
      with assms(2) True x show ?thesis by (cases u) (blast intro: validate_step.result_ok)
    qed
  next
    case empty: True
    then have "queue v \<noteq> []" using arg_cong [OF d(1), of size] d(2) True by auto
    then obtain x q where "queue v = x # q" by (cases "queue v") auto
    moreover have "0 < idle v" using d(3) empty assms(3) by simp
    ultimately show ?thesis using assms(2) True by (blast intro: validate_step.send)
  qed
qed

lemma no_infinite_validation:
  assumes "\<And>i. validate_step check n (f i) (f (Suc i))"
  shows False
proof -
  have "validate_measure (f i) + i \<le> validate_measure (f 0)" for i
  proof (induction i)
    case (Suc i)
    then show ?case using validate_step_decreases [OF assms [of i]] by simp
  qed simp
  from this [of "Suc (validate_measure (f 0))"] show False by simp
qed

lemma validate_step_running: "validate_step check n v w \<Longrightarrow> returned v = None"
  by (cases rule: validate_step.cases) auto

lemma maxGoRoutines_pos: "0 < n \<Longrightarrow> 0 < maxGoRoutines numCPU n"
  by (simp add: maxGoRoutines_def Let_def)

lemma validate_unfinished:
  assumes "(validate_step check (length items))\<^sup>*\<^sup>* (startValidate numCPU items) v" and "returned v = None"
  shows "\<exists>v'. validate_step check (length items) v v'"
proof -
  have "items \<noteq> []"
  proof
    assume "items = []"
    then have "returned (startValidate numCPU items) \<noteq> None" by (simp add: startValidate_def)
    moreover have "\<nexists>w. validate_step check (length items) (startValidate numCPU items) w"
      using calculation by (auto dest: validate_step_running)
    ultimately show False using assms by (metis converse_rtranclpE)
  qed
  then have "0 < maxGoRoutines numCPU (length items)" by (simp add: maxGoRoutines_pos)
  from validate_progress [OF validate_inv_reachable [OF assms(1)] assms(2) this] show ?thesis .
qed

lemma validate_agrees:
  assumes "(validate_step check (length items))\<^sup>*\<^sup>* (startValidate numCPU items) v" and "returned v = Some r"
  shows "(r = Inr () \<longleftrightarrow> Validate check items = Inr ()) \<and> (\<forall>e. r = Inl e \<longrightarrow> Inl e \<in> check ` set items)"
proof -
  obtain fin where d: "mset items = mset (queue v) + busy v + fin"
    and c: "case r of Inr _ \<Rightarrow> queue v = [] \<and> busy v = {#} \<and> (\<forall>x \<in># fin. check x = Inr ())
           | Inl e \<Rightarrow> \<exists>x \<in># fin. check x = Inl e"
    using validate_inv_reachable [OF assms(1)] assms(2) by (auto simp: validate_inv_def)
  have sub: "set_mset fin \<subseteq> set items" using arg_cong [OF d, of set_mset] by auto
  show ?thesis
  proof (cases r)
    case (Inl e)
    then obtain x where "x \<in># fin" "check x = Inl e" using c by auto
    then show ?thesis using sub Inl by (force simp: Validate_Inr_iff)
  next
    case (Inr u)
    then have "mset items = fin" using c d by simp
    then have "set items = set_mset fin" by (metis set_mset_mset)
    then show ?thesis using c Inr by (simp add: Validate_Inr_iff)
  qed
qed

section \<open>Properties\<close>

text \<open>C20: scheduling does not change the verdict.  Whatever the number of processors and however the
  goroutines are interleaved, when \<open>Validate\<close> returns it returns nil exactly when every item passes,
  and an error it returns is the error of one of the items.\<close>

theorem validator_schedules_agree:
  assumes "(validate_step check (length items))\<^sup>*\<^sup>* (startValidate numCPU items) v" and "returned v = Some r"
  shows "(r = Inr () \<longleftrightarrow> Validate check items = Inr ())
    \<and> (Validate check items = Inr () \<longleftrightarrow> (\<forall>x \<in> set items. check x = Inr ()))
    \<and> (\<forall>e. r = Inl e \<longrightarrow> Inl e \<in> check ` set items)"
  using validate_agrees [OF assms] by (simp add: Validate_Inr_iff)

theorem validator_schedules_agree_witness:
  fixes x :: txValidateItem
  defines "x \<equiv> \<lparr>txInIndex = 0, txIn = \<lparr>PreviousOutPoint = \<lparr>Hash = 0, Index = 0\<rparr>, SignatureScript = [],
      Witness = [], Sequence = 0\<rparr>, vi_tx = NewMsgTx 1\<rparr>"
  shows "Validate (\<lambda>_. Inl ErrScriptValidation) [x, x] \<noteq> Inr ()
    \<and> (\<exists>v. (validate_step (\<lambda>_. Inl ErrScriptValidation) 2)\<^sup>*\<^sup>* (startValidate 1 [x, x]) v
        \<and> returned v = Some (Inl ErrScriptValidation) \<and> queue v = [x])"
proof -
  let ?c = "\<lambda>_ :: txValidateItem. Inl ErrScriptValidation :: rule_error + unit"
  let ?s = "startValidate 1 [x, x]"
  let ?a = "?s\<lparr>queue := [x], busy := {#x#}, idle := 1\<rparr>"
  let ?b = "?a\<lparr>busy := {#}, processed := 1, returned := Some (Inl ErrScriptValidation)\<rparr>"
  have "validate_step ?c 2 ?s ?a"
    using validate_step.send [of ?s 2 x "[x]" ?c] by (simp add: startValidate_def maxGoRoutines_def Let_def)
  moreover have "validate_step ?c 2 ?a ?b"
    using validate_step.result_err [of ?a 2 x ?c ErrScriptValidation]
    by (simp add: startValidate_def maxGoRoutines_def Let_def)
  ultimately have r: "(validate_step ?c 2)\<^sup>*\<^sup>* ?s ?b" by (meson r_into_rtranclp rtranclp_trans)
  moreover have "Validate ?c [x, x] \<noteq> Inr ()"
    using validator_schedules_agree [of ?c "[x, x]" 1 ?b "Inl ErrScriptValidation"] r
    by (simp add: numeral_2_eq_2)
  ultimately show ?thesis by (intro conjI exI [of _ ?b]) simp_all
qed

text \<open>C21: the concurrent validator always finishes.  From the start, on any number of processors, no
  interleaving runs forever, and a state in which nothing can happen is one in which it has returned:
  no goroutine waits forever on a channel.\<close>

theorem validator_finishes:
  "\<not> (\<exists>f. f 0 = startValidate numCPU items \<and> (\<forall>i. validate_step check (length items) (f i) (f (Suc i))))
    \<and> (\<nexists>v. (validate_step check (length items))\<^sup>*\<^sup>* (startValidate numCPU items) v
        \<and> (\<nexists>v'. validate_step check (length items) v v') \<and> returned v = None)"
proof (intro conjI notI; elim exE conjE)
  fix f
  assume "\<forall>i. validate_step check (length items) (f i) (f (Suc i))"
  then show False using no_infinite_validation by blast
next
  fix v
  assume "(validate_step check (length items))\<^sup>*\<^sup>* (startValidate numCPU items) v" and "returned v = None"
    and "\<nexists>v'. validate_step check (length items) v v'"
  then show False using validate_unfinished by blast
qed

end
