(* ===== verification/Reap_Safety.thy ===== *)
theory Reap_Safety
  imports Reap_Agreement Script_Validation
begin

text \<open>
  Who may spend what: spending without a signature, before and after activation; the recognisers of
  the consensus rules and of the relay policy; the page loop of the scanning selector on the index.
\<close>

section \<open>Spending without a signature before activation\<close>

definition rules_inactive :: "'a Params_scheme \<Rightarrow> int32 \<Rightarrow> bool" where
  "rules_inactive params h \<longleftrightarrow> (case GetExpiryParams params of None \<Rightarrow> True | Some ep \<Rightarrow> h < EnableAtHeight ep)"

lemma rules_inactive_Inr:
  assumes "rules_inactive params h"
  shows "checkExpirySpendRules tx h view params = Inr ()" and "checkReapConsensusHardening tx h view params = Inr ()"
    and "checkReapTaxRules tx h view params = Inr ()"
proof -
  have "h < ReapConsensusAtHeight ep" if "GetExpiryParams params = Some ep" for ep
    using that assms wf_GetExpiryParams [OF that] by (simp add: rules_inactive_def wf_expiry_params_def)
  then show "checkExpirySpendRules tx h view params = Inr ()" "checkReapConsensusHardening tx h view params = Inr ()"
    "checkReapTaxRules tx h view params = Inr ()"
    using assms
    by (auto simp: rules_inactive_def checkExpirySpendRules_def checkReapConsensusHardening_def checkReapTaxRules_def
        split: option.splits)
qed

text \<open>The transaction that moves one output to a payee, with the marker and no signature.\<close>

definition takeover :: "int32 \<Rightarrow> OutPoint \<Rightarrow> int64 \<Rightarrow> bytes \<Rightarrow> MsgTx" where
  "takeover h op v payee =
     \<lparr>Version = reapTxVersion, TxIn = [reapTxIn op],
      TxOut = [\<lparr>Value = v, PkScript = payee\<rparr>, \<lparr>Value = 0, PkScript = OP_RETURN # push_bytes (markerPayload h 1 [op])\<rparr>],
      LockTime = 0\<rparr>"

lemma takeover_marked:
  assumes "is_int32 h"
  shows "isLikelyReapTx (takeover h op v payee)" and "checkReapMarker (takeover h op v payee) h = Inr ()"
proof -
  let ?tx = "takeover h op v payee"
  have "marked h ?tx" by (simp add: marked_def takeover_def reapTxIn_def)
  moreover have "is_int64 (int (length (TxIn ?tx)))" by (simp add: takeover_def is_int64_def)
  ultimately show "isLikelyReapTx ?tx" "checkReapMarker ?tx h = Inr ()" using marked_accepted assms by blast+
qed

lemma VarIntSerializeSize_le: "VarIntSerializeSize v \<le> 9"
  by (simp add: VarIntSerializeSize_def)

lemma takeover_size:
  assumes "is_int64 h" and "length payee \<le> 10000"
  shows "SerializeSizeStripped (takeover h op v payee) \<le> MaxBlockBaseSize"
proof -
  have "length (push_bytes (markerPayload h 1 [op])) \<le> 116"
    unfolding length_push_bytes using length_markerPayload [OF assms(1), of 1 "[op]"]
    by (auto simp: canonicalDataSize_def Let_def is_int64_def)
  moreover have "TxIn_SerializeSize (reapTxIn op) \<le> 49" "TxOut_SerializeSize out \<le> 17 + length (PkScript out)" for out
    using VarIntSerializeSize_le by (auto simp: TxIn_SerializeSize_def TxOut_SerializeSize_def reapTxIn_def)
  moreover note this(2) [of "\<lparr>Value = v, PkScript = payee\<rparr>"]
    this(2) [of "\<lparr>Value = 0, PkScript = OP_RETURN # push_bytes (markerPayload h 1 [op])\<rparr>"]
    VarIntSerializeSize_le [of "of_nat 1"] VarIntSerializeSize_le [of "of_nat 2"]
  ultimately show ?thesis
    using assms(2) by (simp add: SerializeSizeStripped_def baseSize_def takeover_def MaxBlockBaseSize_def)
qed

lemma takeover_sane:
  assumes "is_int64 h" and "length payee \<le> 10000" and "0 \<le> v" and "v \<le> MaxSatoshi" and "\<not> isNullOutpoint op"
  shows "CheckTransactionSanity (takeover h op v payee) = Inr ()" and "\<not> IsCoinBaseTx (takeover h op v payee)"
proof -
  show cb: "\<not> IsCoinBaseTx (takeover h op v payee)"
    using assms(5) by (auto simp: IsCoinBaseTx_def takeover_def reapTxIn_def isNullOutpoint_iff)
  have w: "wrap64 v = v" using assms(3,4) by (intro wrap64_id) (simp add: is_int64_def MaxSatoshi_def)
  have "fold_r checkOutputValue (TxOut (takeover h op v payee)) 0 = Inr v"
    using assms(3,4) w by (simp add: takeover_def checkOutputValue_def Let_def MaxSatoshi_def)
  then show "CheckTransactionSanity (takeover h op v payee) = Inr ()"
    unfolding CheckTransactionSanity_def using cb takeover_size [OF assms(1,2), of op v] assms(5)
    by (simp add: takeover_def reapTxIn_def)
qed

lemma takeover_accepted:
  assumes h: "is_int32 h" and off: "rules_inactive params h"
    and e: "LookupEntry view op = Some e" "\<not> IsSpent e" "mature params h e" "0 \<le> amount e" "amount e \<le> MaxSatoshi"
    and op: "\<not> isNullOutpoint op"
  shows "CheckTransactionInputs (takeover h op (amount e) payee) h view params = Inr 0"
    and "isLikelyReapTx (takeover h op (amount e) payee)"
proof -
  let ?tx = "takeover h op (amount e) payee"
  note m = takeover_marked [OF h, of op "amount e" payee] and off = rules_inactive_Inr [OF off, of ?tx view]
  show "isLikelyReapTx ?tx" by (rule m)
  have cb: "\<not> IsCoinBaseTx ?tx"
    using op by (auto simp: IsCoinBaseTx_def takeover_def reapTxIn_def isNullOutpoint_iff)
  have "live_entry view (reapTxIn op) = Some e" using e(1,2) by (simp add: live_entry_Some_iff reapTxIn_def)
  then have ins: "fold_r (sumInput h view params) (TxIn ?tx) 0 = Inr (amount e)"
    using sumInput_Inr_iff [of 0 h view params "reapTxIn op" "amount e"] e(3-5)
    by (simp add: takeover_def MaxSatoshi_def)
  have "wrap64 (amount e) = amount e" using e(4,5) by (intro wrap64_id) (simp add: is_int64_def MaxSatoshi_def)
  then have so: "sumOutputs (TxOut ?tx) = amount e" by (simp add: sumOutputs_def takeover_def)
  show "CheckTransactionInputs ?tx h view params = Inr 0"
    unfolding CheckTransactionInputs_def m(2) off bind_r_Inr ins so Let_def using cb by (simp add: wrap64_id is_int64_def)
qed

section \<open>The two recognisers\<close>

lemma IsLikelyREAPTx_isLikelyReapTx: "IsLikelyREAPTx tx \<Longrightarrow> isLikelyReapTx tx"
  by (auto simp: IsLikelyREAPTx_def isLikelyReapTx_def ExtractMarkerPayload_def extractMarkerPayload_def Let_def
      split: if_splits option.splits sum.splits list.splits)

lemma hd_push_bytes:
  assumes "d \<noteq> []" and "\<not> is_small_push d" and "length d \<le> 65535"
  shows "push_bytes d \<noteq> []" and "hd (push_bytes d) \<noteq> OP_RETURN"
proof -
  consider "length d < 76" | "76 \<le> length d" "length d \<le> 255" | "256 \<le> length d" by linarith
  then have "push_bytes d \<noteq> [] \<and> hd (push_bytes d) \<noteq> OP_RETURN"
  proof cases
    case 1
    have "unat (of_nat (length d) :: byte) = length d" using 1 by (simp add: unat_of_nat_byte)
    then have "(of_nat (length d) :: byte) \<noteq> OP_RETURN" using 1 by (auto simp: OP_RETURN_def)
    then show ?thesis using push_bytes_small [OF assms(1) 1 assms(2)] by simp
  qed (use assms(3) push_bytes_1 push_bytes_2 in \<open>auto simp: op_defs\<close>)
  then show "push_bytes d \<noteq> []" "hd (push_bytes d) \<noteq> OP_RETURN" by simp_all
qed

text \<open>A push without \<open>OP_RETURN\<close> is a marker for the consensus rules and none for the policy.\<close>

lemma bare_push_marker:
  assumes "d \<noteq> []" and "\<not> is_small_push d" and "length d \<le> 65535"
  shows "extractMarkerPayload (push_bytes d) = Some d" and "ExtractMarkerPayload (push_bytes d) = None"
proof -
  show "extractMarkerPayload (push_bytes d) = Some d"
    using pushes_parse_push_bytes [of "[d]"] assms(2,3)
    by (auto simp: extractMarkerPayload_def PushedData_parse split: prod.splits option.splits)
  show "ExtractMarkerPayload (push_bytes d) = None"
    using hd_push_bytes [OF assms] by (simp add: ExtractMarkerPayload_def)
qed

section \<open>Weight estimates\<close>

lemma length_markerPayload_ge: "73 \<le> length (markerPayload h n ops)"
proof -
  have "print_int v \<noteq> []" for v by (simp add: print_int_def)
  then have "1 \<le> length (print_int v)" for v by (simp add: Suc_le_eq)
  from this [of h] this [of n] show ?thesis by (simp add: markerPayload_def str_bytes_def)
qed

lemma VarIntSerializeSize_ge: "1 \<le> VarIntSerializeSize v"
  by (simp add: VarIntSerializeSize_def)

text \<open>A blueprint of dust inputs has the marker as its only output and weighs more than its
  estimate.\<close>

lemma dust_blueprint_outputs:
  assumes "reaps ep h ops es tx" and "\<forall>e \<in> set es. refund_of ep e = 0"
  shows "butlast (TxOut tx) = []"
proof (rule ccontr)
  assume "butlast (TxOut tx) \<noteq> []"
  then obtain out where out: "out \<in> set (butlast (TxOut tx))" by (cases "butlast (TxOut tx)") auto
  have pos: "\<forall>(k, v) \<in> set (payments (butlast (TxOut tx))). 0 < v" using assms(1) by (auto simp: reaps_def)
  have "paid_to (refunds ep es) s = 0" for s using assms(2) by (induction es) auto
  then have "paid_to (payments (butlast (TxOut tx))) (PkScript out) = 0" using assms(1) by (simp add: reaps_def)
  then show False using paid_to_pos_iff [OF pos] out by force
qed

lemma dust_blueprint_weight:
  assumes r: "reaps ep h ops es tx" and dust: "\<forall>e \<in> set es. refund_of ep e = 0"
  shows "EstimateTieredBlueprintWeight (int (length ops)) 0 + 216 \<le> GetTransactionWeight tx"
proof -
  let ?m = "markerPayload h (int (length (TxIn tx))) (map PreviousOutPoint (TxIn tx))"
  have tx: "TxIn tx = map reapTxIn ops" "TxOut tx = [\<lparr>Value = 0, PkScript = OP_RETURN # push_bytes ?m\<rparr>]"
    using r dust_blueprint_outputs [OF r dust]
    by (auto simp: reaps_def marked_def) (metis append_butlast_last_id append_Nil)
  have "74 \<le> length (push_bytes ?m)"
    unfolding length_push_bytes
    using length_markerPayload_ge [of h "int (length (TxIn tx))" "map PreviousOutPoint (TxIn tx)"]
    by (auto simp: canonicalDataSize_def Let_def op_defs)
  then have out: "84 \<le> sum_list (map TxOut_SerializeSize (TxOut tx))"
    using VarIntSerializeSize_ge [of "of_nat (length (OP_RETURN # push_bytes ?m))"]
    by (subst tx(2)) (simp add: TxOut_SerializeSize_def)
  have ins: "sum_list (map TxIn_SerializeSize (TxIn tx)) = 41 * length ops"
    by (simp add: tx(1) TxIn_SerializeSize_def reapTxIn_def VarIntSerializeSize_def sum_list_triv comp_def)
  have "94 + 41 * length ops \<le> baseSize tx"
    using out ins VarIntSerializeSize_ge [of "of_nat (length (TxIn tx))"] VarIntSerializeSize_ge [of "of_nat (length (TxOut tx))"]
    by (simp add: baseSize_def)
  moreover have "int (4 * baseSize tx) \<le> GetTransactionWeight tx"
    by (simp add: GetTransactionWeight_def SerializeSizeStripped_def SerializeSize_def WitnessScaleFactor_def)
  ultimately show ?thesis
    by (simp add: EstimateTieredBlueprintWeight_def estBaseWeight_def estInputWeight_def estRefundOutputWeight_def
        estMarkOutputWeight_def Let_def)
qed

section \<open>The page loop on the index\<close>

lemma liveCandidates_append: "liveCandidates view (xs @ ys) = liveCandidates view xs @ liveCandidates view ys"
  by (simp add: liveCandidates_def)

lemma scanPages_index:
  assumes rep: "index_rep db M" "\<not> idx_disabled idx" and n: "0 < batch"
    and xs: "set xs = {x \<in> entries_of M. in_scan fromKey toKey startAfter x}" "sorted_wrt scan_less xs"
  shows "\<exists>k. scanPages (\<lambda>_. False) (\<lambda>f t m s. ScanExpiringUTXOs idx f t m s db) view batch toKey i fromKey startAfter found
    = Some (Inr (found @ liveCandidates view xs, k))"
  using xs
proof (induction "length xs" arbitrary: xs i fromKey startAfter found rule: less_induct)
  case less
  let ?scan = "\<lambda>f t m s. ScanExpiringUTXOs idx f t m s db" and ?n = "nat batch"
  obtain ys where ys: "ScanExpiringUTXOs idx fromKey toKey batch startAfter db = Inr (take ?n ys, ?n < length ys)"
    "set ys = {x \<in> entries_of M. in_scan fromKey toKey startAfter x}" "sorted_wrt scan_less ys"
    using ScanExpiringUTXOs_spec [OF rep n] .
  then have eq: "ys = xs" using less.prems scan_sorted_unique by blast
  show ?case
  proof (cases "?n < length xs")
    case False
    then show ?thesis using ys(1) eq by (subst scanPages.simps) simp
  next
    case True
    let ?page = "take ?n xs"
    have page: "ScanExpiringUTXOs idx fromKey toKey batch startAfter db = Inr (?page, True)" using ys(1) eq True by simp
    obtain zs where zs: "set zs = {x \<in> entries_of M. in_scan fromKey toKey startAfter x}" "sorted_wrt scan_less zs"
      "?page = take ?n zs"
      "ScanExpiringUTXOs idx (exp_ExpiryKey (last ?page)) toKey batch (Some (exp_OutPoint (last ?page))) db =
        Inr (take ?n (drop ?n zs), ?n < length (drop ?n zs))"
      "set (drop ?n zs) = {x \<in> entries_of M.
        in_scan (exp_ExpiryKey (last ?page)) toKey (Some (exp_OutPoint (last ?page))) x}"
      by (rule ScanExpiringUTXOs_resume [OF rep n page])
    have zx: "zs = xs" using less.prems zs(1,2) scan_sorted_unique by blast
    have ne: "?page \<noteq> []" using True n by auto
    have lt: "length (drop ?n xs) < length xs" using True n by simp
    have "\<exists>k. scanPages (\<lambda>_. False) ?scan view batch toKey (Suc i) (exp_ExpiryKey (last ?page))
        (Some (exp_OutPoint (last ?page))) (found @ liveCandidates view ?page)
      = Some (Inr ((found @ liveCandidates view ?page) @ liveCandidates view (drop ?n xs), k))"
      using less.hyps [OF lt] zs(5) zx sorted_wrt_drop [OF less.prems(2)] by blast
    moreover have "scanPages (\<lambda>_. False) ?scan view batch toKey i fromKey startAfter found =
        scanPages (\<lambda>_. False) ?scan view batch toKey (Suc i) (exp_ExpiryKey (last ?page))
          (Some (exp_OutPoint (last ?page))) (found @ liveCandidates view ?page)"
      using page ne by (subst scanPages.simps) simp
    moreover have "liveCandidates view ?page @ liveCandidates view (drop ?n xs) = liveCandidates view xs"
      using liveCandidates_append [of view ?page "drop ?n xs"] by simp
    ultimately show ?thesis by simp
  qed
qed

section \<open>Properties\<close>

text \<open>C27: the recogniser that keeps REAP transactions out of the memory pool is strictly weaker than
  the one that exempts them from script validation.  What the policy recognises the consensus rules
  recognise; a transaction whose marker is a push without \<open>OP_RETURN\<close> is recognised by the consensus
  rules and missed by the policy.\<close>

theorem recognisers_differ:
  "(IsLikelyREAPTx tx \<longrightarrow> isLikelyReapTx tx)
    \<and> (Version tx = reapTxVersion \<and> TxOut tx = outs @ [\<lparr>Value = 0, PkScript = push_bytes (str_bytes ''REAP:'' @ rest)\<rparr>]
        \<and> length rest \<le> 60000 \<longrightarrow> isLikelyReapTx tx \<and> \<not> IsLikelyREAPTx tx)"
proof (intro conjI impI)
  assume "IsLikelyREAPTx tx"
  then show "isLikelyReapTx tx" by (rule IsLikelyREAPTx_isLikelyReapTx)
next
  let ?d = "str_bytes ''REAP:'' @ rest"
  assume a: "Version tx = reapTxVersion \<and> TxOut tx = outs @ [\<lparr>Value = 0, PkScript = push_bytes ?d\<rparr>] \<and> length rest \<le> 60000"
  have "?d \<noteq> []" "\<not> is_small_push ?d" "length ?d \<le> 65535"
    using a by (simp_all add: str_bytes_def is_small_push_def)
  note m = bare_push_marker [OF this]
  show "isLikelyReapTx tx" using a m(1) by (simp add: isLikelyReapTx_def HasPrefix_def)
  show "\<not> IsLikelyREAPTx tx" using a m(2) by (simp add: IsLikelyREAPTx_def)
qed

theorem recognisers_differ_witness:
  "isLikelyReapTx ((NewMsgTx reapTxVersion)\<lparr>TxOut := [\<lparr>Value = 0, PkScript = push_bytes (str_bytes ''REAP:'')\<rparr>]\<rparr>)
    \<and> \<not> IsLikelyREAPTx ((NewMsgTx reapTxVersion)\<lparr>TxOut := [\<lparr>Value = 0, PkScript = push_bytes (str_bytes ''REAP:'')\<rparr>]\<rparr>)"
  using recognisers_differ [of "(NewMsgTx reapTxVersion)\<lparr>TxOut := [\<lparr>Value = 0, PkScript = push_bytes (str_bytes ''REAP:'')\<rparr>]\<rparr>" "[]" "[]"]
  by (simp add: NewMsgTx_def)

end
