(* ===== verification/Reap_Liveness.thy ===== *)
theory Reap_Liveness
  imports Reap_Safety
begin

text \<open>
  The template generator makes progress: whenever the index has an expired output, a REAP transaction
  is built.  A blueprint of one input always fits, so the budget loop, which drops inputs from the end,
  stops with a transaction.
\<close>

section \<open>The weight of a blueprint of one input\<close>

lemma single_blueprint_outputs:
  assumes r: "reaps ep h [op] [e] tx"
  shows "butlast (TxOut tx) = [] \<or> (\<exists>v. butlast (TxOut tx) = [\<lparr>Value = v, PkScript = pkScript e\<rparr>])"
proof -
  let ?outs = "butlast (TxOut tx)"
  have pos: "\<forall>(k, v) \<in> set (payments ?outs). 0 < v" and d: "distinct (map PkScript ?outs)"
    and paid: "\<And>s. paid_to (payments ?outs) s = paid_to (refunds ep [e]) s"
    using r by (auto simp: reaps_def)
  have own: "PkScript out = pkScript e" if "out \<in> set ?outs" for out
  proof (rule ccontr)
    assume "PkScript out \<noteq> pkScript e"
    then have "paid_to (refunds ep [e]) (PkScript out) = 0" by simp
    then show False using paid [of "PkScript out"] paid_to_pos_iff [OF pos, of "PkScript out"] that by force
  qed
  show ?thesis
  proof (cases ?outs)
    case (Cons a as)
    have "as = []" using d own Cons by (cases as) auto
    moreover have "a = \<lparr>Value = Value a, PkScript = pkScript e\<rparr>" using own [of a] Cons by (cases a) auto
    ultimately have "?outs = [\<lparr>Value = Value a, PkScript = pkScript e\<rparr>]" using Cons by simp
    then show ?thesis by blast
  qed simp
qed

lemma TxOut_SerializeSize_le: "TxOut_SerializeSize out \<le> 17 + length (PkScript out)"
  using VarIntSerializeSize_le [of "of_nat (length (PkScript out))"] by (simp add: TxOut_SerializeSize_def)

lemma single_blueprint_weight:
  assumes r: "reaps ep h [op] [e] tx" and h: "is_int32 h" and s: "length (pkScript e) \<le> MaxScriptSize"
  shows "GetTransactionWeight tx \<le> 41000"
proof -
  have ins: "TxIn tx = [reapTxIn op]" and mk: "marked h tx" using r by (simp_all add: reaps_def)
  have h64: "is_int64 h" using h by (simp add: is_int32_def is_int64_def)
  have ne: "TxOut tx \<noteq> []" using mk by (simp add: marked_def)
  have last: "last (TxOut tx) = \<lparr>Value = 0, PkScript = OP_RETURN # push_bytes (markerPayload h 1 [op])\<rparr>"
    using mk ins by (simp add: marked_def reapTxIn_def)
  have "length (push_bytes (markerPayload h 1 [op])) \<le> 116"
    unfolding length_push_bytes using length_markerPayload [OF h64, of 1 "[op]"]
    by (auto simp: canonicalDataSize_def Let_def is_int64_def)
  then have m: "TxOut_SerializeSize (last (TxOut tx)) \<le> 134"
    using TxOut_SerializeSize_le [of "last (TxOut tx)"] last by simp
  have "sum_list (map TxOut_SerializeSize (butlast (TxOut tx))) \<le> 10017"
    using single_blueprint_outputs [OF r]
  proof
    assume "\<exists>v. butlast (TxOut tx) = [\<lparr>Value = v, PkScript = pkScript e\<rparr>]"
    then obtain v where "butlast (TxOut tx) = [\<lparr>Value = v, PkScript = pkScript e\<rparr>]" ..
    then show ?thesis
      using s TxOut_SerializeSize_le [of "\<lparr>Value = v, PkScript = pkScript e\<rparr>"] by (simp add: MaxScriptSize_def)
  qed simp
  moreover have "sum_list (map TxOut_SerializeSize (TxOut tx)) =
      sum_list (map TxOut_SerializeSize (butlast (TxOut tx))) + TxOut_SerializeSize (last (TxOut tx))"
    by (subst append_butlast_last_id [OF ne, symmetric]) (simp del: append_butlast_last_id)
  ultimately have outs: "sum_list (map TxOut_SerializeSize (TxOut tx)) \<le> 10151" using m by linarith
  have inp: "sum_list (map TxIn_SerializeSize (TxIn tx)) \<le> 49"
    using VarIntSerializeSize_le [of 0] by (simp add: ins TxIn_SerializeSize_def reapTxIn_def)
  have "baseSize tx \<le> 10226"
    using outs inp VarIntSerializeSize_le [of "of_nat (length (TxIn tx))"] VarIntSerializeSize_le [of "of_nat (length (TxOut tx))"]
    by (simp add: baseSize_def)
  moreover have "\<not> HasWitness tx" by (simp add: HasWitness_def ins reapTxIn_def)
  ultimately show ?thesis
    by (simp add: GetTransactionWeight_def SerializeSizeStripped_def SerializeSize_def WitnessScaleFactor_def)
qed

section \<open>The budget loop finds a transaction\<close>

lemma sane_entries_butlast:
  assumes "sane_entries view ops es"
  shows "sane_entries view (butlast ops) (butlast es)"
proof -
  have "map (live_entry view) (map reapTxIn ops) = map Some es" and nn: "\<forall>e \<in> set es. 0 \<le> amount e"
    and t: "total_amount es \<le> MaxSatoshi"
    using assms by (simp_all add: sane_entries_def spends_entries_def)
  then have "butlast (map (live_entry view) (map reapTxIn ops)) = butlast (map Some es)" by simp
  then have "spends_entries view (map reapTxIn (butlast ops)) (butlast es)"
    by (simp add: spends_entries_def map_butlast)
  moreover have "total_amount (butlast es) \<le> total_amount es"
    using nn by (cases es rule: rev_cases) auto
  ultimately show ?thesis using nn t by (auto simp: sane_entries_def dest: in_set_butlastD)
qed

lemma hd_butlast: "length xs \<noteq> 1 \<Longrightarrow> xs \<noteq> [] \<Longrightarrow> butlast xs \<noteq> [] \<and> hd (butlast xs) = hd xs"
  by (cases xs) auto

lemma budgetLoop_finds:
  assumes mp: "miner_params ep p" and h: "is_int32 h"
    and fits: "\<And>tx. reaps ep h [op] [e] tx \<Longrightarrow>
      GetTransactionWeight tx \<le> WeightBudget p \<and> (0 < w \<longrightarrow> GetTransactionWeight tx < w)"
    and plan: "Inputs plan \<noteq> []" "hd (Inputs plan) = op" "plan_Height plan = h"
      "is_int64 (int (length (Inputs plan)))"
    and es: "sane_entries view (Inputs plan) es" "hd es = e"
  shows "\<exists>tx plan' wt. budgetLoop plan view p w = Inr (Some tx, plan', wt)"
  using plan es
proof (induction "length (Inputs plan)" arbitrary: plan es rule: less_induct)
  case less
  have len: "length es = length (Inputs plan)"
    using less.prems(5) by (auto simp: sane_entries_def dest: spends_entries_length)
  obtain norm where norm: "normalizePlan plan view p = Inr norm" "Inputs norm = Inputs plan" "plan_Height norm = h"
    "TaxTotal norm = sum_list (map (tax_of ep) es)" "RefundTotal norm = sum_list (map (refund_of ep) es)"
    using normalizePlan_ok [OF mp less.prems(5)] less.prems(3) by auto
  obtain tx where tx: "BuildBlueprint norm view p = Inr tx" "reaps ep h (Inputs plan) es tx"
    using BuildBlueprint_ok [OF mp, of view norm es] norm less.prems h by auto
  let ?wt = "GetTransactionWeight tx" and ?cut = "plan\<lparr>Inputs := butlast (Inputs plan)\<rparr>"
  note step = budgetLoop_step [OF norm(1) tx(1), of w]
  show ?case
  proof (cases "length (Inputs plan) = 1")
    case True
    then have "Inputs plan = [op]" "es = [e]"
      using less.prems(2,6) len by (auto simp: length_Suc_conv)
    then have "?wt \<le> WeightBudget p \<and> (0 < w \<longrightarrow> ?wt < w)" using fits tx(2) by simp
    then show ?thesis unfolding step by (auto simp: Let_def)
  next
    case False
    note b = hd_butlast [OF False less.prems(1)]
    have lt: "length (Inputs ?cut) < length (Inputs plan)" using less.prems(1) by simp
    have "es \<noteq> []" "length es \<noteq> 1" using len False less.prems(1) by auto
    then have he: "hd (butlast es) = e" using hd_butlast less.prems(6) by auto
    have "\<exists>tx plan' wt. budgetLoop ?cut view p w = Inr (Some tx, plan', wt)"
      by (rule less.hyps [OF lt, of "butlast es"])
        (use b less.prems he sane_entries_butlast [OF less.prems(5)] in \<open>auto simp: is_int64_def\<close>)
    then show ?thesis unfolding step using False less.prems(1) by (auto simp: Let_def)
  qed
qed

section \<open>The generator builds a transaction\<close>

lemma maybeBuildREAPTx_builds:
  assumes params: "GetExpiryParams (g_chainParams g) = Some ep" and h: "EnableAtHeight ep \<le> h" "is_int32 h"
    and idx: "g_reapIndex g = Some s" "index_stands_for s M"
    and view: "fetches_from g view" "backs view (g_chainParams g) ep h M" "\<And>ops. g_fetchUtxoView g ops \<noteq> None"
    and scripts: "\<And>op e. op \<in> dom M \<Longrightarrow> LookupEntry view op = Some e \<Longrightarrow> length (pkScript e) \<le> MaxScriptSize"
    and weight: "g_BlockMaxWeight g = 0 \<or> 41000 < g_BlockMaxWeight g"
    and expired: "M op0 = Some (k0, a0)" "k0 \<le> of_int h"
  shows "\<exists>tx fee. maybeBuildREAPTx g h = Inr (Some (tx, fee))"
proof -
  let ?params = "g_chainParams g" let ?p = "DefaultREAPParamsForNet ?params SortModeStrict"
  let ?limit = "ReapMaxInputs ep + ReapDustMaxInputs ep" let ?w = "uint (g_BlockMaxWeight g)"
  obtain i db where s: "s = (i, db)" by (cases s)
  note mp = miner_params_ForNet [OF params, of SortModeStrict]
  have wf: "wf_expiry_params ep" by (rule wf_GetExpiryParams [OF params])
  have h0: "0 \<le> h" and lim: "0 < ?limit" "?limit < 2 ^ 31" and caps: "0 < ReapMaxInputs ep" "0 < ReapDustMaxInputs ep"
    using wf h(1) by (auto simp: wf_expiry_params_def)
  have wfM: "wf_idx_map M" using idx_src.map_ok [OF idx(2)] .
  obtain cs where cs: "ReapPrefixCandidates i h ?limit db = Inr (take (nat ?limit) cs)"
    "set cs = {c \<in> candidates_of M. cand_ExpiryKey c \<le> of_int h}" "canonical_order cs"
    using idx_src.candidates_ok [OF idx(2) lim(1) h0] by (auto simp: s index_source_def)
  let ?cs = "take (nat ?limit) cs"
  have "\<lparr>cand_OutPoint = op0, cand_ExpiryKey = k0, cand_Amount = a0\<rparr> \<in> set cs"
    using cs(2) expired by (simp add: candidates_of_def)
  then have ne: "?cs \<noteq> []" using lim(1) by auto
  obtain r where sl: "selectLoop (\<lambda>_. False) ?p 0 (map (\<lambda>c. (cand_OutPoint c, cand_Amount c)) ?cs)
      ((newPlan h)\<lparr>Stats := zeroStats\<lparr>Candidates := int (length ?cs)\<rparr>\<rparr>, 0, 0) = Inr r"
    using selectLoop_total by blast
  have pp: "MaxInputs ?p = ReapMaxInputs ep" "DustMaxInputs ?p = ReapDustMaxInputs ep"
    using mp(1) by (simp_all add: miner_params_def)
  obtain plan where sel: "SelectPrefixCandidates (\<lambda>_. False) h ?cs ?p = Inr plan"
    using sl caps pp by (simp add: SelectPrefixCandidates_def Let_def)
  obtain k1 where k1: "Inputs plan = map cand_OutPoint (take k1 ?cs)" "plan_Height plan = h" "0 < k1"
    using SelectPrefixCandidates_prefix [OF mp(1) sel] ne by blast
  let ?picked = "take k1 ?cs" let ?ops = "map cand_OutPoint ?picked" and ?es = "map (cand_entry view) ?picked"
  have pne: "?picked \<noteq> []" using k1(3) ne by simp
  have sub: "set ?picked \<subseteq> {c \<in> candidates_of M. cand_ExpiryKey c \<le> of_int h}"
    using cs(2) by (auto dest: in_set_takeD)
  have can: "canonical_order ?picked" using cs(3) by (simp add: canonical_order_def sorted_wrt_take)
  obtain v where fetch: "g_fetchUtxoView g (Inputs plan) = Some v" using view(3) by blast
  have "\<forall>op \<in> set ?ops. LookupEntry v op = LookupEntry view op"
    using view(1) fetch k1(1) unfolding fetches_from_def by metis
  then have "sane_entries v ?ops ?es" using picked_sane [OF view(2) wfM sub can] sane_entries_cong by blast
  then have sane: "sane_entries v (Inputs plan) ?es" by (simp only: k1(1))
  let ?c = "hd ?picked"
  have c: "?c \<in> candidates_of M" "cand_ExpiryKey ?c \<le> of_int h" using sub hd_in_set [OF pne] by auto
  have scr: "length (pkScript (cand_entry view ?c)) \<le> MaxScriptSize"
    using scripts [of "cand_OutPoint ?c"] c(1) backs_entry(1) [OF view(2) c] by (auto simp: candidates_of_def)
  have w: "?w = 0 \<or> 41000 < ?w" using weight by (auto simp: word_less_def)
  have wb: "WeightBudget ?p = 400000" using mp(1) ReapMaxWeight_all [OF params] by (simp add: miner_params_def)
  have len: "is_int64 (int (length (Inputs plan)))" using lim k1(1) by (simp add: is_int64_def)
  have "\<exists>tx plan' wt. budgetLoop plan v ?p ?w = Inr (Some tx, plan', wt)"
  proof (rule budgetLoop_finds [OF mp(1) h(2) _ _ _ k1(2) len sane])
    fix tx assume "reaps ep h [cand_OutPoint ?c] [cand_entry view ?c] tx"
    from single_blueprint_weight [OF this h(2) scr]
    show "GetTransactionWeight tx \<le> WeightBudget ?p \<and> (0 < ?w \<longrightarrow> GetTransactionWeight tx < ?w)" using wb w by auto
  qed (use k1(1) pne in \<open>simp_all add: hd_map\<close>)
  then obtain tx plan' wt where "budgetLoop plan v ?p ?w = Inr (Some tx, plan', wt)" by blast
  moreover have "Inputs plan \<noteq> []" using k1(1) pne by simp
  moreover have "IsOBTC ?params" using params GetExpiryParams_None_iff [of ?params] by auto
  ultimately show ?thesis
    using idx(1) s params h(1) mp(2,3) cs(1) ne sel fetch
    by (simp add: maybeBuildREAPTx_def BuildBudgetedBlueprint_def Let_def)
qed

section \<open>The block rules on a template\<close>

lemma findReapFrom_last:
  "filter isLikelyReapTx txs = [] \<Longrightarrow> isLikelyReapTx tx \<Longrightarrow> findReapFrom i (txs @ [tx]) = Some (tx, i + length txs)"
  by (induction txs arbitrary: i) (auto split: if_splits)

lemma countReapTxs_last:
  "filter isLikelyReapTx txs = [] \<Longrightarrow> countReapTxs (txs @ [tx]) 0 = Inr ()"
  by (induction txs) (auto split: if_splits)

text \<open>A block that ends with the transaction the generator built, and has no other REAP transaction,
  satisfies the REAP rules of blocks, on the index the generator read.\<close>

lemma mined_block_rules:
  assumes params: "GetExpiryParams (g_chainParams g) = Some ep" and h: "EnableAtHeight ep \<le> h" "is_int32 h"
    and idx: "g_reapIndex g = Some s" "index_stands_for s M" "index_tip s = wrap32 (h - 1)"
    and view: "fetches_from g view" "backs view (g_chainParams g) ep h M"
    and built: "maybeBuildREAPTx g h = Inr (Some (tx, fee))"
    and block: "Transactions block = cb # txs @ [tx]" "filter isLikelyReapTx txs = []"
  shows "checkReapBlockHardening block h (g_chainParams g) = Inr ()"
    and "checkReapGlobalPrefix block h (Some (index_source s)) (g_chainParams g) = Inr ()"
proof -
  show "checkReapBlockHardening block h (g_chainParams g) = Inr ()"
    using countReapTxs_last [OF block(2)] block(1) params by (simp add: checkReapBlockHardening_def)
  obtain cs k where c: "set cs = {c \<in> candidates_of M. cand_ExpiryKey c \<le> of_int h}" "canonical_order cs"
    "0 < k" "k \<le> length cs" "map PreviousOutPoint (TxIn tx) = map cand_OutPoint (take k cs)" "isLikelyReapTx tx"
    using maybeBuildREAPTx_Some [OF params h idx(1,2) view built] by blast
  have len: "length (TxIn tx) = k" using arg_cong [OF c(5), of length] c(4) by simp
  then have ne: "TxIn tx \<noteq> []" using c(3) by auto
  have f: "findReapTx block = Some (tx, 1 + length txs)"
    using findReapFrom_last [OF block(2) c(6), of 1] block(1) by (simp add: findReapTx_def)
  have h0: "0 \<le> h" using wf_GetExpiryParams [OF params] h(1) by (simp add: wf_expiry_params_def)
  show "checkReapGlobalPrefix block h (Some (index_source s)) (g_chainParams g) = Inr ()"
  proof (cases "ReapConsensusAtHeight ep \<le> h")
    case True
    then show ?thesis
      using idx_src.checkReapGlobalPrefix_iff [OF idx(2) params _ h0 f ne c(1,2)] idx(3) c(4,5) len by simp
  next
    case False
    then show ?thesis using params by (simp add: checkReapGlobalPrefix_def)
  qed
qed

end
