(* ===== verification/Example_Inputs.thy ===== *)
theory Example_Inputs
  imports Reap_Liveness Expiry_Queries
begin

text \<open>
  Concrete inputs on the regression network, at which the witnesses of the properties evaluate the
  definitions: a fresh index, a block with one spendable output, an index rebuilt from one unspent
  output, and the view that holds that output.
\<close>

section \<open>The index\<close>

definition ex_idx :: ExpiryIndex where
  "ex_idx = \<lparr>idx_params = ObtcRegTestParams, idx_expiryParams = regtestExpiryParams,
     idx_curTipHeight = -1, idx_disabled = False\<rparr>"

definition no_buckets :: expiry_db where
  "no_buckets = \<lparr>bktExpiryMeta = None, bktOutpoint2Expiry = None, bktExpiry2Outpoints = None,
     bktReapStrictCandidates = None, bktOutpoint2ReapStrict = None\<rparr>"

definition ex_db0 :: expiry_db where
  "ex_db0 = (case ReindexExpiryIndex no_buckets of Inr db \<Rightarrow> db | Inl _ \<Rightarrow> no_buckets)"

lemma regtest_params [simp]: "GetExpiryParams ObtcRegTestParams = Some regtestExpiryParams"
  by (simp add: GetExpiryParams_def ObtcRegTestParams_def IsOBTC_def net_defs)

lemma NewExpiryIndex_regtest: "NewExpiryIndex ObtcRegTestParams = Inr ex_idx"
  by (simp add: NewExpiryIndex_def ex_idx_def)

lemma partial_no_buckets: "partial_db no_buckets"
  by (simp add: partial_db_def no_buckets_def)

lemma ex_db0: "ReindexExpiryIndex no_buckets = Inr ex_db0" "index_inv ex_db0 Map.empty NewMuHash 0 (-1)"
proof -
  obtain db where "ReindexExpiryIndex no_buckets = Inr db" "index_inv db Map.empty NewMuHash 0 (-1)"
    using ReindexExpiryIndex_ok [OF partial_no_buckets] by metis
  then show "ReindexExpiryIndex no_buckets = Inr ex_db0" "index_inv ex_db0 Map.empty NewMuHash 0 (-1)"
    by (simp_all add: ex_db0_def)
qed

lemma ex_idx_simps [simp]:
  "\<not> idx_disabled ex_idx" "idx_expiryParams ex_idx = regtestExpiryParams"
  by (simp_all add: ex_idx_def)

lemma regtest_simps [simp]:
  "StartScanHeight regtestExpiryParams = 0" "EnableAtHeight regtestExpiryParams = 110"
  "ReapConsensusAtHeight regtestExpiryParams = 112" "WindowBlocks regtestExpiryParams = 144"
  "ExpiryCommitmentEnableAtHeight regtestExpiryParams = 110"
  by (simp_all add: regtestExpiryParams_def height_defs)

section \<open>A block\<close>

definition ex_coinbase :: MsgTx where
  "ex_coinbase = \<lparr>Version = 1,
     TxIn = [\<lparr>PreviousOutPoint = \<lparr>Hash = 0, Index = 0xffffffff\<rparr>, SignatureScript = [1, 105], Witness = [],
       Sequence = 0xffffffff\<rparr>],
     TxOut = [\<lparr>Value = 5000000000, PkScript = [OP_1]\<rparr>], LockTime = 0\<rparr>"

definition ex_block :: Block where
  "ex_block = \<lparr>Header = \<lparr>BlockVersion = 4, PrevBlock = 7, MerkleRoot = 0, Timestamp = 0, Bits = 0, Nonce = 0\<rparr>,
     Transactions = [ex_coinbase], Height = 105\<rparr>"

lemma ex_coinbase_simps [simp]:
  "IsCoinBaseTx ex_coinbase" "TxOut ex_coinbase = [\<lparr>Value = 5000000000, PkScript = [OP_1]\<rparr>]"
  by (simp_all add: ex_coinbase_def IsCoinBaseTx_def)

lemma ex_block_simps [simp]:
  "Transactions ex_block = [ex_coinbase]" "Height ex_block = 105" "PrevBlock (Header ex_block) = 7"
  by (simp_all add: ex_block_def)

lemma OP_1_spendable [simp]: "\<not> IsUnspendable [OP_1]"
proof -
  have "parse_op [OP_1] = Inr (None, 1)"
    by (simp add: parse_op_def opcode_length_def op_defs)
  then have "snd (parse_script [OP_1]) = None" by (simp add: parse_script_step)
  then show ?thesis
    by (simp add: IsUnspendable_def checkScriptParses_parse MaxScriptSize_def) (simp add: op_defs)
qed

lemma ex_tracked [simp]: "tracked ex_idx 105 \<lparr>Value = v, PkScript = [OP_1]\<rparr>"
  by (simp add: tracked_def shouldIndexCreateHeight_def)

lemma ex_journal_ok: "journal_ok ex_idx ex_block [] Map.empty"
  by (simp add: journal_ok_def numbered_txs_def undo_ok_def tx_ok_def create_ok_def spec_spends_def valid_amount_def is_int64_def)

lemma ex_spec_block: "spec_block ex_idx ex_block Map.empty =
    [out_op ex_coinbase 0 \<mapsto> (CalculateExpiryKey regtestExpiryParams 105, 5000000000)]"
  by (simp add: spec_block_def spec_tx_def spec_spends_def spec_create_def)

lemma ex_block_facts:
  "IsIndexingEnabled regtestExpiryParams 105" "is_int32 105" "block_ok ex_idx ex_block Map.empty"
  "validateExpiryCommitment ex_idx ex_block root = Inr ()" "coprime (denominator NewMuHash) muhashPrime"
  "block_inputs ex_block = []"
  using ex_journal_ok
  by (simp_all add: IsIndexingEnabled_def is_int32_def journal_ok_block_ok validateExpiryCommitment_def
      isCommitmentActive_def NewMuHash_def block_inputs_def)

section \<open>An index with one unspent output\<close>

definition ex_op :: OutPoint where
  "ex_op = \<lparr>Hash = 5, Index = 1\<rparr>"

definition ex_chain :: ChainAccessor where
  "ex_chain = \<lparr>BestHeight = 299, BlockByHeight = (\<lambda>_. Inr ex_block), FetchSpendJournal = (\<lambda>_. Inr []),
     ForEachUTXO = ([(ex_op, 120)], None), ForEachUTXOWithAmount = Some ([(ex_op, 120, 100000)], None)\<rparr>"

definition ex_db :: expiry_db where
  "ex_db = snd (fst (fastRebuildFromUTXO (Some ex_chain) 299 (ex_idx, ex_db0)))"

definition ex_map :: idx_map where
  "ex_map = [ex_op \<mapsto> (264, 100000)]"

definition ex_entry :: UtxoEntry where
  "ex_entry = \<lparr>amount = 100000, pkScript = [OP_1], blockHeight = 120, packedFlags = 0\<rparr>"

definition ex_view :: UtxoViewpoint where
  "ex_view = \<lparr>entries = [ex_op \<mapsto> ex_entry], bestHash = 0\<rparr>"

lemma ex_key: "CalculateExpiryKey regtestExpiryParams 120 = 264"
  by (simp add: CalculateExpiryKey_def)

lemma ex_utxo_map: "utxo_map ex_idx [(ex_op, 120, 100000)] = ex_map"
  by (simp add: utxo_map_def spec_utxo_def ex_map_def ex_key shouldIndexCreateHeight_def)

lemma ex_utxos_ok: "utxos_ok ex_idx [(ex_op, 120, 100000)]"
  by (simp add: utxos_ok_def utxo_ok_def valid_amount_def is_int64_def)

lemma ex_rebuild_facts:
  "wf_db ex_db0" "utxo_iteration ex_chain = ([(ex_op, 120, 100000)], None)"
  "rebuild_tip ex_chain 299 (BlockHash ex_block)" "is_int32 299"
  using index_inv_wf_db [OF ex_db0(2)]
  by (simp_all add: utxo_iteration_def ex_chain_def rebuild_tip_def is_int32_def)

lemma ex_db: "fastRebuildFromUTXO (Some ex_chain) 299 (ex_idx, ex_db0) = ((ex_idx\<lparr>idx_curTipHeight := 299\<rparr>, ex_db), None)"
    "\<exists>mh. index_inv ex_db ex_map mh (BlockHash ex_block) 299 \<and> denominator mh = 1"
  using fastRebuildFromUTXO_ok [OF ex_rebuild_facts(1,2) ex_utxos_ok ex_rebuild_facts(3,4)]
  by (auto simp: ex_db_def ex_utxo_map)

lemma ex_index_rep: "index_rep ex_db ex_map"
  using ex_db(2) by (auto simp: index_inv_def)

lemma ex_stands_for: "index_stands_for (ex_idx, ex_db) ex_map"
  using ex_db(2) by (auto simp: index_stands_for_def)

lemma ex_entry_live: "LookupEntry ex_view ex_op = Some ex_entry" "\<not> IsSpent ex_entry"
  by (simp_all add: LookupEntry_def ex_view_def IsSpent_def ex_entry_def tf_defs)

lemma ex_mature: "mature params h ex_entry"
  by (simp add: mature_def IsCoinBase_def ex_entry_def tf_defs)

lemma ex_not_null: "\<not> isNullOutpoint ex_op"
  by (simp add: isNullOutpoint_def ex_op_def)

section \<open>Two ways to one map\<close>

definition ex_cb_map :: idx_map where
  "ex_cb_map = [out_op ex_coinbase 0 \<mapsto> (CalculateExpiryKey regtestExpiryParams 105, 5000000000)]"

definition ex_cb_chain :: ChainAccessor where
  "ex_cb_chain = \<lparr>BestHeight = 105, BlockByHeight = (\<lambda>_. Inr ex_block), FetchSpendJournal = (\<lambda>_. Inr []),
     ForEachUTXO = ([(out_op ex_coinbase 0, 105)], None),
     ForEachUTXOWithAmount = Some ([(out_op ex_coinbase 0, 105, 5000000000)], None)\<rparr>"

definition ex_db_connected :: expiry_db where
  "ex_db_connected = (case ConnectBlock ex_idx ex_block [] ex_db0 of Inr (_, db) \<Rightarrow> db | Inl _ \<Rightarrow> no_buckets)"

definition ex_db_rebuilt :: expiry_db where
  "ex_db_rebuilt = snd (fst (fastRebuildFromUTXO (Some ex_cb_chain) 105 (ex_idx, ex_db0)))"

abbreviation ex_idx_105 :: ExpiryIndex where
  "ex_idx_105 \<equiv> ex_idx\<lparr>idx_curTipHeight := 105\<rparr>"

lemma ex_reach0: "reach ex_idx (ex_idx, ex_db0) Map.empty"
  using reach.create [OF partial_no_buckets ex_db0(1)] .

lemma ex_connected:
  "ConnectBlock ex_idx ex_block [] ex_db0 = Inr (ex_idx_105, ex_db_connected)"
  "reach ex_idx (ex_idx_105, ex_db_connected) ex_cb_map"
  "GetAccumulatorDigest ex_idx_105 ex_db_connected = Inr (mset_digest (acc_mset ex_cb_map))"
proof -
  obtain db' mh' where c: "ConnectBlock ex_idx ex_block [] ex_db0 = Inr (ex_idx_105, db')"
    "index_inv db' ex_cb_map mh' (BlockHash ex_block) 105" "coprime (denominator mh') muhashPrime"
    using ConnectBlock_refines [OF ex_db0(2), of ex_idx ex_block "[]"] ex_block_facts ex_spec_block
    by (auto simp: ex_cb_map_def)
  then have e: "ex_db_connected = db'" by (simp add: ex_db_connected_def)
  show "ConnectBlock ex_idx ex_block [] ex_db0 = Inr (ex_idx_105, ex_db_connected)" using c(1) e by simp
  from reach.connect [OF ex_reach0 ex_journal_ok _ _ c(1)]
  show "reach ex_idx (ex_idx_105, ex_db_connected) ex_cb_map"
    using ex_block_facts ex_spec_block e by (simp add: ex_cb_map_def)
  show "GetAccumulatorDigest ex_idx_105 ex_db_connected = Inr (mset_digest (acc_mset ex_cb_map))"
    using index_inv_digest [OF c(2), of ex_idx_105] c(3) e by simp
qed

lemma ex_rebuilt:
  "fastRebuildFromUTXO (Some ex_cb_chain) 105 (ex_idx, ex_db0) = ((ex_idx_105, ex_db_rebuilt), None)"
  "reach ex_idx (ex_idx_105, ex_db_rebuilt) ex_cb_map"
  "GetAccumulatorDigest ex_idx_105 ex_db_rebuilt = Inr (mset_digest (acc_mset ex_cb_map))"
proof -
  let ?us = "[(out_op ex_coinbase 0, 105, 5000000000)]"
  have it: "utxo_iteration ex_cb_chain = (?us, None)" by (simp add: utxo_iteration_def ex_cb_chain_def)
  have ok: "utxos_ok ex_idx ?us" by (simp add: utxos_ok_def utxo_ok_def valid_amount_def is_int64_def)
  have tip: "rebuild_tip ex_cb_chain 105 (BlockHash ex_block)" by (simp add: rebuild_tip_def ex_cb_chain_def)
  have m: "utxo_map ex_idx ?us = ex_cb_map"
    by (simp add: utxo_map_def spec_utxo_def ex_cb_map_def shouldIndexCreateHeight_def)
  obtain db' mh' where c: "fastRebuildFromUTXO (Some ex_cb_chain) 105 (ex_idx, ex_db0) = ((ex_idx_105, db'), None)"
    "index_inv db' ex_cb_map mh' (BlockHash ex_block) 105" "denominator mh' = 1"
    using fastRebuildFromUTXO_ok [OF ex_rebuild_facts(1) it ok tip ex_block_facts(2)] m by auto
  then have e: "ex_db_rebuilt = db'" by (simp add: ex_db_rebuilt_def)
  show 1: "fastRebuildFromUTXO (Some ex_cb_chain) 105 (ex_idx, ex_db0) = ((ex_idx_105, ex_db_rebuilt), None)"
    using c(1) e by simp
  from reach.rebuild [OF ex_reach0 it ok tip ex_block_facts(2) 1] show "reach ex_idx (ex_idx_105, ex_db_rebuilt) ex_cb_map"
    by (simp add: m)
  show "GetAccumulatorDigest ex_idx_105 ex_db_rebuilt = Inr (mset_digest (acc_mset ex_cb_map))"
    using index_inv_digest [OF c(2), of ex_idx_105] c(3) e by simp
qed

section \<open>A template generator\<close>

definition ex_gen :: reap_generator where
  "ex_gen = \<lparr>g_reapIndex = Some (ex_idx, ex_db), g_chainParams = ObtcRegTestParams,
     g_fetchUtxoView = (\<lambda>_. Some ex_view), g_BlockMaxWeight = 4000000\<rparr>"

lemma ex_index_tip: "index_tip (ex_idx, ex_db) = 299"
  using ex_db(2) by (auto simp: index_tip_def index_inv_def snapshot_is_def)

lemma ex_backs: "backs ex_view ObtcRegTestParams regtestExpiryParams 300 ex_map"
proof -
  have "sum_list (map (\<lambda>op. snd (the (ex_map op))) ops) \<le> MaxSatoshi" if "distinct ops" "set ops \<subseteq> dom ex_map" for ops
  proof -
    have "set ops \<subseteq> {ex_op}" using that(2) by (simp add: ex_map_def)
    moreover have "length ops = card (set ops)" using that(1) by (simp add: distinct_card)
    ultimately have "length ops \<le> 1" using card_mono [of "{ex_op}" "set ops"] by simp
    then have "ops = [] \<or> ops = [ex_op]"
      using \<open>set ops \<subseteq> {ex_op}\<close> by (cases ops) (auto simp: Suc_le_eq)
    then show ?thesis by (auto simp: ex_map_def MaxSatoshi_def)
  qed
  moreover have "is_int32 120" by (simp add: is_int32_def)
  ultimately show ?thesis
    using ex_entry_live ex_mature ex_not_null
    by (auto simp: backs_def ex_map_def ex_key ex_entry_def split: if_splits)
qed

lemma ex_gen_facts:
  "GetExpiryParams (g_chainParams ex_gen) = Some regtestExpiryParams" "EnableAtHeight regtestExpiryParams \<le> 300"
  "is_int32 300" "g_reapIndex ex_gen = Some (ex_idx, ex_db)" "fetches_from ex_gen ex_view"
  "backs ex_view (g_chainParams ex_gen) regtestExpiryParams 300 ex_map"
  using ex_backs by (simp_all add: ex_gen_def is_int32_def fetches_from_def)

lemma ex_scripts: "LookupEntry ex_view op = Some e \<Longrightarrow> length (pkScript e) \<le> MaxScriptSize"
  by (auto simp: LookupEntry_def ex_view_def ex_entry_def MaxScriptSize_def split: if_splits)

lemma ex_expired: "ex_map ex_op = Some (264, 100000)" "(264 :: u64) \<le> of_int 300"
  by (simp_all add: ex_map_def word_le_nat_alt)

lemma ex_built: "\<exists>tx fee. maybeBuildREAPTx ex_gen 300 = Inr (Some (tx, fee))"
  by (rule maybeBuildREAPTx_builds [OF ex_gen_facts(1-4) ex_stands_for ex_gen_facts(5,6) _ ex_scripts _ ex_expired])
    (simp_all add: ex_gen_def)

lemma ex_built_accepted:
  "\<exists>tx fee. maybeBuildREAPTx ex_gen 300 = Inr (Some (tx, fee)) \<and> isLikelyReapTx tx
    \<and> CheckTransactionSanity tx = Inr () \<and> \<not> IsCoinBaseTx tx
    \<and> CheckTransactionInputs tx 300 ex_view ObtcRegTestParams = Inr fee"
proof -
  obtain tx fee where b: "maybeBuildREAPTx ex_gen 300 = Inr (Some (tx, fee))" using ex_built by blast
  from maybeBuildREAPTx_Some [OF ex_gen_facts(1-4) ex_stands_for ex_gen_facts(5,6) b] b show ?thesis
    by (auto simp: ex_gen_def)
qed

section \<open>A view without entries and an output before activation\<close>

definition empty_view :: UtxoViewpoint where
  "empty_view = \<lparr>entries = Map.empty, bestHash = 0\<rparr>"

lemma ex_empty_view:
  "view_map ex_idx empty_view = Map.empty" "shouldIndexCreateHeight ex_idx 105"
  "\<exists>view'. connectTransactions ex_block (empty_view, []) = Inr (view', [])"
  "live_txs 105 [ex_coinbase] (empty_view, [])"
  by (simp_all add: view_map_def fun_eq_iff empty_view_def shouldIndexCreateHeight_def connectTransactions_def
      connectTransaction_def split: sum.splits)

definition ex_early :: UtxoEntry where
  "ex_early = \<lparr>amount = 100000, pkScript = [OP_DATA_1], blockHeight = 20, packedFlags = 0\<rparr>"

definition ex_early_view :: UtxoViewpoint where
  "ex_early_view = \<lparr>entries = [ex_op \<mapsto> ex_early], bestHash = 0\<rparr>"

lemma ex_early:
  "is_int32 109" "rules_inactive ObtcRegTestParams 109" "LookupEntry ex_early_view ex_op = Some ex_early"
  "\<not> IsSpent ex_early" "mature ObtcRegTestParams 109 ex_early" "amount ex_early = 100000" "(100000 :: int) \<le> MaxSatoshi"
  by (simp_all add: is_int32_def rules_inactive_def LookupEntry_def ex_early_view_def ex_early_def IsSpent_def
      mature_def IsCoinBase_def tf_defs MaxSatoshi_def)

section \<open>A marked transaction\<close>

definition ex_reap :: MsgTx where
  "ex_reap = takeover 300 ex_op 70000 [OP_1]"

definition ex_reap_block :: Block where
  "ex_reap_block = ex_block\<lparr>Transactions := [ex_coinbase, ex_reap], Height := 300\<rparr>"

definition ex_cand :: ReapPrefixCandidate where
  "ex_cand = \<lparr>cand_OutPoint = ex_op, cand_ExpiryKey = 264, cand_Amount = 100000\<rparr>"

lemma ex_reap:
  "isLikelyReapTx ex_reap" "TxIn ex_reap = [reapTxIn ex_op]" "butlast (TxOut ex_reap) = [\<lparr>Value = 70000, PkScript = [OP_1]\<rparr>]"
  using takeover_marked [OF ex_gen_facts(3), of ex_op 70000 "[OP_1]"] by (simp_all add: ex_reap_def) (simp_all add: takeover_def)

lemma ex_find_reap: "findReapTx ex_reap_block = Some (ex_reap, 1)"
  using ex_reap(1) by (simp add: findReapTx_def ex_reap_block_def)

lemma ex_spends: "spends_entries ex_view (TxIn ex_reap) [ex_entry]"
  using ex_entry_live by (simp add: spends_entries_def live_entry_def ex_reap(2) reapTxIn_def)

lemma ex_cands: "set [ex_cand] = {c \<in> candidates_of ex_map. cand_ExpiryKey c \<le> of_int 300}" "canonical_order [ex_cand]"
proof -
  have "(264 :: u64) \<le> 300" by (simp add: word_le_nat_alt)
  then show "set [ex_cand] = {c \<in> candidates_of ex_map. cand_ExpiryKey c \<le> of_int 300}"
    by (auto simp: candidates_of_def ex_map_def ex_cand_def split: if_splits)
  show "canonical_order [ex_cand]" by (simp add: canonical_order_def)
qed

lemma regtest_tax_simps [simp]:
  "ReapTaxNumerator regtestExpiryParams = 30" "ReapTaxDenominator regtestExpiryParams = 100"
  "ReapDustThresholdSat regtestExpiryParams = 720" "ReapMaxWeight regtestExpiryParams = 400000"
  by (simp_all add: regtestExpiryParams_def)

lemma ex_refund: "refund_of regtestExpiryParams ex_entry = 70000" "amount ex_entry = 100000" "pkScript ex_entry = [OP_1]"
  by (simp_all add: refund_of_def tax_of_def dust_def isReapDustTierAmount_def ex_entry_def)

section \<open>A rebuild that fails\<close>

lemma iteration_error_fails:
  assumes "utxo_iteration c = (us, Some e)"
  shows "\<exists>idx' db' e'. fastRebuildFromUTXO (Some c) height (idx, db) = ((idx', db'), Some e')"
proof -
  have "\<exists>x. populate idx' c db' = Inl x" for idx' db'
    using assms by (auto simp: populate_def bind_r_def split: sum.splits)
  then have "isl (populate idx' c db')" for idx' db' by (metis sum.disc(1))
  then show ?thesis
    by (auto simp: fastRebuildFromUTXO_def Let_def split: sum.splits) (metis prod.exhaust sum.disc(2))+
qed

lemma ex_failing_rebuild:
  "\<exists>idx' db' e. fastRebuildFromUTXO (Some (ex_chain\<lparr>ForEachUTXOWithAmount := Some ([(ex_op, 120, 100000)], Some ErrPanic)\<rparr>))
      299 (ex_idx, ex_db) = ((idx', db'), Some e)"
  by (rule iteration_error_fails) (simp add: utxo_iteration_def)

end
