(* ===== verification/Compress.thy ===== *)
theory Compress
  imports Txscript
begin

text \<open>
  The compact formats of the chain database (\<open>blockchain/compress.go\<close>): variable length
  quantities, compressed amounts, compressed scripts and compressed transaction outputs.

  A function that writes into a target slice and returns the number of bytes is the function to the
  bytes it writes.  Parsing a public key is the work of \<open>btcec.ParsePubKey\<close>, which rests on a
  third-party curve implementation; it is the parameter \<open>parse\<close>, from the serialized key to the
  uncompressed serialization of the point, and \<open>sound_parser\<close> is what the format relies on.  A slice
  beyond the length of its operand panics.
\<close>

unbundle bit_operations_syntax

datatype io_error = ErrIoPanic | ErrDeserialize | ErrIoAssert | ErrCorruption | ErrNotInMainChain | ErrIoDb

section \<open>Variable length quantities\<close>

function serializeSizeVLQ :: "u64 \<Rightarrow> nat" where
  "serializeSizeVLQ n = (if n > 0x7f then Suc (serializeSizeVLQ (drop_bit 7 n - 1)) else 1)"
  by pat_completeness auto

text \<open>The digits of \<open>putVLQ\<close> before it reverses them; all but the first have the high bit set.\<close>

function vlqDigits :: "byte \<Rightarrow> u64 \<Rightarrow> bytes" where
  "vlqDigits highBitMask n =
     (ucast (n AND 0x7f) OR highBitMask) #
     (if n \<le> 0x7f then [] else vlqDigits 0x80 (drop_bit 7 n - 1))"
  by pat_completeness auto

lemma unat_drop_bit_7: "unat (drop_bit 7 (n :: u64)) = unat n div 128"
  by (simp add: drop_bit_eq_div unat_div_distrib)

lemma vlq_step_less: "0x7f < (n :: u64) \<Longrightarrow> unat (drop_bit 7 n - 1) < unat n"
proof -
  assume "0x7f < n"
  then have "127 < unat n" by (simp add: word_less_nat_alt)
  moreover from this have "1 \<le> drop_bit 7 n" by (simp add: word_le_nat_alt unat_drop_bit_7 div_greater_zero_iff Suc_leI)
  then have "unat (drop_bit 7 n - 1) = unat n div 128 - 1" by (simp add: unat_sub unat_drop_bit_7)
  ultimately show ?thesis by simp
qed

termination serializeSizeVLQ
  by (relation "measure unat") (simp_all add: vlq_step_less)

termination vlqDigits
  by (relation "measure (unat \<circ> snd)") (simp_all add: vlq_step_less not_le)

declare serializeSizeVLQ.simps [simp del] vlqDigits.simps [simp del]

definition putVLQ :: "u64 \<Rightarrow> bytes" where
  "putVLQ n = rev (vlqDigits 0 n)"

fun readVLQ :: "u64 \<Rightarrow> nat \<Rightarrow> bytes \<Rightarrow> u64 \<times> nat" where
  "readVLQ n sz [] = (n, sz)"
| "readVLQ n sz (val # vals) =
     (let sz = Suc sz; n = push_bit 7 n OR ucast (val AND 0x7f) in
      if val AND 0x80 \<noteq> 0x80 then (n, sz) else readVLQ (n + 1) sz vals)"

definition deserializeVLQ :: "bytes \<Rightarrow> u64 \<times> nat" where
  "deserializeVLQ serialized = readVLQ 0 0 serialized"

section \<open>Amounts\<close>

text \<open>The loop that strips trailing zeros, at most nine of them.\<close>

function stripZeros :: "u64 \<Rightarrow> u64 \<Rightarrow> u64 \<times> u64" where
  "stripZeros amount exponent =
     (if amount mod 10 = 0 \<and> exponent < 9 then stripZeros (amount div 10) (exponent + 1)
      else (amount, exponent))"
  by pat_completeness auto

termination
proof (relation "measure (\<lambda>(a, e). 9 - unat e)", goal_cases)
  case (2 a e)
  then have "unat e < 9" by (simp add: word_less_nat_alt)
  moreover from this have "unat (e + 1) = unat e + 1"
    by (subst unat_add_lem [THEN iffD1]) auto
  ultimately show ?case by simp
qed simp

declare stripZeros.simps [simp del]

definition compressTxOutAmount :: "u64 \<Rightarrow> u64" where
  "compressTxOutAmount amount =
     (if amount = 0 then 0
      else case stripZeros amount 0 of (amount, exponent) \<Rightarrow>
        if exponent < 9 then
          let lastDigit = amount mod 10; amount = amount div 10
          in 1 + 10 * (9 * amount + lastDigit - 1) + exponent
        else 10 + 10 * (amount - 1))"

definition decompressTxOutAmount :: "u64 \<Rightarrow> u64" where
  "decompressTxOutAmount amount =
     (if amount = 0 then 0
      else
        let amount = amount - 1; exponent = amount mod 10; amount = amount div 10;
            n = (if exponent < 9 then amount div 9 * 10 + (amount mod 9 + 1) else amount + 1)
        in ((\<lambda>n. n * 10) ^^ unat exponent) n)"

section \<open>Scripts\<close>

definition cstPayToPubKeyHash :: u64 where "cstPayToPubKeyHash = 0"
definition cstPayToScriptHash :: u64 where "cstPayToScriptHash = 1"
definition cstPayToPubKeyComp2 :: u64 where "cstPayToPubKeyComp2 = 2"
definition cstPayToPubKeyComp3 :: u64 where "cstPayToPubKeyComp3 = 3"
definition cstPayToPubKeyUncomp4 :: u64 where "cstPayToPubKeyUncomp4 = 4"
definition cstPayToPubKeyUncomp5 :: u64 where "cstPayToPubKeyUncomp5 = 5"
definition numSpecialScripts :: nat where "numSpecialScripts = 6"

lemmas cst_defs = cstPayToPubKeyHash_def cstPayToScriptHash_def cstPayToPubKeyComp2_def cstPayToPubKeyComp3_def
  cstPayToPubKeyUncomp4_def cstPayToPubKeyUncomp5_def numSpecialScripts_def

definition isPubKeyHash :: "bytes \<Rightarrow> bytes option" where
  "isPubKeyHash script =
     (if length script = 25 \<and> script ! 0 = OP_DUP \<and> script ! 1 = OP_HASH160 \<and> script ! 2 = OP_DATA_20
         \<and> script ! 23 = OP_EQUALVERIFY \<and> script ! 24 = OP_CHECKSIG
      then Some (take 20 (drop 3 script)) else None)"

definition isScriptHash :: "bytes \<Rightarrow> bytes option" where
  "isScriptHash script =
     (if length script = 23 \<and> script ! 0 = OP_HASH160 \<and> script ! 1 = OP_DATA_20 \<and> script ! 22 = OP_EQUAL
      then Some (take 20 (drop 2 script)) else None)"

type_synonym key_parser = "bytes \<Rightarrow> bytes option"

definition isPubKey :: "key_parser \<Rightarrow> bytes \<Rightarrow> bytes option" where
  "isPubKey parse script =
     (if length script = 35 \<and> script ! 0 = OP_DATA_33 \<and> script ! 34 = OP_CHECKSIG
         \<and> (script ! 1 = 0x02 \<or> script ! 1 = 0x03) \<and> parse (take 33 (drop 1 script)) \<noteq> None
      then Some (take 33 (drop 1 script))
      else if length script = 67 \<and> script ! 0 = OP_DATA_65 \<and> script ! 66 = OP_CHECKSIG
         \<and> script ! 1 = 0x04 \<and> parse (take 65 (drop 1 script)) \<noteq> None
      then Some (take 65 (drop 1 script))
      else None)"

definition compressedScriptSize :: "key_parser \<Rightarrow> bytes \<Rightarrow> nat" where
  "compressedScriptSize parse pk =
     (if isPubKeyHash pk \<noteq> None then 21
      else if isScriptHash pk \<noteq> None then 21
      else if isPubKey parse pk \<noteq> None then 33
      else serializeSizeVLQ (of_nat (length pk + numSpecialScripts)) + length pk)"

definition decodeCompressedScriptSize :: "bytes \<Rightarrow> int64" where
  "decodeCompressedScriptSize serialized =
     (case deserializeVLQ serialized of (scriptSize, bytesRead) \<Rightarrow>
        if bytesRead = 0 then 0
        else if scriptSize = cstPayToPubKeyHash then 21
        else if scriptSize = cstPayToScriptHash then 21
        else if scriptSize \<in> {cstPayToPubKeyComp2, cstPayToPubKeyComp3, cstPayToPubKeyUncomp4, cstPayToPubKeyUncomp5}
        then 33
        else sint (scriptSize - of_nat numSpecialScripts + of_nat bytesRead))"

definition putCompressedScript :: "key_parser \<Rightarrow> bytes \<Rightarrow> bytes" where
  "putCompressedScript parse pk =
     (case isPubKeyHash pk of Some h \<Rightarrow> ucast cstPayToPubKeyHash # h
      | None \<Rightarrow>
     (case isScriptHash pk of Some h \<Rightarrow> ucast cstPayToScriptHash # h
      | None \<Rightarrow>
     let plain = putVLQ (of_nat (length pk + numSpecialScripts)) @ pk in
     (case isPubKey parse pk of
        Some key \<Rightarrow>
          let pubKeyFormat = key ! 0 in
          if pubKeyFormat \<in> {0x02, 0x03} then pubKeyFormat # take 32 (drop 1 key)
          else if pubKeyFormat = 0x04 then (pubKeyFormat OR (key ! 64 AND 0x01)) # take 32 (drop 1 key)
          else plain
      | None \<Rightarrow> plain)))"

text \<open>\<open>a[i:i+n]\<close>.\<close>

definition slice_r :: "nat \<Rightarrow> nat \<Rightarrow> bytes \<Rightarrow> io_error + bytes" where
  "slice_r i n a = (if i + n \<le> length a then Inr (take n (drop i a)) else Inl ErrIoPanic)"

definition decompressScript :: "key_parser \<Rightarrow> bytes \<Rightarrow> io_error + bytes" where
  "decompressScript parse compressed =
     (if length compressed = 0 then Inr []
      else case deserializeVLQ compressed of (sz, bytesRead) \<Rightarrow>
        if sz = cstPayToPubKeyHash then
          bind_r (slice_r bytesRead 20 compressed) (\<lambda>h.
          Inr ([OP_DUP, OP_HASH160, OP_DATA_20] @ h @ [OP_EQUALVERIFY, OP_CHECKSIG]))
        else if sz = cstPayToScriptHash then
          bind_r (slice_r bytesRead 20 compressed) (\<lambda>h. Inr ([OP_HASH160, OP_DATA_20] @ h @ [OP_EQUAL]))
        else if sz \<in> {cstPayToPubKeyComp2, cstPayToPubKeyComp3} then
          bind_r (slice_r bytesRead 32 compressed) (\<lambda>k. Inr ([OP_DATA_33, ucast sz] @ k @ [OP_CHECKSIG]))
        else if sz \<in> {cstPayToPubKeyUncomp4, cstPayToPubKeyUncomp5} then
          let body = take 32 (drop 1 compressed);
              compressedKey = ucast (sz - 2) # body @ replicate (32 - length body) 0
          in (case parse compressedKey of
                None \<Rightarrow> Inr []
              | Some key \<Rightarrow>
                  Inr ([OP_DATA_65] @ take 65 key @ replicate (65 - length (take 65 key)) 0 @ [OP_CHECKSIG]))
        else
          let scriptSize = sint (sz - of_nat numSpecialScripts) in
          if scriptSize < 0 then Inl ErrIoPanic
          else slice_r bytesRead (nat scriptSize) compressed)"

section \<open>Transaction outputs\<close>

definition compressedTxOutSize :: "key_parser \<Rightarrow> u64 \<Rightarrow> bytes \<Rightarrow> nat" where
  "compressedTxOutSize parse amount pk =
     serializeSizeVLQ (compressTxOutAmount amount) + compressedScriptSize parse pk"

definition putCompressedTxOut :: "key_parser \<Rightarrow> u64 \<Rightarrow> bytes \<Rightarrow> bytes" where
  "putCompressedTxOut parse amount pk =
     putVLQ (compressTxOutAmount amount) @ putCompressedScript parse pk"

text \<open>The amount, the script and the number of bytes read.\<close>

definition decodeCompressedTxOut :: "key_parser \<Rightarrow> bytes \<Rightarrow> io_error + (u64 \<times> bytes \<times> nat)" where
  "decodeCompressedTxOut parse serialized =
     (case deserializeVLQ serialized of (compressedAmount, bytesRead) \<Rightarrow>
        if bytesRead \<ge> length serialized then Inl ErrDeserialize
        else
          let scriptSize = decodeCompressedScriptSize (drop bytesRead serialized) in
          if int (length (drop bytesRead serialized)) < scriptSize then Inl ErrDeserialize
          else if scriptSize < 0 then Inl ErrIoPanic
          else
            let amount = decompressTxOutAmount compressedAmount in
            bind_r (decompressScript parse (take (nat scriptSize) (drop bytesRead serialized))) (\<lambda>script.
            Inr (amount, script, bytesRead + nat scriptSize)))"

section \<open>Round trips\<close>

lemma mask_7: "(0x7f :: 'a::len word) = mask 7"
  by (simp add: mask_eq_exp_minus_1)

lemma bit_0x80: "bit (0x80 :: byte) i \<longleftrightarrow> i = 7"
proof -
  have "(0x80 :: byte) = push_bit 7 1" by simp
  then show ?thesis by (simp only: bit_simps) auto
qed

lemma vlq_digit:
  fixes h :: byte
  assumes "h = 0 \<or> h = 0x80"
  shows "ucast ((ucast (n AND 0x7f) OR h) AND 0x7f) = (n AND 0x7f :: u64)"
    and "(ucast (n AND 0x7f :: u64) OR h) AND 0x80 = h"
proof -
  have "bit h i \<longleftrightarrow> h = 0x80 \<and> i = 7" for i
    using assms by (auto simp: bit_0x80 simp del: bit_numeral_word_iff)
  then show "ucast ((ucast (n AND 0x7f) OR h) AND 0x7f) = (n AND 0x7f :: u64)"
    unfolding mask_7 by (intro bit_word_eqI) (auto simp: bit_simps)
  show "(ucast (n AND 0x7f :: u64) OR h) AND 0x80 = h"
    unfolding mask_7 using assms
    by (intro bit_word_eqI) (auto simp: bit_simps bit_0x80 simp del: bit_numeral_word_iff)
qed

lemma vlq_join: "push_bit 7 (drop_bit 7 n) OR (n AND 0x7f) = (n :: u64)"
  unfolding mask_7 by (intro bit_word_eqI) (auto simp: bit_simps)

lemma vlq_small: "n \<le> 0x7f \<Longrightarrow> n AND 0x7f = (n :: u64)"
proof -
  assume "n \<le> 0x7f"
  then have "unat n < 2 ^ 7" by (simp add: word_le_nat_alt)
  then have "take_bit 7 n = n"
    by (simp add: word_unat_eq_iff unsigned_take_bit_eq take_bit_nat_eq_self)
  then show ?thesis by (simp add: mask_7 take_bit_eq_mask)
qed

lemma vlq_last:
  assumes "n \<le> 0x7f"
  shows "vlqDigits h n = [ucast (n AND 0x7f) OR h]" and "serializeSizeVLQ n = 1"
  using assms by (simp_all add: vlqDigits.simps [of h n] serializeSizeVLQ.simps [of n] leD)

lemma vlq_more:
  assumes "\<not> n \<le> 0x7f"
  shows "vlqDigits h n = (ucast (n AND 0x7f) OR h) # vlqDigits 0x80 (drop_bit 7 n - 1)"
    and "serializeSizeVLQ n = Suc (serializeSizeVLQ (drop_bit 7 n - 1))"
proof -
  show "vlqDigits h n = (ucast (n AND 0x7f) OR h) # vlqDigits 0x80 (drop_bit 7 n - 1)"
    using assms by (simp only: vlqDigits.simps [of h n] if_False)
  have "0x7f < n" using assms by (simp only: not_le)
  then show "serializeSizeVLQ n = Suc (serializeSizeVLQ (drop_bit 7 n - 1))"
    by (simp only: serializeSizeVLQ.simps [of n] if_True)
qed

lemma length_vlqDigits: "length (vlqDigits h n) = serializeSizeVLQ n"
proof (induction n arbitrary: h rule: serializeSizeVLQ.induct)
  case (1 n)
  then show ?case
    by (cases "n \<le> 0x7f") (simp_all add: vlq_last vlq_more)
qed

lemma length_putVLQ [simp]: "length (putVLQ n) = serializeSizeVLQ n"
  by (simp add: putVLQ_def length_vlqDigits)

lemma readVLQ_digit:
  assumes "h = 0 \<or> h = 0x80"
  shows "readVLQ (drop_bit 7 n) sz ((ucast (n AND 0x7f) OR h) # rest) =
    (if h = 0 then (n, Suc sz) else readVLQ (n + 1) (Suc sz) rest)"
  using assms by (auto simp: Let_def vlq_digit vlq_join)

lemma drop_bit_small: "n \<le> 0x7f \<Longrightarrow> drop_bit 7 (n :: u64) = 0"
  by (simp add: word_unat_eq_iff unat_drop_bit_7 word_le_nat_alt del: drop_bit_eq_div)

lemma readVLQ_vlqDigits:
  assumes "h = 0 \<or> h = 0x80"
  shows "readVLQ 0 0 (rev (vlqDigits h n) @ rest) =
    (if h = 0 then (n, length (vlqDigits h n)) else readVLQ (n + 1) (length (vlqDigits h n)) rest)"
  using assms
proof (induction n arbitrary: h rest rule: serializeSizeVLQ.induct)
  case (1 n)
  show ?case
  proof (cases "n \<le> 0x7f")
    case True
    then show ?thesis
      using readVLQ_digit [OF 1(2), of n 0 rest] drop_bit_small [OF True]
      by (simp add: vlq_last del: readVLQ.simps)
  next
    case False
    let ?m = "drop_bit 7 n - 1"
    have "readVLQ 0 0 (rev (vlqDigits 0x80 ?m) @ (ucast (n AND 0x7f) OR h) # rest) =
        readVLQ (?m + 1) (length (vlqDigits 0x80 ?m)) ((ucast (n AND 0x7f) OR h) # rest)"
      using "1.IH" False by (simp add: not_le del: readVLQ.simps)
    also have "\<dots> = (if h = 0 then (n, Suc (length (vlqDigits 0x80 ?m)))
        else readVLQ (n + 1) (Suc (length (vlqDigits 0x80 ?m))) rest)"
      using readVLQ_digit [OF 1(2), of n _ rest] by (simp del: readVLQ.simps)
    finally show ?thesis using False by (simp add: vlq_more del: readVLQ.simps)
  qed
qed

theorem deserializeVLQ_putVLQ [simp]:
  "deserializeVLQ (putVLQ n @ rest) = (n, length (putVLQ n))"
  using readVLQ_vlqDigits [of 0 n rest] by (simp add: deserializeVLQ_def putVLQ_def)

lemma serializeSizeVLQ_pos: "0 < serializeSizeVLQ n"
  by (subst serializeSizeVLQ.simps) simp

text \<open>Amounts.\<close>

lemma unat_of_nat_u64: "x < 2 ^ 64 \<Longrightarrow> unat (of_nat x :: u64) = x"
  by (simp add: unat_of_nat take_bit_nat_eq_self)

lemma word_of_nat_div_mod:
  assumes "x < 2 ^ 64" and "k < 2 ^ 64"
  shows "(of_nat x :: u64) div of_nat k = of_nat (x div k)" and "(of_nat x :: u64) mod of_nat k = of_nat (x mod k)"
proof -
  have "x div k < 2 ^ 64" using assms(1) by (meson div_le_dividend le_less_trans)
  moreover have "x mod k < 2 ^ 64" using assms(1) by (meson mod_less_eq_dividend le_less_trans)
  ultimately show "(of_nat x :: u64) div of_nat k = of_nat (x div k)"
      "(of_nat x :: u64) mod of_nat k = of_nat (x mod k)"
    using assms by (simp_all only: word_unat_eq_iff unat_div_distrib unat_mod_distrib unat_of_nat_u64)
qed

lemma stripZeros_spec:
  assumes "stripZeros a e = (b, f)" and "unat e \<le> 9" and "a \<noteq> 0"
  shows "unat e \<le> unat f \<and> unat f \<le> 9 \<and> unat a = unat b * 10 ^ (unat f - unat e) \<and> b \<noteq> 0
    \<and> (unat b mod 10 \<noteq> 0 \<or> unat f = 9)"
  using assms
proof (induction a e rule: stripZeros.induct)
  case (1 a e)
  show ?case
  proof (cases "a mod 10 = 0 \<and> e < 9")
    case True
    then have e: "unat (e + 1) = unat e + 1" "unat e < 9"
      by (auto simp: word_less_nat_alt unat_word_ariths)
    have a: "unat a mod 10 = 0"
      using arg_cong [OF conjunct1 [OF True], of unat] by (simp add: unat_mod_distrib)
    have d: "unat (a div 10) = unat a div 10" by (simp add: unat_div_distrib)
    have nz: "a div 10 \<noteq> 0" using a 1(4) by (auto simp: word_unat_eq_iff d)
    have "stripZeros (a div 10) (e + 1) = (b, f)" using 1(2) True by (subst (asm) stripZeros.simps) simp
    from "1.IH" [OF True this] e nz
    have IH: "unat e + 1 \<le> unat f" "unat f \<le> 9" "unat a div 10 = unat b * 10 ^ (unat f - (unat e + 1))" "b \<noteq> 0"
      "unat b mod 10 \<noteq> 0 \<or> unat f = 9"
      by (simp_all add: d)
    have "unat a = 10 * (unat a div 10)" using a by auto
    also have "\<dots> = unat b * 10 ^ Suc (unat f - (unat e + 1))" using IH(3) by simp
    also have "Suc (unat f - (unat e + 1)) = unat f - unat e" using IH(1) by simp
    finally show ?thesis using IH by simp
  next
    case False
    then have "(b, f) = (a, e)" using 1(2) by (subst (asm) stripZeros.simps) (auto split: if_splits)
    moreover have "unat a mod 10 \<noteq> 0 \<or> \<not> e < 9"
      using False by (auto simp: word_unat_eq_iff unat_mod_distrib)
    ultimately show ?thesis using 1(3,4) by (auto simp: word_less_nat_alt)
  qed
qed

lemma funpow_times_10: "((\<lambda>n :: u64. n * 10) ^^ k) n = n * 10 ^ k"
  by (induction k) simp_all

text \<open>What the decompressor does with a code below the word size.\<close>

lemma decompress_of_nat:
  assumes "0 < X" and "X < 2 ^ 64"
  shows "decompressTxOutAmount (of_nat X) =
    of_nat (let e = (X - 1) mod 10; m = (X - 1) div 10
            in (if e < 9 then (m div 9 * 10 + (m mod 9 + 1)) else m + 1) * 10 ^ e)"
proof -
  have nz: "(of_nat X :: u64) \<noteq> 0" using assms by (simp add: word_unat_eq_iff unat_of_nat_u64)
  have m1: "(of_nat X :: u64) - 1 = of_nat (X - 1)" using assms(1) by (simp add: of_nat_diff)
  let ?e = "(X - 1) mod 10" and ?m = "(X - 1) div 10"
  have b: "?m < 2 ^ 64" "X - 1 < 2 ^ 64" "?e < 2 ^ 64" using assms by auto
  have e: "unat (of_nat ?e :: u64) = ?e" by (rule unat_of_nat_u64 [OF b(3)])
  have d: "(of_nat (X - 1) :: u64) mod 10 = of_nat ?e" "(of_nat (X - 1) :: u64) div 10 = of_nat ?m"
    using word_of_nat_div_mod [OF b(2), of 10] by simp_all
  have d9: "(of_nat ?m :: u64) mod 9 = of_nat (?m mod 9)" "(of_nat ?m :: u64) div 9 = of_nat (?m div 9)"
    using word_of_nat_div_mod [OF b(1), of 9] by simp_all
  have lt: "(of_nat ?e :: u64) < 9 \<longleftrightarrow> ?e < 9" by (simp only: word_less_nat_alt e) simp
  show ?thesis
    unfolding decompressTxOutAmount_def Let_def
    by (simp only: nz if_False m1 d lt d9 e funpow_times_10) (simp add: algebra_simps)
qed

lemma exp_64: "(2 :: nat) ^ 64 = 16 * 2 ^ 60" "(1000 :: nat) < 2 ^ 60"
  by simp_all

lemma exp_40: "(2 :: nat) ^ 40 = 256 * 2 ^ 32" "(1000 :: nat) < 2 ^ 32"
  by simp_all

theorem decompress_compressTxOutAmount:
  assumes "unat a < 2 ^ 60"
  shows "decompressTxOutAmount (compressTxOutAmount a) = a"
proof (cases "a = 0")
  case True
  then show ?thesis by (simp add: compressTxOutAmount_def decompressTxOutAmount_def)
next
  case False
  obtain b f where s: "stripZeros a 0 = (b, f)" by fastforce
  from stripZeros_spec [OF s _ False]
  have f9: "unat f \<le> 9" and ab: "unat a = unat b * 10 ^ unat f" and b0: "b \<noteq> 0"
    and dig: "unat b mod 10 \<noteq> 0 \<or> unat f = 9" by auto
  let ?B = "unat b" and ?F = "unat f"
  have B0: "0 < ?B" using b0 by (simp add: word_unat_eq_iff)
  have "?B * 1 \<le> ?B * 10 ^ ?F" by (intro mult_le_mono2) simp
  then have B: "?B < 2 ^ 60" using assms ab by linarith
  have a: "a = of_nat (?B * 10 ^ ?F)" by (simp add: ab [symmetric])
  show ?thesis
  proof (cases "?F < 9")
    case True
    let ?X = "1 + 10 * (9 * (?B div 10) + ?B mod 10 - 1) + ?F"
    have r: "0 < ?B mod 10" using dig True by simp
    have w: "b mod 10 = of_nat (?B mod 10)" "b div 10 = of_nat (?B div 10)"
      using word_of_nat_div_mod [of ?B 10] unsigned_less [of b, where ?'a = nat] by simp_all
    have c: "compressTxOutAmount a = of_nat ?X"
      using False s True r by (simp add: compressTxOutAmount_def w word_less_nat_alt of_nat_diff Suc_leI)
    have "?X < 2 ^ 64"
      using B True div_mult_mod_eq [of ?B 10] mod_less_divisor [of 10 ?B] exp_64 by linarith
    moreover have m: "(?X - 1) mod 10 = ?F" "(?X - 1) div 10 = 9 * (?B div 10) + ?B mod 10 - 1"
      using True by simp_all
    have "9 * (?B div 10) + ?B mod 10 - 1 = 9 * (?B div 10) + (?B mod 10 - 1)" using r by simp
    then have "(9 * (?B div 10) + ?B mod 10 - 1) mod 9 = ?B mod 10 - 1"
      "(9 * (?B div 10) + ?B mod 10 - 1) div 9 = ?B div 10"
      using mod_less_divisor [of 10 ?B] by simp_all
    then have "(9 * (?B div 10) + ?B mod 10 - 1) div 9 * 10 + ((9 * (?B div 10) + ?B mod 10 - 1) mod 9 + 1) = ?B"
      using r div_mult_mod_eq [of ?B 10] by simp
    ultimately have "decompressTxOutAmount (of_nat ?X) = of_nat (?B * 10 ^ ?F)"
      using decompress_of_nat [of ?X] True by (simp only: m Let_def) simp
    then show ?thesis by (simp only: c a [symmetric])
  next
    case F: False
    then have F9: "?F = 9" using f9 by simp
    let ?X = "10 + 10 * (?B - 1)"
    have c: "compressTxOutAmount a = of_nat ?X"
      using False s F B0 by (simp add: compressTxOutAmount_def word_less_nat_alt of_nat_diff Suc_leI)
    have "?X < 2 ^ 64" using B exp_64 by linarith
    moreover have "(?X - 1) mod 10 = 9" "(?X - 1) div 10 = ?B - 1" by (simp_all add: mod_simps)
    ultimately have "decompressTxOutAmount (of_nat ?X) = of_nat (?B * 10 ^ ?F)"
      using decompress_of_nat [of ?X] B0 F9 by (simp add: Let_def)
    then show ?thesis by (simp only: c a [symmetric])
  qed
qed

text \<open>What the format needs of \<open>ParsePubKey\<close>: a key that parses in its uncompressed form is found
  again from its first coordinate and the parity of the second.\<close>

definition sound_parser :: "key_parser \<Rightarrow> bool" where
  "sound_parser parse \<longleftrightarrow> (\<forall>k. length k = 65 \<and> k ! 0 = 0x04 \<and> parse k \<noteq> None \<longrightarrow>
     parse ((0x02 OR (k ! 64 AND 0x01)) # take 32 (drop 1 k)) = Some k)"

lemma drop_last_2: "length xs = Suc (Suc n) \<Longrightarrow> drop n xs = [xs ! n, xs ! Suc n]"
  by (metis Cons_nth_drop_Suc drop_eq_Nil le_refl lessI less_SucI)

lemma take_nths:
  "1 \<le> length xs \<Longrightarrow> take 1 xs = [xs ! 0]"
  "2 \<le> length xs \<Longrightarrow> take 2 xs = [xs ! 0, xs ! 1]"
  "3 \<le> length xs \<Longrightarrow> take 3 xs = [xs ! 0, xs ! 1, xs ! 2]"
  by (simp_all add: list_eq_iff_nth_eq less_Suc_eq numeral_2_eq_2 numeral_3_eq_3)

lemma split_mid:
  assumes "length xs = a + n + c"
  shows "xs = take a xs @ take n (drop a xs) @ drop (a + n) xs"
  by (metis append_take_drop_id drop_drop add.commute)

lemma isPubKeyHash_Some:
  assumes "isPubKeyHash pk = Some h"
  shows "length h = 20" and "pk = [OP_DUP, OP_HASH160, OP_DATA_20] @ h @ [OP_EQUALVERIFY, OP_CHECKSIG]"
proof -
  have p: "length pk = 25" "h = take 20 (drop 3 pk)" "pk ! 0 = OP_DUP" "pk ! 1 = OP_HASH160" "pk ! 2 = OP_DATA_20"
    "pk ! 23 = OP_EQUALVERIFY" "pk ! 24 = OP_CHECKSIG"
    using assms by (auto simp: isPubKeyHash_def split: if_splits)
  then show "length h = 20" by simp
  have "drop 23 pk = [pk ! 23, pk ! 24]" using drop_last_2 [of pk 23] p(1) by simp
  then show "pk = [OP_DUP, OP_HASH160, OP_DATA_20] @ h @ [OP_EQUALVERIFY, OP_CHECKSIG]"
    using split_mid [of pk 3 20 2] take_nths(3) [of pk] p by simp
qed

lemma isScriptHash_Some:
  assumes "isScriptHash pk = Some h"
  shows "length h = 20" and "pk = [OP_HASH160, OP_DATA_20] @ h @ [OP_EQUAL]"
proof -
  have p: "length pk = 23" "h = take 20 (drop 2 pk)" "pk ! 0 = OP_HASH160" "pk ! 1 = OP_DATA_20" "pk ! 22 = OP_EQUAL"
    using assms by (auto simp: isScriptHash_def split: if_splits)
  then show "length h = 20" by simp
  have "drop 22 pk = [pk ! 22]" using Cons_nth_drop_Suc [of 22 pk] p(1) by simp
  then show "pk = [OP_HASH160, OP_DATA_20] @ h @ [OP_EQUAL]"
    using split_mid [of pk 2 20 1] take_nths(2) [of pk] p by simp
qed

lemma isPubKey_Some:
  assumes "isPubKey parse pk = Some k"
  shows "length k = 33 \<and> k ! 0 \<in> {0x02, 0x03} \<and> pk = OP_DATA_33 # k @ [OP_CHECKSIG]
    \<or> length k = 65 \<and> k ! 0 = 0x04 \<and> parse k \<noteq> None \<and> pk = OP_DATA_65 # k @ [OP_CHECKSIG]"
proof -
  consider "length pk = 35" "pk ! 0 = OP_DATA_33" "pk ! 34 = OP_CHECKSIG" "pk ! 1 \<in> {0x02, 0x03}" "k = take 33 (drop 1 pk)"
    | "length pk = 67" "pk ! 0 = OP_DATA_65" "pk ! 66 = OP_CHECKSIG" "pk ! 1 = 0x04" "k = take 65 (drop 1 pk)" "parse k \<noteq> None"
    using assms by (auto simp: isPubKey_def split: if_splits)
  then show ?thesis
  proof cases
    case 1
    then have "drop 34 pk = [pk ! 34]" "k ! 0 = pk ! 1" using Cons_nth_drop_Suc [of 34 pk] by simp_all
    then show ?thesis using split_mid [of pk 1 33 1] take_nths(1) [of pk] 1 by simp
  next
    case 2
    then have "drop 66 pk = [pk ! 66]" "k ! 0 = pk ! 1" using Cons_nth_drop_Suc [of 66 pk] by simp_all
    then show ?thesis using split_mid [of pk 1 65 1] take_nths(1) [of pk] 2 by simp
  qed
qed

lemma deserializeVLQ_special:
  "deserializeVLQ (0 # r) = (0, 1)" "deserializeVLQ (1 # r) = (1, 1)" "deserializeVLQ (2 # r) = (2, 1)"
  "deserializeVLQ (3 # r) = (3, 1)" "deserializeVLQ (4 # r) = (4, 1)" "deserializeVLQ (5 # r) = (5, 1)"
  by (simp_all add: deserializeVLQ_def Let_def)

lemma byte_parity: "(b :: byte) AND 1 = 0 \<or> b AND 1 = 1"
  by (simp add: and_one_eq mod2_eq_if)

lemma plain_size:
  assumes "length (pk :: bytes) < 2 ^ 32"
  defines "n \<equiv> of_nat (length pk + numSpecialScripts) :: u64"
  shows "n \<notin> {0, 1, 2, 3, 4, 5}" and "n - of_nat numSpecialScripts = of_nat (length pk)"
    and "serializeSizeVLQ n + length pk < 2 ^ 40"
proof -
  have u: "unat n = length pk + 6"
    unfolding n_def numSpecialScripts_def by (rule unat_of_nat_u64) (use assms(1) in simp)
  then show "n \<notin> {0, 1, 2, 3, 4, 5}" by (auto simp: word_unat_eq_iff)
  show "n - of_nat numSpecialScripts = of_nat (length pk)" by (simp add: n_def)
  have "serializeSizeVLQ m \<le> Suc (unat m)" for m :: u64
  proof (induction m rule: serializeSizeVLQ.induct)
    case (1 m)
    show ?case
    proof (cases "m \<le> 0x7f")
      case True
      then show ?thesis by (simp add: vlq_last)
    next
      case False
      then have "serializeSizeVLQ (drop_bit 7 m - 1) \<le> Suc (unat (drop_bit 7 m - 1))"
        using 1 by (simp add: not_le)
      then show ?thesis using False vlq_step_less [of m] by (simp add: vlq_more not_le)
    qed
  qed
  from this [of n] show "serializeSizeVLQ n + length pk < 2 ^ 40"
    using u assms(1) exp_40 by linarith
qed

lemma sint_of_nat_u64: "x < 2 ^ 63 \<Longrightarrow> sint (of_nat x :: u64) = int x"
  by (simp add: signed_of_nat signed_take_bit_int_eq_self)

theorem decompress_putCompressedScript:
  assumes "sound_parser parse" and "length pk < 2 ^ 32"
  shows "decompressScript parse (putCompressedScript parse pk) = Inr pk
    \<and> decodeCompressedScriptSize (putCompressedScript parse pk @ rest) = int (length (putCompressedScript parse pk))
    \<and> length (putCompressedScript parse pk) = compressedScriptSize parse pk"
proof -
  consider (pkh) h where "isPubKeyHash pk = Some h"
    | (sh) h where "isPubKeyHash pk = None" "isScriptHash pk = Some h"
    | (pub) k where "isPubKeyHash pk = None" "isScriptHash pk = None" "isPubKey parse pk = Some k"
    | (plain) "isPubKeyHash pk = None" "isScriptHash pk = None" "isPubKey parse pk = None"
    by (cases "isPubKeyHash pk"; cases "isScriptHash pk"; cases "isPubKey parse pk") auto
  then show ?thesis
  proof cases
    case pkh
    note p = isPubKeyHash_Some [OF pkh]
    show ?thesis
      using pkh p(1)
      by (simp add: putCompressedScript_def decompressScript_def compressedScriptSize_def decodeCompressedScriptSize_def
          deserializeVLQ_special cst_defs slice_r_def) (simp add: p(2))
  next
    case sh
    note p = isScriptHash_Some [OF sh(2)]
    show ?thesis
      using sh p(1)
      by (simp add: putCompressedScript_def decompressScript_def compressedScriptSize_def decodeCompressedScriptSize_def
          deserializeVLQ_special cst_defs slice_r_def) (simp add: p(2))
  next
    case pub
    from isPubKey_Some [OF pub(3)] show ?thesis
    proof
      assume k: "length k = 33 \<and> k ! 0 \<in> {0x02, 0x03} \<and> pk = OP_DATA_33 # k @ [OP_CHECKSIG]"
      obtain f body where "k = f # body" using k by (cases k) auto
      then show ?thesis
        using k pub
        by (auto simp: putCompressedScript_def decompressScript_def compressedScriptSize_def decodeCompressedScriptSize_def
            deserializeVLQ_special cst_defs slice_r_def Let_def)
    next
      assume k: "length k = 65 \<and> k ! 0 = 0x04 \<and> parse k \<noteq> None \<and> pk = OP_DATA_65 # k @ [OP_CHECKSIG]"
      then have "parse ((0x02 OR (k ! 64 AND 0x01)) # take 32 (drop 1 k)) = Some k"
        using assms(1) by (auto simp: sound_parser_def)
      then show ?thesis
        using k pub byte_parity [of "k ! 64"]
        by (auto simp: putCompressedScript_def decompressScript_def compressedScriptSize_def decodeCompressedScriptSize_def
            deserializeVLQ_special cst_defs Let_def)
    qed
  next
    case plain
    define n :: u64 where "n = of_nat (length pk + numSpecialScripts)"
    note z = plain_size [OF assms(2), folded n_def]
    have "length pk < 2 ^ 63" "serializeSizeVLQ n + length pk < 2 ^ 63" using assms(2) z(3) by simp_all
    then have s: "sint (of_nat (length pk) :: u64) = int (length pk)"
      "sint (of_nat (length pk) + of_nat (serializeSizeVLQ n) :: u64) = int (length pk + serializeSizeVLQ n)"
      using sint_of_nat_u64 [of "length pk"] sint_of_nat_u64 [of "length pk + serializeSizeVLQ n"] by (simp_all add: add.commute)
    have c: "putCompressedScript parse pk = putVLQ n @ pk"
      using plain by (simp add: putCompressedScript_def n_def)
    have d: "deserializeVLQ (putVLQ n @ pk @ rest) = (n, serializeSizeVLQ n)" for rest by simp
    show ?thesis
      using plain z(1) serializeSizeVLQ_pos [of n] d [of "[]"] d [of rest]
      unfolding c decompressScript_def compressedScriptSize_def decodeCompressedScriptSize_def n_def [symmetric]
      by (simp add: cst_defs(1-6) z(2) s slice_r_def)
  qed
qed

theorem decode_putCompressedTxOut:
  assumes "sound_parser parse" and "length pk < 2 ^ 32" and "unat a < 2 ^ 60"
  shows "decodeCompressedTxOut parse (putCompressedTxOut parse a pk @ rest) =
    Inr (a, pk, length (putCompressedTxOut parse a pk))"
proof -
  note s = decompress_putCompressedScript [OF assms(1,2), of rest]
  have "compressedScriptSize parse pk \<noteq> 0"
    using serializeSizeVLQ_pos by (simp add: compressedScriptSize_def)
  then show ?thesis
    using s decompress_compressTxOutAmount [OF assms(3)]
    by (simp add: decodeCompressedTxOut_def putCompressedTxOut_def Let_def)
qed

lemma length_putCompressedTxOut:
  assumes "sound_parser parse" and "length pk < 2 ^ 32"
  shows "length (putCompressedTxOut parse a pk) = compressedTxOutSize parse a pk"
  using decompress_putCompressedScript [OF assms] by (simp add: putCompressedTxOut_def compressedTxOutSize_def)

end
