(* ===== verification/Chain_Io.thy ===== *)
theory Chain_Io
  imports Utxo_View Compress
begin

text \<open>
  The chain database (\<open>blockchain/chainio.go\<close>): the spend journal, the UTXO set, the index of the
  main chain by hash and height, and the best chain state, with the bytes they are stored as.

  A Go map is iterated in any order, so \<open>dbPutUtxoView\<close> takes the order as a list of the outpoints
  of the view.  The buckets exist from the creation of the chain state on.
\<close>

unbundle bit_operations_syntax

record chain_db =
  spendJournal :: bucket
  utxoSet :: bucket
  hashIndex :: bucket
  heightIndex :: bucket
  chainMeta :: bucket

definition put_r :: "bytes \<Rightarrow> bytes \<Rightarrow> bucket \<Rightarrow> io_error + bucket" where
  "put_r k v b = (case bucket_Put k v b of Inl _ \<Rightarrow> Inl ErrIoDb | Inr b \<Rightarrow> Inr b)"

section \<open>Spent outputs and the spend journal\<close>

definition spentTxOutHeaderCode :: "SpentTxOut \<Rightarrow> u64" where
  "spentTxOutHeaderCode stxo =
     (let headerCode = push_bit 1 (of_int (st_Height stxo)) in
      if st_IsCoinBase stxo then headerCode OR 0x01 else headerCode)"

definition spentTxOutSerializeSize :: "key_parser \<Rightarrow> SpentTxOut \<Rightarrow> nat" where
  "spentTxOutSerializeSize parse stxo =
     serializeSizeVLQ (spentTxOutHeaderCode stxo) + (if st_Height stxo > 0 then serializeSizeVLQ 0 else 0)
     + compressedTxOutSize parse (of_int (st_Amount stxo)) (st_PkScript stxo)"

definition putSpentTxOut :: "key_parser \<Rightarrow> SpentTxOut \<Rightarrow> bytes" where
  "putSpentTxOut parse stxo =
     putVLQ (spentTxOutHeaderCode stxo) @ (if st_Height stxo > 0 then putVLQ 0 else [])
     @ putCompressedTxOut parse (of_int (st_Amount stxo)) (st_PkScript stxo)"

text \<open>The output and the number of bytes read.\<close>

definition decodeSpentTxOut :: "key_parser \<Rightarrow> bytes \<Rightarrow> io_error + (SpentTxOut \<times> nat)" where
  "decodeSpentTxOut parse serialized =
     (if length serialized = 0 then Inl ErrDeserialize
      else case deserializeVLQ serialized of (code, offset) \<Rightarrow>
        if offset \<ge> length serialized then Inl ErrDeserialize
        else
          let isCoinBase = (code AND 0x01 \<noteq> 0); height = wrap32 (uint (drop_bit 1 code));
              offset = (if height > 0 then offset + snd (deserializeVLQ (drop offset serialized)) else offset)
          in if height > 0 \<and> offset \<ge> length serialized then Inl ErrDeserialize
             else bind_r (decodeCompressedTxOut parse (drop offset serialized)) (\<lambda>(amount, pk, bytesRead).
               Inr (\<lparr>st_Amount = sint amount, st_PkScript = pk, st_Height = height, st_IsCoinBase = isCoinBase\<rparr>,
                    offset + bytesRead)))"

text \<open>The outputs of the inputs of the transactions, the last one first.\<close>

fun decodeStxos :: "key_parser \<Rightarrow> nat \<Rightarrow> bytes \<Rightarrow> io_error + SpentTxOut list" where
  "decodeStxos parse 0 serialized = Inr []"
| "decodeStxos parse (Suc n) serialized =
     bind_r (decodeSpentTxOut parse serialized) (\<lambda>(stxo, k).
     bind_r (decodeStxos parse n (drop k serialized)) (\<lambda>stxos. Inr (stxo # stxos)))"

definition deserializeSpendJournalEntry :: "key_parser \<Rightarrow> bytes \<Rightarrow> MsgTx list \<Rightarrow> io_error + SpentTxOut list" where
  "deserializeSpendJournalEntry parse serialized txns =
     (let numStxos = sum_list (map (\<lambda>tx. length (TxIn tx)) txns) in
      if length serialized = 0 then (if numStxos \<noteq> 0 then Inl ErrIoAssert else Inr [])
      else bind_r (decodeStxos parse numStxos serialized) (\<lambda>stxos. Inr (rev stxos)))"

definition serializeSpendJournalEntry :: "key_parser \<Rightarrow> SpentTxOut list \<Rightarrow> bytes" where
  "serializeSpendJournalEntry parse stxos =
     (if length stxos = 0 then [] else concat (map (putSpentTxOut parse) (rev stxos)))"

definition dbFetchSpendJournalEntry :: "key_parser \<Rightarrow> Block \<Rightarrow> chain_db \<Rightarrow> io_error + SpentTxOut list" where
  "dbFetchSpendJournalEntry parse block db =
     (let serialized = (case bucket_Get (hash_bytes (BlockHash block)) (spendJournal db) of None \<Rightarrow> [] | Some v \<Rightarrow> v) in
      if Transactions block = [] then Inl ErrIoPanic
      else case deserializeSpendJournalEntry parse serialized (tl (Transactions block)) of
        Inl e \<Rightarrow> Inl (if e = ErrDeserialize then ErrCorruption else e)
      | Inr stxos \<Rightarrow> Inr stxos)"

definition dbPutSpendJournalEntry :: "key_parser \<Rightarrow> hash \<Rightarrow> SpentTxOut list \<Rightarrow> chain_db \<Rightarrow> io_error + chain_db" where
  "dbPutSpendJournalEntry parse blockHash stxos db =
     bind_r (put_r (hash_bytes blockHash) (serializeSpendJournalEntry parse stxos) (spendJournal db)) (\<lambda>b.
     Inr (db\<lparr>spendJournal := b\<rparr>))"

definition dbRemoveSpendJournalEntry :: "hash \<Rightarrow> chain_db \<Rightarrow> chain_db" where
  "dbRemoveSpendJournalEntry blockHash db =
     db\<lparr>spendJournal := bucket_Delete (hash_bytes blockHash) (spendJournal db)\<rparr>"

definition dbPruneSpendJournalEntry :: "hash list \<Rightarrow> chain_db \<Rightarrow> chain_db" where
  "dbPruneSpendJournalEntry blockHashes db =
     db\<lparr>spendJournal := fold (\<lambda>h. bucket_Delete (hash_bytes h)) blockHashes (spendJournal db)\<rparr>"

section \<open>The UTXO set\<close>

definition outpointKey :: "OutPoint \<Rightarrow> bytes" where
  "outpointKey outpoint = hash_bytes (Hash outpoint) @ putVLQ (ucast (Index outpoint))"

definition utxoEntryHeaderCode :: "UtxoEntry \<Rightarrow> io_error + u64" where
  "utxoEntryHeaderCode entry =
     (if IsSpent entry then Inl ErrIoAssert
      else
        let headerCode = push_bit 1 (of_int (blockHeight entry)) in
        Inr (if IsCoinBase entry then headerCode OR 0x01 else headerCode))"

definition serializeUtxoEntry :: "key_parser \<Rightarrow> UtxoEntry \<Rightarrow> io_error + bytes" where
  "serializeUtxoEntry parse entry =
     (if IsSpent entry then Inr []
      else bind_r (utxoEntryHeaderCode entry) (\<lambda>headerCode.
        Inr (putVLQ headerCode @ putCompressedTxOut parse (of_int (amount entry)) (pkScript entry))))"

definition deserializeUtxoEntry :: "key_parser \<Rightarrow> bytes \<Rightarrow> io_error + UtxoEntry" where
  "deserializeUtxoEntry parse serialized =
     (case deserializeVLQ serialized of (code, offset) \<Rightarrow>
        if offset \<ge> length serialized then Inl ErrDeserialize
        else
          let isCoinBase = (code AND 0x01 \<noteq> 0); height = wrap32 (uint (drop_bit 1 code)) in
          bind_r (decodeCompressedTxOut parse (drop offset serialized)) (\<lambda>(amount, pk, _).
          Inr \<lparr>amount = sint amount, pkScript = pk, blockHeight = height,
               packedFlags = (if isCoinBase then tfCoinBase else 0)\<rparr>))"

definition dbFetchUtxoEntry :: "key_parser \<Rightarrow> OutPoint \<Rightarrow> chain_db \<Rightarrow> io_error + UtxoEntry option" where
  "dbFetchUtxoEntry parse outpoint db =
     (case bucket_Get (outpointKey outpoint) (utxoSet db) of
        None \<Rightarrow> Inr None
      | Some serializedUtxo \<Rightarrow>
          if length serializedUtxo = 0 then Inl ErrIoAssert
          else case deserializeUtxoEntry parse serializedUtxo of
            Inl e \<Rightarrow> Inl (if e = ErrDeserialize then ErrCorruption else e)
          | Inr entry \<Rightarrow> Inr (Some entry))"

definition dbDeleteUtxoEntry :: "OutPoint \<Rightarrow> chain_db \<Rightarrow> chain_db" where
  "dbDeleteUtxoEntry outpoint db = db\<lparr>utxoSet := bucket_Delete (outpointKey outpoint) (utxoSet db)\<rparr>"

definition dbPutUtxoEntry :: "key_parser \<Rightarrow> OutPoint \<Rightarrow> UtxoEntry \<Rightarrow> chain_db \<Rightarrow> io_error + chain_db" where
  "dbPutUtxoEntry parse outpoint entry db =
     (if IsSpent entry then Inl ErrIoAssert
      else bind_r (serializeUtxoEntry parse entry) (\<lambda>serialized.
        bind_r (put_r (outpointKey outpoint) serialized (utxoSet db)) (\<lambda>b. Inr (db\<lparr>utxoSet := b\<rparr>))))"

definition dbPutUtxoView :: "key_parser \<Rightarrow> OutPoint list \<Rightarrow> UtxoViewpoint \<Rightarrow> chain_db \<Rightarrow> io_error + chain_db" where
  "dbPutUtxoView parse order view db =
     fold_r (\<lambda>outpoint db. case entries view outpoint of
         None \<Rightarrow> Inr db
       | Some entry \<Rightarrow>
           if \<not> isModified entry then Inr db
           else if IsSpent entry then Inr (dbDeleteUtxoEntry outpoint db)
           else dbPutUtxoEntry parse outpoint entry db) order db"

text \<open>Any unspent output of a transaction: the first key at or after the one of output zero.\<close>

definition dbFetchUtxoEntryByHash :: "key_parser \<Rightarrow> hash \<Rightarrow> chain_db \<Rightarrow> io_error + UtxoEntry option" where
  "dbFetchUtxoEntryByHash parse h db =
     (case cursor_Seek (outpointKey \<lparr>Hash = h, Index = 0\<rparr>) (utxoSet db) of
        [] \<Rightarrow> Inr None
      | (k, v) # _ \<Rightarrow>
          if length k < 32 then Inr None
          else if hash_bytes h \<noteq> take 32 k then Inr None
          else bind_r (deserializeUtxoEntry parse v) (\<lambda>entry. Inr (Some entry)))"

section \<open>The index of the main chain\<close>

definition serializedHeight :: "int32 \<Rightarrow> bytes" where
  "serializedHeight height = le_bytes 4 (unat (of_int height :: u32))"

definition dbPutBlockIndex :: "hash \<Rightarrow> int32 \<Rightarrow> chain_db \<Rightarrow> io_error + chain_db" where
  "dbPutBlockIndex h height db =
     bind_r (put_r (hash_bytes h) (serializedHeight height) (hashIndex db)) (\<lambda>hi.
     bind_r (put_r (serializedHeight height) (hash_bytes h) (heightIndex db)) (\<lambda>hei.
     Inr (db\<lparr>hashIndex := hi, heightIndex := hei\<rparr>)))"

definition dbRemoveBlockIndex :: "hash \<Rightarrow> int32 \<Rightarrow> chain_db \<Rightarrow> chain_db" where
  "dbRemoveBlockIndex h height db =
     db\<lparr>hashIndex := bucket_Delete (hash_bytes h) (hashIndex db),
        heightIndex := bucket_Delete (serializedHeight height) (heightIndex db)\<rparr>"

definition dbFetchHeightByHash :: "hash \<Rightarrow> chain_db \<Rightarrow> io_error + int32" where
  "dbFetchHeightByHash h db =
     (case bucket_Get (hash_bytes h) (hashIndex db) of
        None \<Rightarrow> Inl ErrNotInMainChain
      | Some v \<Rightarrow> if length v < 4 then Inl ErrIoPanic else Inr (wrap32 (int (le_val (take 4 v)))))"

definition dbFetchHashByHeight :: "int32 \<Rightarrow> chain_db \<Rightarrow> io_error + hash" where
  "dbFetchHashByHeight height db =
     (case bucket_Get (serializedHeight height) (heightIndex db) of
        None \<Rightarrow> Inl ErrNotInMainChain
      | Some v \<Rightarrow> Inr (hash_of_bytes (take 32 v)))"

section \<open>The best chain state\<close>

record bestChainState =
  bcs_hash :: hash
  bcs_height :: u32
  totalTxns :: u64
  workSum :: nat

text \<open>\<open>big.Int.Bytes\<close>: big-endian, without leading zeros.\<close>

function big_bytes :: "nat \<Rightarrow> bytes" where
  "big_bytes n = (if n = 0 then [] else big_bytes (n div 256) @ [of_nat n])"
  by pat_completeness auto

termination
  by (relation "measure id") simp_all

declare big_bytes.simps [simp del]

definition serializeBestChainState :: "bestChainState \<Rightarrow> bytes" where
  "serializeBestChainState state =
     (let workSumBytes = big_bytes (workSum state) in
      hash_bytes (bcs_hash state) @ le_bytes 4 (unat (bcs_height state)) @ le_bytes 8 (unat (totalTxns state))
      @ le_bytes 4 (length workSumBytes) @ workSumBytes)"

definition deserializeBestChainState :: "bytes \<Rightarrow> io_error + bestChainState" where
  "deserializeBestChainState s =
     (if length s < 32 + 16 then Inl ErrCorruption
      else
        let workSumBytesLen = le_val (take 4 (drop 44 s)) in
        if length (drop 48 s) mod 2 ^ 32 < workSumBytesLen then Inl ErrCorruption
        else Inr \<lparr>bcs_hash = hash_of_bytes (take 32 s), bcs_height = of_nat (le_val (take 4 (drop 32 s))),
          totalTxns = of_nat (le_val (take 8 (drop 36 s))), workSum = be_val (take workSumBytesLen (drop 48 s))\<rparr>)"

definition chainStateKeyName :: bytes where
  "chainStateKeyName = map (\<lambda>c. of_nat (of_char c)) ''chainstate''"

definition utxoStateConsistencyKeyName :: bytes where
  "utxoStateConsistencyKeyName = map (\<lambda>c. of_nat (of_char c)) ''utxostateconsistency''"

definition dbPutBestState :: "hash \<Rightarrow> int32 \<Rightarrow> u64 \<Rightarrow> nat \<Rightarrow> chain_db \<Rightarrow> io_error + chain_db" where
  "dbPutBestState h height txns work db =
     bind_r (put_r chainStateKeyName (serializeBestChainState
       \<lparr>bcs_hash = h, bcs_height = of_int height, totalTxns = txns, workSum = work\<rparr>) (chainMeta db)) (\<lambda>b.
     Inr (db\<lparr>chainMeta := b\<rparr>))"

definition dbPutUtxoStateConsistency :: "hash \<Rightarrow> chain_db \<Rightarrow> io_error + chain_db" where
  "dbPutUtxoStateConsistency h db =
     bind_r (put_r utxoStateConsistencyKeyName (hash_bytes h) (chainMeta db)) (\<lambda>b. Inr (db\<lparr>chainMeta := b\<rparr>))"

definition dbFetchUtxoStateConsistency :: "chain_db \<Rightarrow> bytes option" where
  "dbFetchUtxoStateConsistency db = bucket_Get utxoStateConsistencyKeyName (chainMeta db)"

section \<open>Round trips\<close>

lemma header_code:
  fixes h :: int
  assumes "is_int32 h"
  defines "c b \<equiv> (let code = push_bit 1 (of_int h) in if b then code OR 0x01 else code) :: u64"
  shows "wrap32 (uint (drop_bit 1 (c b))) = h" and "c b AND 0x01 \<noteq> 0 \<longleftrightarrow> b"
proof -
  have one: "(1 :: u64) = push_bit 0 1" by simp
  have d: "drop_bit 1 (c b) = take_bit 63 (of_int h)"
    by (rule bit_word_eqI) (auto simp: c_def Let_def bit_simps simp del: One_nat_def push_bit_Suc)
  have "uint (drop_bit 1 (c b)) = take_bit 63 h"
    unfolding d by (simp add: unsigned_take_bit_eq uint_word_of_int_eq)
  then show "wrap32 (uint (drop_bit 1 (c b))) = h"
    using wrap32_id [OF assms(1)] by (simp add: wrap32_def signed_take_bit_take_bit)
  have "c b AND 0x01 = (if b then 1 else 0)"
    by (rule bit_word_eqI) (auto simp: c_def Let_def bit_simps simp del: One_nat_def push_bit_Suc)
  then show "c b AND 0x01 \<noteq> 0 \<longleftrightarrow> b" by simp
qed

lemma amount_word:
  assumes "0 \<le> a" and "a < 2 ^ 60"
  shows "unat (of_int a :: u64) < 2 ^ 60" and "sint (of_int a :: u64) = a"
proof -
  have "unat (of_int a :: u64) = nat a"
    using assms by (simp add: unat_eq_nat_uint uint_word_of_int_eq take_bit_int_eq_self)
  then show "unat (of_int a :: u64) < 2 ^ 60" using assms by (simp add: nat_less_iff)
  show "sint (of_int a :: u64) = a" using assms by (simp add: sint_sbintrunc' signed_take_bit_int_eq_self)
qed

definition wf_stxo :: "SpentTxOut \<Rightarrow> bool" where
  "wf_stxo stxo \<longleftrightarrow> is_int32 (st_Height stxo) \<and> 0 \<le> st_Amount stxo \<and> st_Amount stxo < 2 ^ 60
     \<and> length (st_PkScript stxo) < 2 ^ 32"

lemma length_putCompressedTxOut_pos: "sound_parser parse \<Longrightarrow> length pk < 2 ^ 32 \<Longrightarrow> 0 < length (putCompressedTxOut parse a pk)"
  using serializeSizeVLQ_pos by (simp add: length_putCompressedTxOut compressedTxOutSize_def)

theorem decode_putSpentTxOut:
  assumes "sound_parser parse" and "wf_stxo stxo"
  shows "decodeSpentTxOut parse (putSpentTxOut parse stxo @ rest) = Inr (stxo, length (putSpentTxOut parse stxo))"
proof -
  let ?a = "of_int (st_Amount stxo) :: u64" and ?pk = "st_PkScript stxo" and ?c = "spentTxOutHeaderCode stxo"
  have w: "is_int32 (st_Height stxo)" "length ?pk < 2 ^ 32" "0 \<le> st_Amount stxo" "st_Amount stxo < 2 ^ 60"
    using assms(2) by (simp_all add: wf_stxo_def)
  note a = amount_word [OF w(3,4)]
  note h = header_code [OF w(1), of "st_IsCoinBase stxo", folded spentTxOutHeaderCode_def]
  note d = decode_putCompressedTxOut [OF assms(1) w(2) a(1), of rest]
  have ne: "putCompressedTxOut parse ?a ?pk \<noteq> []" using length_putCompressedTxOut_pos [OF assms(1) w(2)] by auto
  have z: "deserializeVLQ (putVLQ 0 @ putCompressedTxOut parse ?a ?pk @ rest) = (0, serializeSizeVLQ 0)" by simp
  have c: "deserializeVLQ (putVLQ ?c @ r) = (?c, serializeSizeVLQ ?c)" for r by simp
  have dr: "drop (serializeSizeVLQ ?c + serializeSizeVLQ 0) (putVLQ ?c @ putVLQ 0 @ r) = r" for r
    by simp
  show ?thesis
    using ne serializeSizeVLQ_pos [of ?c] serializeSizeVLQ_pos [of 0]
    by (cases "0 < st_Height stxo")
      (simp_all add: decodeSpentTxOut_def putSpentTxOut_def c h Let_def z d a dr del: One_nat_def)
qed

theorem deserialize_serializeSpendJournalEntry:
  assumes "sound_parser parse" and "\<forall>stxo \<in> set stxos. wf_stxo stxo"
    and "length stxos = sum_list (map (\<lambda>tx. length (TxIn tx)) txns)"
  shows "deserializeSpendJournalEntry parse (serializeSpendJournalEntry parse stxos) txns = Inr stxos"
proof -
  have d: "decodeStxos parse (length ss) (concat (map (putSpentTxOut parse) ss)) = Inr ss"
    if "\<forall>stxo \<in> set ss. wf_stxo stxo" for ss
    using that by (induction ss) (simp_all add: decode_putSpentTxOut [OF assms(1)])
  have ne: "putSpentTxOut parse stxo \<noteq> []" for stxo
    using serializeSizeVLQ_pos [of "spentTxOutHeaderCode stxo"] length_putVLQ [of "spentTxOutHeaderCode stxo"]
    by (auto simp: putSpentTxOut_def simp del: length_putVLQ)
  show ?thesis
  proof (cases "stxos = []")
    case True
    then show ?thesis
      using assms(3) by (simp add: deserializeSpendJournalEntry_def serializeSpendJournalEntry_def Let_def)
  next
    case False
    then have "concat (map (putSpentTxOut parse) (rev stxos)) \<noteq> []" using ne by (cases "rev stxos") auto
    then show ?thesis
      using d [of "rev stxos"] assms(2) False
      by (simp add: deserializeSpendJournalEntry_def serializeSpendJournalEntry_def Let_def assms(3) [symmetric])
  qed
qed

text \<open>The database keeps the coinbase flag of an entry and no other.\<close>

definition stored :: "UtxoEntry \<Rightarrow> UtxoEntry" where
  "stored e = e\<lparr>packedFlags := (if IsCoinBase e then tfCoinBase else 0)\<rparr>"

definition wf_entry :: "UtxoEntry \<Rightarrow> bool" where
  "wf_entry e \<longleftrightarrow> is_int32 (blockHeight e) \<and> 0 \<le> amount e \<and> amount e < 2 ^ 60 \<and> length (pkScript e) < 2 ^ 32"

theorem deserialize_serializeUtxoEntry:
  assumes "sound_parser parse" and "wf_entry e" and "\<not> IsSpent e"
  shows "\<exists>bs. serializeUtxoEntry parse e = Inr bs \<and> bs \<noteq> [] \<and> deserializeUtxoEntry parse bs = Inr (stored e)"
proof -
  let ?a = "of_int (amount e) :: u64" and ?pk = "pkScript e"
  obtain c where c: "utxoEntryHeaderCode e = Inr c"
    "c = (let code = push_bit 1 (of_int (blockHeight e)) in if IsCoinBase e then code OR 0x01 else code)"
    using assms(3) by (simp add: utxoEntryHeaderCode_def Let_def)
  have w: "is_int32 (blockHeight e)" "length ?pk < 2 ^ 32" "0 \<le> amount e" "amount e < 2 ^ 60"
    using assms(2) by (simp_all add: wf_entry_def)
  note a = amount_word [OF w(3,4)]
  note h = header_code [OF w(1), of "IsCoinBase e", folded c(2)]
  have d: "decodeCompressedTxOut parse (putCompressedTxOut parse ?a ?pk) = Inr (?a, ?pk, length (putCompressedTxOut parse ?a ?pk))"
    using decode_putCompressedTxOut [OF assms(1) w(2) a(1), of "[]"] by simp
  have ne: "putCompressedTxOut parse ?a ?pk \<noteq> []" using length_putCompressedTxOut_pos [OF assms(1) w(2)] by auto
  then show ?thesis
    using assms(3) by (simp add: serializeUtxoEntry_def c(1) deserializeUtxoEntry_def h d a Let_def stored_def del: One_nat_def)
qed

lemma putVLQ_inject [simp]: "putVLQ m = putVLQ n \<longleftrightarrow> m = n"
  by (metis append_Nil2 deserializeVLQ_putVLQ fst_conv)

lemma unat_ucast_u32: "unat (ucast (x :: u32) :: u64) = unat x"
  using unat_u32_bound [of x] by (simp add: unsigned_ucast_eq take_bit_nat_eq_self)

lemma outpointKey_inject [simp]: "outpointKey a = outpointKey b \<longleftrightarrow> a = b"
proof
  assume k: "outpointKey a = outpointKey b"
  then have "Hash a = Hash b" "ucast (Index a) = (ucast (Index b) :: u64)"
    by (simp_all add: outpointKey_def)
  moreover from this(2) have "Index a = Index b"
    by (metis unat_ucast_u32 word_unat_eq_iff)
  ultimately show "a = b" by simp
qed simp

lemma outpointKey_ne [simp]: "outpointKey op \<noteq> []"
proof
  assume "outpointKey op = []"
  from arg_cong [OF this, of length] show False by (simp add: outpointKey_def)
qed

lemma put_r_Inr: "k \<noteq> [] \<Longrightarrow> put_r k v b = Inr (bucket_upd k v b)"
  by (simp add: put_r_def bucket_Put_def)

section \<open>The UTXO set as a map\<close>

definition utxo_rep :: "key_parser \<Rightarrow> chain_db \<Rightarrow> (OutPoint \<rightharpoonup> UtxoEntry) \<Rightarrow> bool" where
  "utxo_rep parse db U \<longleftrightarrow> wf_bucket (utxoSet db) \<and> (\<forall>op. dbFetchUtxoEntry parse op db = Inr (U op))"

lemma bucket_Get_outpoint: "bucket_Get (outpointKey op) b = map_of b (outpointKey op)"
  by (simp add: bucket_Get_def)

lemma dbDeleteUtxoEntry_rep:
  assumes "utxo_rep parse db U"
  shows "utxo_rep parse (dbDeleteUtxoEntry op db) (U(op := None))"
  using assms
  by (auto simp: utxo_rep_def dbDeleteUtxoEntry_def bucket_Delete_def wf_bucket_del dbFetchUtxoEntry_def
      bucket_Get_outpoint map_of_bucket_del)

lemma dbPutUtxoEntry_rep:
  assumes "sound_parser parse" and "utxo_rep parse db U" and "wf_entry e" and "\<not> IsSpent e"
  shows "\<exists>db'. dbPutUtxoEntry parse op e db = Inr db' \<and> utxo_rep parse db' (U(op \<mapsto> stored e))"
proof -
  obtain bs where bs: "serializeUtxoEntry parse e = Inr bs" "bs \<noteq> []" "deserializeUtxoEntry parse bs = Inr (stored e)"
    using deserialize_serializeUtxoEntry [OF assms(1,3,4)] by blast
  then show ?thesis
    using assms(2,4)
    by (auto simp: dbPutUtxoEntry_def put_r_Inr utxo_rep_def wf_bucket_upd dbFetchUtxoEntry_def bucket_Get_outpoint
        map_of_bucket_upd)
qed

text \<open>The set after the modified entries of a view are written.\<close>

definition flushed :: "(OutPoint \<rightharpoonup> UtxoEntry) \<Rightarrow> (OutPoint \<rightharpoonup> UtxoEntry) \<Rightarrow> OutPoint \<rightharpoonup> UtxoEntry" where
  "flushed es U op = (case es op of
       None \<Rightarrow> U op
     | Some e \<Rightarrow> if \<not> isModified e then U op else if IsSpent e then None else Some (stored e))"

theorem dbPutUtxoView_rep:
  assumes "sound_parser parse" and "utxo_rep parse db U" and "dom (entries view) \<subseteq> set order"
    and "\<And>op e. entries view op = Some e \<Longrightarrow> wf_entry e"
  shows "\<exists>db'. dbPutUtxoView parse order view db = Inr db' \<and> utxo_rep parse db' (flushed (entries view) U)"
proof -
  let ?es = "entries view"
  have step: "\<exists>db'. dbPutUtxoView parse ops view db = Inr db'
      \<and> utxo_rep parse db' (\<lambda>op. if op \<in> set ops then flushed ?es U op else U op)"
    if "utxo_rep parse db U" for ops db U
    using that
  proof (induction ops arbitrary: db U)
    case (Cons x ops)
    let ?f = "\<lambda>op db. case ?es op of None \<Rightarrow> Inr db
       | Some entry \<Rightarrow> if \<not> isModified entry then Inr db
           else if IsSpent entry then Inr (dbDeleteUtxoEntry op db) else dbPutUtxoEntry parse op entry db"
    have "\<exists>db'. ?f x db = Inr db' \<and> utxo_rep parse db' (U(x := flushed ?es U x))"
      using Cons.prems dbDeleteUtxoEntry_rep [OF Cons.prems, of x] dbPutUtxoEntry_rep [OF assms(1) Cons.prems, of _ x] assms(4) [of x]
      by (cases "?es x") (auto simp: flushed_def)
    then obtain db' where db': "?f x db = Inr db'" "utxo_rep parse db' (U(x := flushed ?es U x))" by blast
    obtain db'' where db'': "dbPutUtxoView parse ops view db' = Inr db''"
      "utxo_rep parse db'' (\<lambda>op. if op \<in> set ops then flushed ?es (U(x := flushed ?es U x)) op else (U(x := flushed ?es U x)) op)"
      using Cons.IH [OF db'(2)] by blast
    have "(\<lambda>op. if op \<in> set ops then flushed ?es (U(x := flushed ?es U x)) op else (U(x := flushed ?es U x)) op) =
        (\<lambda>op. if op \<in> set (x # ops) then flushed ?es U op else U op)"
      by (auto simp: fun_eq_iff flushed_def split: option.splits)
    then show ?case using db' db'' by (auto simp: dbPutUtxoView_def)
  qed (simp add: dbPutUtxoView_def)
  have "(\<lambda>op. if op \<in> set order then flushed ?es U op else U op) = flushed ?es U"
    using assms(3) by (auto simp: fun_eq_iff flushed_def split: option.splits)
  with step [OF assms(2), of order] show ?thesis by simp
qed

section \<open>The journal, the index of the main chain and the best state\<close>

lemma hash_bytes_ne [simp]: "hash_bytes h \<noteq> []"
  using length_hash_bytes [of h] by (metis list.size(3) zero_neq_numeral)

theorem dbFetch_dbPutSpendJournalEntry:
  assumes "sound_parser parse" and "\<forall>stxo \<in> set stxos. wf_stxo stxo" and "Transactions block = cb # txs"
    and "length stxos = sum_list (map (\<lambda>tx. length (TxIn tx)) txs)"
  shows "\<exists>db'. dbPutSpendJournalEntry parse (BlockHash block) stxos db = Inr db'
    \<and> dbFetchSpendJournalEntry parse block db' = Inr stxos \<and> utxoSet db' = utxoSet db"
  using deserialize_serializeSpendJournalEntry [OF assms(1,2,4)]
  by (simp add: dbPutSpendJournalEntry_def put_r_Inr dbFetchSpendJournalEntry_def bucket_Get_def map_of_bucket_upd assms(3))

lemma length_serializedHeight [simp]: "length (serializedHeight h) = 4"
  by (simp add: serializedHeight_def)

lemma serializedHeight_ne [simp]: "serializedHeight h \<noteq> []"
  using length_serializedHeight [of h] by (metis list.size(3) zero_neq_numeral)

lemma wrap32_serializedHeight:
  assumes "is_int32 h"
  shows "wrap32 (int (le_val (serializedHeight h))) = h"
proof -
  have "le_val (serializedHeight h) = unat (of_int h :: u32)"
    using unat_u32_bound [of "of_int h"] by (simp add: serializedHeight_def le_val_le_bytes)
  then have "int (le_val (serializedHeight h)) = take_bit 32 h"
    by (simp add: uint_word_of_int_eq)
  then show ?thesis using wrap32_id [OF assms] by (simp add: wrap32_def signed_take_bit_take_bit)
qed

lemma serializedHeight_inject:
  "is_int32 a \<Longrightarrow> is_int32 b \<Longrightarrow> serializedHeight a = serializedHeight b \<longleftrightarrow> a = b"
  by (metis wrap32_serializedHeight)

text \<open>The two index buckets are inverse to each other: the chain they describe.\<close>

definition index_of_chain :: "chain_db \<Rightarrow> (int32 \<rightharpoonup> hash) \<Rightarrow> bool" where
  "index_of_chain db chain \<longleftrightarrow> wf_bucket (hashIndex db) \<and> wf_bucket (heightIndex db) \<and> (\<forall>i \<in> dom chain. is_int32 i)
     \<and> (\<forall>i. is_int32 i \<longrightarrow> dbFetchHashByHeight i db = (case chain i of None \<Rightarrow> Inl ErrNotInMainChain | Some h \<Rightarrow> Inr h))
     \<and> (\<forall>h i. dbFetchHeightByHash h db = Inr i \<longleftrightarrow> chain i = Some h)"

lemma index_of_chainD:
  assumes "index_of_chain db chain"
  shows "wf_bucket (hashIndex db)" "wf_bucket (heightIndex db)" "\<forall>i \<in> dom chain. is_int32 i"
    "\<And>i. is_int32 i \<Longrightarrow> dbFetchHashByHeight i db = (case chain i of None \<Rightarrow> Inl ErrNotInMainChain | Some h \<Rightarrow> Inr h)"
    "\<And>h i. dbFetchHeightByHash h db = Inr i \<longleftrightarrow> chain i = Some h"
  using assms unfolding index_of_chain_def by blast+

lemma index_of_chain_put:
  assumes "index_of_chain db chain" and "is_int32 i" and "i \<notin> dom chain" and "h \<notin> ran chain"
  shows "\<exists>db'. dbPutBlockIndex h i db = Inr db' \<and> index_of_chain db' (chain(i \<mapsto> h))"
proof -
  let ?db = "db\<lparr>hashIndex := bucket_upd (hash_bytes h) (serializedHeight i) (hashIndex db),
    heightIndex := bucket_upd (serializedHeight i) (hash_bytes h) (heightIndex db)\<rparr>"
  have p: "dbPutBlockIndex h i db = Inr ?db" by (simp add: dbPutBlockIndex_def put_r_Inr)
  have hh: "dbFetchHashByHeight j ?db = (if j = i then Inr h else dbFetchHashByHeight j db)" if "is_int32 j" for j
    using that assms(2) by (simp add: dbFetchHashByHeight_def bucket_Get_def map_of_bucket_upd serializedHeight_inject)
  have hi: "dbFetchHeightByHash g ?db = (if g = h then Inr i else dbFetchHeightByHash g db)" for g
    using assms(2) by (simp add: dbFetchHeightByHash_def bucket_Get_def map_of_bucket_upd wrap32_serializedHeight)
  note c = index_of_chainD [OF assms(1)]
  have ch: "chain i = None" "chain j \<noteq> Some h" for j using assms(3,4) by (auto simp: ran_def)
  have "dbFetchHeightByHash g ?db = Inr j \<longleftrightarrow> (chain(i \<mapsto> h)) j = Some g" for g j
  proof (cases "g = h")
    case False
    then show ?thesis using c(5) [of g j] ch(1) hi [of g] by simp
  qed (use hi [of g] ch(2) [of j] in simp)
  moreover have "dbFetchHashByHeight j ?db = (case (chain(i \<mapsto> h)) j of None \<Rightarrow> Inl ErrNotInMainChain | Some h \<Rightarrow> Inr h)"
    if "is_int32 j" for j
    using c(4) [OF that] hh [OF that] by simp
  moreover have "\<forall>j \<in> dom (chain(i \<mapsto> h)). is_int32 j" using c(3) assms(2) by simp
  moreover have "wf_bucket (hashIndex ?db)" "wf_bucket (heightIndex ?db)" using c(1,2) by (simp_all add: wf_bucket_upd)
  ultimately have "index_of_chain ?db (chain(i \<mapsto> h))" unfolding index_of_chain_def by blast
  with p show ?thesis by blast
qed

lemma index_of_chain_remove:
  assumes "index_of_chain db chain" and "chain i = Some h"
  shows "index_of_chain (dbRemoveBlockIndex h i db) (chain(i := None))"
proof -
  let ?db = "dbRemoveBlockIndex h i db"
  note c = index_of_chainD [OF assms(1)]
  have i: "is_int32 i" and wf: "wf_bucket (hashIndex db)" "wf_bucket (heightIndex db)"
    using c(1-3) assms(2) by blast+
  have hh: "dbFetchHashByHeight j ?db = (if j = i then Inl ErrNotInMainChain else dbFetchHashByHeight j db)" if "is_int32 j" for j
    using that i wf by (simp add: dbFetchHashByHeight_def dbRemoveBlockIndex_def bucket_Delete_def bucket_Get_def
        map_of_bucket_del serializedHeight_inject)
  have hi: "dbFetchHeightByHash g ?db = (if g = h then Inl ErrNotInMainChain else dbFetchHeightByHash g db)" for g
    using wf by (simp add: dbFetchHeightByHash_def dbRemoveBlockIndex_def bucket_Delete_def bucket_Get_def map_of_bucket_del)
  have u: "chain j = Some h \<longleftrightarrow> j = i" for j using c(5) [of h j] c(5) [of h i] assms(2) by auto
  have "dbFetchHeightByHash g ?db = Inr j \<longleftrightarrow> (chain(i := None)) j = Some g" for g j
  proof (cases "g = h")
    case False
    then show ?thesis using c(5) [of g j] assms(2) hi [of g] by simp
  qed (use hi [of g] u [of j] in simp)
  moreover have "dbFetchHashByHeight j ?db = (case (chain(i := None)) j of None \<Rightarrow> Inl ErrNotInMainChain | Some h \<Rightarrow> Inr h)"
    if "is_int32 j" for j
    using c(4) [OF that] hh [OF that] by simp
  moreover have "\<forall>j \<in> dom (chain(i := None)). is_int32 j" using c(3) by simp
  moreover have "wf_bucket (hashIndex ?db)" "wf_bucket (heightIndex ?db)"
    using wf by (simp_all add: dbRemoveBlockIndex_def bucket_Delete_def wf_bucket_del)
  ultimately show ?thesis unfolding index_of_chain_def by blast
qed

lemma be_val_snoc: "be_val (bs @ [b]) = 256 * be_val bs + unat b"
  by (simp add: be_val_def)

lemma be_val_big_bytes: "be_val (big_bytes n) = n"
proof (induction n rule: big_bytes.induct)
  case (1 n)
  show ?case
  proof (cases "n = 0")
    case False
    then show ?thesis using 1 by (subst big_bytes.simps) (simp add: be_val_snoc unat_of_nat_byte)
  qed (simp add: big_bytes.simps be_val_def)
qed

theorem deserialize_serializeBestChainState:
  assumes "length (big_bytes (workSum state)) < 2 ^ 32"
  shows "deserializeBestChainState (serializeBestChainState state) = Inr state"
proof -
  have "of_nat (le_val (le_bytes 4 (unat (bcs_height state)))) = bcs_height state"
    "of_nat (le_val (le_bytes 8 (unat (totalTxns state)))) = totalTxns state"
    "le_val (le_bytes 4 (length (big_bytes (workSum state)))) = length (big_bytes (workSum state))"
    using unat_u32_bound [of "bcs_height state"] unat_u64_bound [of "totalTxns state"] assms
    by (simp_all add: le_val_le_bytes)
  then show ?thesis
    using assms by (simp add: deserializeBestChainState_def serializeBestChainState_def Let_def be_val_big_bytes)
qed

end
