(* ===== verification/Utxo_Set.thy ===== *)
theory Utxo_Set
  imports Chain_Io
begin

text \<open>
  The UTXO set as a map, and disconnecting blocks in the view
  (\<open>disconnectTransactions\<close>, \<open>fetchEntryByHash\<close> of \<open>blockchain/utxoviewpoint.go\<close>).

  A view overlays the set it was loaded from: an entry of the view stands for an unspent output, or
  for its absence when it is spent.  The specification connects and disconnects transactions on the
  map and keeps the spend journal; the view refines it in both directions.
\<close>

unbundle bit_operations_syntax

section \<open>Disconnecting\<close>

definition MaxBlockWeight :: nat where "MaxBlockWeight = 4000000"

definition MinTxOutPayload :: nat where "MinTxOutPayload = 9"

definition MinTxOutputWeight :: nat where "MinTxOutputWeight = WitnessScaleFactor * MinTxOutPayload"

definition MaxOutputsPerBlock :: nat where "MaxOutputsPerBlock = MaxBlockWeight div MinTxOutputWeight"

definition countSpentOutputs :: "Block \<Rightarrow> nat" where
  "countSpentOutputs block = sum_list (map (\<lambda>tx. length (TxIn tx)) (tl (Transactions block)))"

fun findEntry :: "UtxoViewpoint \<Rightarrow> hash \<Rightarrow> nat \<Rightarrow> nat \<Rightarrow> UtxoEntry option" where
  "findEntry view h idx 0 = None"
| "findEntry view h idx (Suc n) =
     (case LookupEntry view \<lparr>Hash = h, Index = of_nat idx\<rparr> of
        Some entry \<Rightarrow> Some entry
      | None \<Rightarrow> findEntry view h (Suc idx) n)"

definition fetchEntryByHash :: "key_parser \<Rightarrow> chain_db \<Rightarrow> hash \<Rightarrow> UtxoViewpoint \<Rightarrow> io_error + UtxoEntry option" where
  "fetchEntryByHash parse db h view =
     (case findEntry view h 0 MaxOutputsPerBlock of
        Some entry \<Rightarrow> Inr (Some entry)
      | None \<Rightarrow> dbFetchUtxoEntryByHash parse h db)"

definition spendOwnOutput :: "int32 \<Rightarrow> bool \<Rightarrow> hash \<Rightarrow> nat \<times> TxOut \<Rightarrow> UtxoViewpoint \<Rightarrow> UtxoViewpoint" where
  "spendOwnOutput height isCoinBase txHash = (\<lambda>(txOutIdx, txOut) view.
     if IsUnspendable (PkScript txOut) then view
     else
       let prevOut = \<lparr>Hash = txHash, Index = of_nat txOutIdx\<rparr>;
           entry = (case entries view prevOut of
               Some entry \<Rightarrow> entry
             | None \<Rightarrow> \<lparr>amount = Value txOut, pkScript = PkScript txOut, blockHeight = height,
                 packedFlags = (if isCoinBase then tfCoinBase else 0)\<rparr>)
       in view\<lparr>entries := (entries view)(prevOut \<mapsto> Spend entry)\<rparr>)"

text \<open>The height and the coinbase flag of a spent output; an entry of the legacy journal has height
  zero and takes them from the outputs of the transaction.\<close>

definition stxoOrigin :: "key_parser \<Rightarrow> chain_db \<Rightarrow> hash \<Rightarrow> SpentTxOut \<Rightarrow> UtxoViewpoint \<Rightarrow> io_error + (int32 \<times> bool)" where
  "stxoOrigin parse db txHash stxo view =
     (if st_Height stxo = 0 then
        bind_r (fetchEntryByHash parse db txHash view) (\<lambda>utxo.
        case utxo of None \<Rightarrow> Inl ErrIoAssert | Some utxo \<Rightarrow> Inr (blockHeight utxo, IsCoinBase utxo))
      else Inr (st_Height stxo, st_IsCoinBase stxo))"

text \<open>A missing entry is created, so that a legacy search sees the state after the creation; it has
  the null fields of a new entry.\<close>

definition unspendInput :: "key_parser \<Rightarrow> chain_db \<Rightarrow> hash \<Rightarrow> TxIn \<Rightarrow> UtxoViewpoint \<times> SpentTxOut list \<Rightarrow>
    io_error + (UtxoViewpoint \<times> SpentTxOut list)" where
  "unspendInput parse db txHash txIn = (\<lambda>(view, stxos).
     case stxos of [] \<Rightarrow> Inl ErrIoPanic
     | stxo # stxos \<Rightarrow>
         let originOut = PreviousOutPoint txIn;
             view = (case entries view originOut of
                 Some _ \<Rightarrow> view
               | None \<Rightarrow> view\<lparr>entries := (entries view)(originOut \<mapsto>
                   \<lparr>amount = 0, pkScript = [], blockHeight = 0, packedFlags = 0\<rparr>)\<rparr>)
         in bind_r (stxoOrigin parse db txHash stxo view) (\<lambda>(height, isCoinBase).
            Inr (view\<lparr>entries := (entries view)(originOut \<mapsto>
                   \<lparr>amount = st_Amount stxo, pkScript = st_PkScript stxo, blockHeight = height,
                    packedFlags = (if isCoinBase then tfModified OR tfCoinBase else tfModified)\<rparr>)\<rparr>, stxos)))"

text \<open>The journal is consumed from its end.\<close>

definition disconnectTransaction :: "key_parser \<Rightarrow> chain_db \<Rightarrow> int32 \<Rightarrow> nat \<times> MsgTx \<Rightarrow>
    UtxoViewpoint \<times> SpentTxOut list \<Rightarrow> io_error + (UtxoViewpoint \<times> SpentTxOut list)" where
  "disconnectTransaction parse db height = (\<lambda>(txIdx, tx) (view, stxos).
     let isCoinBase = (txIdx = 0);
         view = fold (spendOwnOutput height isCoinBase (TxHash tx)) (enumerate 0 (TxOut tx)) view
     in if isCoinBase then Inr (view, stxos)
        else fold_r (unspendInput parse db (TxHash tx)) (rev (TxIn tx)) (view, stxos))"

definition disconnectTransactions :: "key_parser \<Rightarrow> chain_db \<Rightarrow> Block \<Rightarrow> SpentTxOut list \<Rightarrow> UtxoViewpoint \<Rightarrow>
    io_error + UtxoViewpoint" where
  "disconnectTransactions parse db block stxos view =
     (if Transactions block = [] then Inl ErrIoPanic
      else if length stxos \<noteq> countSpentOutputs block then Inl ErrIoAssert
      else bind_r (fold_r (disconnectTransaction parse db (Height block)) (rev (enumerate 0 (Transactions block)))
                     (view, rev stxos)) (\<lambda>(view, _).
           Inr (view\<lparr>bestHash := PrevBlock (Header block)\<rparr>)))"

section \<open>The set as a map\<close>

type_synonym utxo = "int64 \<times> bytes \<times> int32 \<times> bool"
type_synonym utxo_set = "OutPoint \<rightharpoonup> utxo"

definition utxo_of :: "UtxoEntry \<Rightarrow> utxo" where
  "utxo_of e = (amount e, pkScript e, blockHeight e, IsCoinBase e)"

definition overlay :: "(OutPoint \<rightharpoonup> UtxoEntry) \<Rightarrow> utxo_set \<Rightarrow> utxo_set" where
  "overlay es U op = (case es op of None \<Rightarrow> U op | Some e \<Rightarrow> if IsSpent e then None else Some (utxo_of e))"

definition stxo_of_utxo :: "utxo \<Rightarrow> SpentTxOut" where
  "stxo_of_utxo = (\<lambda>(a, pk, h, cb). \<lparr>st_Amount = a, st_PkScript = pk, st_Height = h, st_IsCoinBase = cb\<rparr>)"

definition utxo_of_stxo :: "SpentTxOut \<Rightarrow> utxo" where
  "utxo_of_stxo s = (st_Amount s, st_PkScript s, st_Height s, st_IsCoinBase s)"

lemma utxo_stxo [simp]: "utxo_of_stxo (stxo_of_utxo u) = u"
  by (cases u) (simp add: utxo_of_stxo_def stxo_of_utxo_def)

definition utxo_spend :: "TxIn \<Rightarrow> utxo_set \<Rightarrow> utxo_set" where
  "utxo_spend ti U = U(PreviousOutPoint ti := None)"

definition utxo_create :: "int32 \<Rightarrow> MsgTx \<Rightarrow> nat \<times> TxOut \<Rightarrow> utxo_set \<Rightarrow> utxo_set" where
  "utxo_create h tx = (\<lambda>(i, txOut) U.
     if IsUnspendable (PkScript txOut) then U
     else U(out_op tx i \<mapsto> (Value txOut, PkScript txOut, h, IsCoinBaseTx tx)))"

definition utxo_tx :: "int32 \<Rightarrow> MsgTx \<Rightarrow> utxo_set \<Rightarrow> utxo_set" where
  "utxo_tx h tx U = fold (utxo_create h tx) (enumerate 0 (TxOut tx))
     (if IsCoinBaseTx tx then U else fold utxo_spend (TxIn tx) U)"

definition utxo_block :: "Block \<Rightarrow> utxo_set \<Rightarrow> utxo_set" where
  "utxo_block block U = fold (utxo_tx (Height block)) (Transactions block) U"

text \<open>What a transaction adds to the spend journal.\<close>

definition journal :: "MsgTx \<Rightarrow> utxo_set \<Rightarrow> SpentTxOut list" where
  "journal tx U = (if IsCoinBaseTx tx then [] else map (\<lambda>ti. stxo_of_utxo (the (U (PreviousOutPoint ti)))) (TxIn tx))"

text \<open>The outputs a transaction creates.\<close>

definition created :: "MsgTx \<Rightarrow> OutPoint set" where
  "created tx = {out_op tx i | i. i < length (TxOut tx) \<and> \<not> IsUnspendable (PkScript (TxOut tx ! i))}"

text \<open>What the block checks establish of a transaction: its inputs are distinct and unspent, and the
  outputs it creates are new.\<close>

definition spends_live :: "MsgTx \<Rightarrow> utxo_set \<Rightarrow> bool" where
  "spends_live tx U \<longleftrightarrow> created tx \<inter> dom U = {} \<and> (IsCoinBaseTx tx \<or>
     distinct (map PreviousOutPoint (TxIn tx)) \<and> PreviousOutPoint ` set (TxIn tx) \<subseteq> dom U)"

section \<open>The specification undoes itself\<close>

definition created_by :: "MsgTx \<Rightarrow> (nat \<times> TxOut) list \<Rightarrow> OutPoint set" where
  "created_by tx xs = (\<lambda>x. out_op tx (fst x)) ` {x \<in> set xs. \<not> IsUnspendable (PkScript (snd x))}"

lemma created_by_Nil [simp]: "created_by tx [] = {}"
  by (simp add: created_by_def)

lemma created_by_Cons [simp]:
  "created_by tx (x # xs) = (if IsUnspendable (PkScript (snd x)) then created_by tx xs else insert (out_op tx (fst x)) (created_by tx xs))"
  by (auto simp: created_by_def)

lemma created_enumerate: "created tx = created_by tx (enumerate 0 (TxOut tx))"
proof (intro set_eqI iffI)
  fix op
  assume "op \<in> created tx"
  then obtain i where "op = out_op tx i" "i < length (TxOut tx)" "\<not> IsUnspendable (PkScript (TxOut tx ! i))"
    by (auto simp: created_def)
  then show "op \<in> created_by tx (enumerate 0 (TxOut tx))"
    by (auto simp: created_by_def in_set_enumerate_eq image_iff intro!: exI [of _ i] exI [of _ "TxOut tx ! i"])
next
  fix op
  assume "op \<in> created_by tx (enumerate 0 (TxOut tx))"
  then show "op \<in> created tx" by (auto simp: created_by_def created_def in_set_enumerate_eq)
qed

lemma fold_utxo_create_other: "op \<notin> created_by tx xs \<Longrightarrow> fold (utxo_create h tx) xs U op = U op"
  by (induction xs arbitrary: U) (auto simp: utxo_create_def split: if_splits)

lemma fold_utxo_spend: "fold utxo_spend tis U op = (if op \<in> PreviousOutPoint ` set tis then None else U op)"
  by (induction tis arbitrary: U) (auto simp: utxo_spend_def)

text \<open>Undoing a transaction: what it created goes, what it spent comes back.\<close>

definition utxo_restore :: "TxIn \<times> SpentTxOut \<Rightarrow> utxo_set \<Rightarrow> utxo_set" where
  "utxo_restore = (\<lambda>(ti, stxo) U. U(PreviousOutPoint ti \<mapsto> utxo_of_stxo stxo))"

definition utxo_undo :: "MsgTx \<Rightarrow> SpentTxOut list \<Rightarrow> utxo_set \<Rightarrow> utxo_set" where
  "utxo_undo tx stxos U = fold utxo_restore (rev (zip (TxIn tx) stxos)) (\<lambda>op. if op \<in> created tx then None else U op)"

lemma fold_utxo_restore:
  assumes "\<And>ti s. (ti, s) \<in> set xs \<Longrightarrow> V (PreviousOutPoint ti) = Some (utxo_of_stxo s)"
  shows "fold utxo_restore xs U op = (if op \<in> PreviousOutPoint ` fst ` set xs then V op else U op)"
  using assms
proof (induction xs arbitrary: U)
  case (Cons x xs)
  obtain ti s where x: "x = (ti, s)" by (cases x)
  have "fold utxo_restore xs (utxo_restore x U) op =
      (if op \<in> PreviousOutPoint ` fst ` set xs then V op else utxo_restore x U op)"
    using Cons.prems by (intro Cons.IH) auto
  then show ?case using Cons.prems [of ti s] by (auto simp: x utxo_restore_def)
qed simp

lemma created_None: "spends_live tx U \<Longrightarrow> op \<in> created_by tx (enumerate 0 (TxOut tx)) \<Longrightarrow> U op = None"
  by (metis spends_live_def created_enumerate disjoint_iff domIff)

theorem utxo_undo_utxo_tx:
  assumes "spends_live tx U" and "\<not> IsCoinBaseTx tx"
  shows "utxo_undo tx (journal tx U) (utxo_tx h tx U) = U"
proof
  fix op
  let ?z = "rev (zip (TxIn tx) (journal tx U))"
  have len: "length (journal tx U) = length (TxIn tx)" using assms(2) by (simp add: journal_def)
  have v: "U (PreviousOutPoint ti) = Some (utxo_of_stxo s)" if "(ti, s) \<in> set ?z" for ti s
  proof -
    have "ti \<in> set (TxIn tx)" "s = stxo_of_utxo (the (U (PreviousOutPoint ti)))"
      using that assms(2) by (auto simp: journal_def zip_map2 zip_same_conv_map)
    then show ?thesis using assms by (auto simp: spends_live_def)
  qed
  have dom: "fst ` set ?z = set (TxIn tx)" using len by (simp flip: set_map)
  have "(if op \<in> created tx then None else utxo_tx h tx U op) = U op" if "op \<notin> PreviousOutPoint ` set (TxIn tx)"
    using that assms(2) created_None [OF assms(1), of op]
    by (auto simp: utxo_tx_def fold_utxo_create_other created_enumerate fold_utxo_spend)
  then show "utxo_undo tx (journal tx U) (utxo_tx h tx U) op = U op"
    unfolding utxo_undo_def by (subst fold_utxo_restore [of ?z U]) (use v dom in auto)
qed

lemma coinbase_undo:
  assumes "spends_live tx U" and "IsCoinBaseTx tx"
  shows "(\<lambda>op. if op \<in> created tx then None else utxo_tx h tx U op) = U"
  using assms(2) created_None [OF assms(1)]
  by (auto simp: fun_eq_iff utxo_tx_def fold_utxo_create_other created_enumerate)

section \<open>The view refines the specification\<close>

lemma overlay_upd:
  "overlay (es(op \<mapsto> e)) U = (overlay es U)(op := if IsSpent e then None else Some (utxo_of e))"
  by (auto simp: overlay_def fun_eq_iff)

lemma overlay_spendOwnOutputs:
  "overlay (entries (fold (spendOwnOutput h cb (TxHash tx)) xs view)) U =
     (\<lambda>op. if op \<in> created_by tx xs then None else overlay (entries view) U op)"
proof (induction xs arbitrary: view)
  case (Cons x xs)
  have "overlay (entries (spendOwnOutput h cb (TxHash tx) x view)) U =
      (\<lambda>op. if op \<in> created_by tx [x] then None else overlay (entries view) U op)"
    by (cases x) (auto simp: spendOwnOutput_def overlay_upd Let_def fun_eq_iff out_op_def)
  with Cons show ?case by (auto simp: fun_eq_iff)
qed simp

lemma restored_flags:
  "\<not> IsSpent \<lparr>amount = a, pkScript = pk, blockHeight = h, packedFlags = (if cb then tfModified OR tfCoinBase else tfModified)\<rparr>"
  "IsCoinBase \<lparr>amount = a, pkScript = pk, blockHeight = h, packedFlags = (if cb then tfModified OR tfCoinBase else tfModified)\<rparr> \<longleftrightarrow> cb"
  by (simp_all add: IsSpent_def IsCoinBase_def tf_defs)

lemma unspendInput_restores:
  assumes "st_Height stxo \<noteq> 0"
  shows "\<exists>view'. unspendInput parse db h ti (view, stxo # rest) = Inr (view', rest)
    \<and> overlay (entries view') U = utxo_restore (ti, stxo) (overlay (entries view) U)"
proof -
  have "overlay (es(op \<mapsto> e, op \<mapsto> e')) U = overlay (es(op \<mapsto> e')) U" for es op and e e' :: UtxoEntry
    by (simp add: overlay_upd)
  then show ?thesis
    using assms
    by (auto simp: unspendInput_def stxoOrigin_def Let_def overlay_upd restored_flags utxo_restore_def utxo_of_def
        utxo_of_stxo_def fun_eq_iff split: option.splits)
qed

lemma unspendInputs_restore:
  assumes "length tis = length stxos" and "\<forall>s \<in> set stxos. st_Height s \<noteq> 0"
  shows "\<exists>view'. fold_r (unspendInput parse db h) tis (view, stxos @ rest) = Inr (view', rest)
    \<and> overlay (entries view') U = fold utxo_restore (zip tis stxos) (overlay (entries view) U)"
  using assms
proof (induction tis stxos arbitrary: view rule: list_induct2)
  case (Cons ti tis stxo stxos)
  obtain v where v: "unspendInput parse db h ti (view, stxo # stxos @ rest) = Inr (v, stxos @ rest)"
    "overlay (entries v) U = utxo_restore (ti, stxo) (overlay (entries view) U)"
    using unspendInput_restores [of stxo parse db h ti view "stxos @ rest" U] Cons.prems by auto
  moreover obtain v' where "fold_r (unspendInput parse db h) tis (v, stxos @ rest) = Inr (v', rest)"
    "overlay (entries v') U = fold utxo_restore (zip tis stxos) (overlay (entries v) U)"
    using Cons.IH [of v] Cons.prems by auto
  ultimately show ?case by simp
qed simp

text \<open>One step of the specification: the set and the journal so far.\<close>

definition spec_connect :: "int32 \<Rightarrow> nat \<times> MsgTx \<Rightarrow> utxo_set \<times> SpentTxOut list \<Rightarrow> utxo_set \<times> SpentTxOut list" where
  "spec_connect h = (\<lambda>(i, tx) (U, stxos). (utxo_tx h tx U, stxos @ journal tx U))"

text \<open>When a step is legitimate: the first transaction is the coinbase and no other is, and no spent
  output has height zero, which only the outputs of the genesis block have.\<close>

definition connectable :: "nat \<times> MsgTx \<Rightarrow> utxo_set \<times> SpentTxOut list \<Rightarrow> bool" where
  "connectable = (\<lambda>(i, tx) (U, stxos). (i = 0 \<longleftrightarrow> IsCoinBaseTx tx) \<and> spends_live tx U
     \<and> (\<forall>s \<in> set (journal tx U). st_Height s \<noteq> 0))"

definition view_rel :: "utxo_set \<Rightarrow> UtxoViewpoint \<times> SpentTxOut list \<Rightarrow> utxo_set \<times> SpentTxOut list \<Rightarrow> bool" where
  "view_rel base = (\<lambda>(view, rst) (U, stxos). overlay (entries view) base = U \<and> rst = rev stxos)"

lemma disconnectTransaction_undoes:
  assumes "connectable (i, tx) (U, st)" and "view_rel base s (spec_connect h (i, tx) (U, st))"
  shows "\<exists>s'. disconnectTransaction parse db h' (i, tx) s = Inr s' \<and> view_rel base s' (U, st)"
proof -
  obtain view rst where s: "s = (view, rst)" by (cases s)
  have ol: "overlay (entries view) base = utxo_tx h tx U" and r: "rst = rev (journal tx U) @ rev st"
    using assms(2) by (auto simp: s view_rel_def spec_connect_def)
  have c: "(i = 0) = IsCoinBaseTx tx" "spends_live tx U" "\<forall>x \<in> set (journal tx U). st_Height x \<noteq> 0"
    using assms(1) by (auto simp: connectable_def)
  let ?v = "fold (spendOwnOutput h' (i = 0) (TxHash tx)) (enumerate 0 (TxOut tx)) view"
  have ov: "overlay (entries ?v) base = (\<lambda>op. if op \<in> created tx then None else utxo_tx h tx U op)"
    unfolding overlay_spendOwnOutputs ol created_enumerate ..
  show ?thesis
  proof (cases "i = 0")
    case True
    then have "IsCoinBaseTx tx" using c by simp
    then show ?thesis
      using coinbase_undo [OF c(2)] ov True r
      by (simp add: disconnectTransaction_def s view_rel_def journal_def)
  next
    case False
    then have ncb: "\<not> IsCoinBaseTx tx" using c by simp
    have len: "length (TxIn tx) = length (journal tx U)" using ncb by (simp add: journal_def)
    obtain v' where v': "fold_r (unspendInput parse db (TxHash tx)) (rev (TxIn tx)) (?v, rst) = Inr (v', rev st)"
      "overlay (entries v') base = fold utxo_restore (zip (rev (TxIn tx)) (rev (journal tx U))) (overlay (entries ?v) base)"
      using unspendInputs_restore [of "rev (TxIn tx)" "rev (journal tx U)" parse db "TxHash tx" ?v "rev st" base] len c(3) r
      by auto
    have "overlay (entries v') base = U"
      using utxo_undo_utxo_tx [OF c(2) ncb, of h] v'(2) len
      by (simp add: ov utxo_undo_def zip_rev)
    then show ?thesis using v'(1) False by (simp add: disconnectTransaction_def s view_rel_def)
  qed
qed

lemma new_output_flags:
  "\<not> IsSpent \<lparr>amount = v, pkScript = s, blockHeight = h, packedFlags = (tfFresh OR tfModified) OR (if cb then tfCoinBase else 0)\<rparr>"
  "IsCoinBase \<lparr>amount = v, pkScript = s, blockHeight = h, packedFlags = (tfFresh OR tfModified) OR (if cb then tfCoinBase else 0)\<rparr> \<longleftrightarrow> cb"
  by (simp_all add: IsSpent_def IsCoinBase_def tf_defs)

lemma overlay_AddTxOuts:
  "overlay (entries (AddTxOuts tx h view)) U = fold (utxo_create h tx) (enumerate 0 (TxOut tx)) (overlay (entries view) U)"
proof -
  have "overlay (entries (fold (\<lambda>(i, txOut). addTxOut \<lparr>Hash = TxHash tx, Index = of_nat i\<rparr> txOut (IsCoinBaseTx tx) h) xs v)) U =
      fold (utxo_create h tx) xs (overlay (entries v) U)" for xs v
  proof (induction xs arbitrary: v)
    case (Cons x xs)
    obtain i txOut where x: "x = (i, txOut)" by (cases x)
    have "overlay (entries (addTxOut \<lparr>Hash = TxHash tx, Index = of_nat i\<rparr> txOut (IsCoinBaseTx tx) h v)) U =
        utxo_create h tx x (overlay (entries v) U)"
      using new_output_flags [of "Value txOut" "PkScript txOut" h "IsCoinBaseTx tx"]
      by (simp add: x addTxOut_def utxo_create_def overlay_upd utxo_of_def out_op_def del: or.assoc)
    with Cons show ?case by (simp add: x)
  qed simp
  then show ?thesis by (simp add: AddTxOuts_def)
qed

lemma overlay_spendInputs:
  assumes "fold_r spendInput tis (view, stxos) = Inr (view', stxos')"
  shows "overlay (entries view') U = fold utxo_spend tis (overlay (entries view) U)"
  using assms
proof (induction tis arbitrary: view stxos)
  case (Cons ti tis)
  then obtain v s where s: "spendInput ti (view, stxos) = Inr (v, s)" "fold_r spendInput tis (v, s) = Inr (view', stxos')"
    by (auto simp: bind_r_eq_Inr)
  then have "overlay (entries v) U = utxo_spend ti (overlay (entries view) U)"
    by (auto simp: spendInput_def overlay_upd utxo_spend_def split: option.splits)
  then show ?case using Cons.IH [OF s(2)] by simp
qed simp

lemma stxo_of_live: "\<not> IsSpent e \<Longrightarrow> stxo_of e = stxo_of_utxo (utxo_of e)"
  by (simp add: stxo_of_def stxo_of_utxo_def utxo_of_def)

lemma spendInputs_journal:
  assumes "fold_r spendInput tis (view, stxos) = Inr (view', stxos')" and "distinct (map PreviousOutPoint tis)"
    and "PreviousOutPoint ` set tis \<subseteq> dom (overlay (entries view) U)"
  shows "stxos' = stxos @ map (\<lambda>ti. stxo_of_utxo (the (overlay (entries view) U (PreviousOutPoint ti)))) tis"
proof -
  have there: "entries view (PreviousOutPoint ti) \<noteq> None" if "ti \<in> set tis" for ti
    using that assms(1,2)
  proof (induction tis arbitrary: view stxos)
    case (Cons t tis)
    then obtain e v s where v: "entries view (PreviousOutPoint t) = Some e"
      "v = view\<lparr>entries := (entries view)(PreviousOutPoint t \<mapsto> Spend e)\<rparr>" "fold_r spendInput tis (v, s) = Inr (view', stxos')"
      by (auto simp: bind_r_eq_Inr spendInput_def [of t] split: option.splits)
    show ?case
    proof (cases "ti = t")
      case False
      then have "ti \<in> set tis" using Cons.prems by simp
      then have "PreviousOutPoint ti \<noteq> PreviousOutPoint t" using Cons.prems(3) by (auto simp: image_iff)
      then show ?thesis using Cons.IH [OF _ v(3)] Cons.prems(3) \<open>ti \<in> set tis\<close> v(2) by simp
    qed (use v in simp)
  qed simp
  have "stxo_of (the (entries view (PreviousOutPoint ti))) = stxo_of_utxo (the (overlay (entries view) U (PreviousOutPoint ti)))"
    if "ti \<in> set tis" for ti
    using there [OF that] assms(3) that
    by (auto simp: overlay_def stxo_of_live image_subset_iff domIff split: option.splits if_splits)
  then show ?thesis using spendInputs_stxos [OF assms(2,1)] by simp
qed

theorem connectTransaction_refines:
  assumes "connectTransaction tx h (view, st) = Inr (view', st')" and "spends_live tx (overlay (entries view) U)"
  shows "(overlay (entries view') U, st') = spec_connect h (i, tx) (overlay (entries view) U, st)"
proof (cases "IsCoinBaseTx tx")
  case True
  then show ?thesis
    using assms(1) by (auto simp: connectTransaction_def spec_connect_def utxo_tx_def journal_def overlay_AddTxOuts)
next
  case False
  then obtain v where v: "fold_r spendInput (TxIn tx) (view, st) = Inr (v, st')" "view' = AddTxOuts tx h v"
    using assms(1) by (auto simp: connectTransaction_def bind_r_eq_Inr)
  then show ?thesis
    using False assms(2) overlay_spendInputs [OF v(1)] spendInputs_journal [OF v(1), of U]
    by (auto simp: spec_connect_def utxo_tx_def journal_def overlay_AddTxOuts spends_live_def)
qed

definition block_connectable :: "Block \<Rightarrow> utxo_set \<Rightarrow> bool" where
  "block_connectable block U \<longleftrightarrow>
     fold_pre connectable (spec_connect (Height block)) (enumerate 0 (Transactions block)) (U, [])"

lemma connectTxs_refine:
  assumes "fold_r (\<lambda>tx. connectTransaction tx h) txs (view, st) = Inr (view', st')"
    and "fold_pre connectable (spec_connect h) (enumerate i txs) (overlay (entries view) U, st)"
  shows "(overlay (entries view') U, st') = fold (spec_connect h) (enumerate i txs) (overlay (entries view) U, st)"
  using assms
proof (induction txs arbitrary: view st i)
  case (Cons tx txs)
  obtain v s where v: "connectTransaction tx h (view, st) = Inr (v, s)"
    "fold_r (\<lambda>tx. connectTransaction tx h) txs (v, s) = Inr (view', st')"
    using Cons.prems(1) by (auto simp: bind_r_eq_Inr)
  have "(overlay (entries v) U, s) = spec_connect h (i, tx) (overlay (entries view) U, st)"
    using connectTransaction_refines [OF v(1)] Cons.prems(2) by (simp add: connectable_def)
  then show ?case using Cons.IH [OF v(2), of "Suc i"] Cons.prems(2) by simp
qed simp

lemma fst_fold_spec_connect: "fst (fold (spec_connect h) (enumerate i txs) (U, st)) = fold (utxo_tx h) txs U"
  by (induction txs arbitrary: i U st) (simp_all add: spec_connect_def)

lemma length_fold_spec_connect:
  "fold_pre connectable (spec_connect h) (enumerate i txs) (U, st) \<Longrightarrow>
   length (snd (fold (spec_connect h) (enumerate i txs) (U, st))) = length st +
     sum_list (map (\<lambda>tx. length (TxIn tx)) (if i = 0 then tl txs else txs))"
proof (induction txs arbitrary: i U st)
  case (Cons tx txs)
  then have "fold_pre connectable (spec_connect h) (enumerate (Suc i) txs) (utxo_tx h tx U, st @ journal tx U)"
    "i = 0 \<longleftrightarrow> IsCoinBaseTx tx"
    by (auto simp: spec_connect_def connectable_def)
  then show ?case using Cons.IH [of "Suc i"] by (simp add: spec_connect_def journal_def)
qed simp

theorem disconnect_connect_view:
  assumes "connectTransactions block (view, []) = Inr (view', stxos)"
    and "block_connectable block (overlay (entries view) U)" and "Transactions block \<noteq> []"
    and "overlay (entries w) U' = overlay (entries view') U"
  shows "overlay (entries view') U = utxo_block block (overlay (entries view) U)
    \<and> (\<exists>w'. disconnectTransactions parse db block stxos w = Inr w'
        \<and> overlay (entries w') U' = overlay (entries view) U \<and> bestHash w' = PrevBlock (Header block))"
proof -
  let ?h = "Height block" and ?txs = "Transactions block" and ?U = "overlay (entries view) U"
  obtain v where v: "fold_r (\<lambda>tx. connectTransaction tx ?h) ?txs (view, []) = Inr (v, stxos)"
    "view' = v\<lparr>bestHash := BlockHash block\<rparr>"
    using assms(1) by (auto simp: connectTransactions_def bind_r_eq_Inr)
  have pre: "fold_pre connectable (spec_connect ?h) (enumerate 0 ?txs) (?U, [])"
    using assms(2) by (simp add: block_connectable_def)
  have f: "(overlay (entries view') U, stxos) = fold (spec_connect ?h) (enumerate 0 ?txs) (?U, [])"
    using connectTxs_refine [OF v(1) pre] v(2) by simp
  have len: "length stxos = countSpentOutputs block"
    using length_fold_spec_connect [OF pre] by (simp add: countSpentOutputs_def flip: f)
  have rel: "view_rel U' (w, rev stxos) (fold (spec_connect ?h) (enumerate 0 ?txs) (?U, []))"
    using assms(4) by (simp add: view_rel_def flip: f)
  have "\<exists>s'. fold_r (disconnectTransaction parse db ?h) (rev (enumerate 0 ?txs)) (w, rev stxos) = Inr s' \<and> view_rel U' s' (?U, [])"
  proof (rule fold_r_undo [where R = "view_rel U'", OF _ pre rel])
    fix x s a
    assume "connectable x a" and "view_rel U' s (spec_connect ?h x a)"
    then show "\<exists>s'. disconnectTransaction parse db ?h x s = Inr s' \<and> view_rel U' s' a"
      using disconnectTransaction_undoes [of "fst x" "snd x" "fst a" "snd a" U' s ?h parse db ?h] by simp
  qed
  then obtain w' where "fold_r (disconnectTransaction parse db ?h) (rev (enumerate 0 ?txs)) (w, rev stxos) = Inr (w', [])"
    "overlay (entries w') U' = ?U"
    by (auto simp: view_rel_def)
  moreover have "overlay (entries view') U = utxo_block block ?U"
    using arg_cong [OF f, of fst] by (simp add: fst_fold_spec_connect utxo_block_def)
  ultimately show ?thesis
    using len assms(3) by (simp add: disconnectTransactions_def)
qed

section \<open>Legacy journal entries\<close>

text \<open>A view in which every entry for an output of the transaction has the height of the block being
  disconnected and no coinbase flag; a view with no such entries is one.  A block cannot hold more than
  \<open>MaxOutputsPerBlock\<close> outputs, and the search stops there.\<close>

definition own_entries_at :: "int32 \<Rightarrow> MsgTx \<Rightarrow> UtxoViewpoint \<Rightarrow> bool" where
  "own_entries_at h tx view \<longleftrightarrow>
     (\<forall>k < MaxOutputsPerBlock. \<forall>e. entries view (out_op tx k) = Some e \<longrightarrow> blockHeight e = h \<and> \<not> IsCoinBase e)"

text \<open>No input refers to an output of the transaction itself.\<close>

definition not_own :: "MsgTx \<Rightarrow> OutPoint \<Rightarrow> bool" where
  "not_own tx op \<longleftrightarrow> (\<forall>k < MaxOutputsPerBlock. op \<noteq> out_op tx k)"

text \<open>What restoring an input leaves in the view.\<close>

definition restored_from :: "int32 \<Rightarrow> SpentTxOut \<Rightarrow> UtxoEntry" where
  "restored_from h stxo =
     \<lparr>amount = st_Amount stxo, pkScript = st_PkScript stxo,
      blockHeight = (if st_Height stxo = 0 then h else st_Height stxo),
      packedFlags = (if st_Height stxo \<noteq> 0 \<and> st_IsCoinBase stxo then tfModified OR tfCoinBase else tfModified)\<rparr>"

lemma Spend_keeps [simp]: "blockHeight (Spend e) = blockHeight e" "IsCoinBase (Spend e) = IsCoinBase e"
  by (simp_all add: Spend_def IsCoinBase_def tf_defs bit.conj_disj_distrib2)

lemma not_IsCoinBase_0 [simp]: "\<not> IsCoinBase \<lparr>amount = a, pkScript = pk, blockHeight = h, packedFlags = 0\<rparr>"
  by (simp add: IsCoinBase_def tf_defs)

lemma own_entries_spendOwnOutputs:
  "own_entries_at h tx view \<Longrightarrow> own_entries_at h tx (fold (spendOwnOutput h False (TxHash tx)) xs view)"
proof (induction xs arbitrary: view)
  case (Cons x xs)
  have "own_entries_at h tx (spendOwnOutput h False (TxHash tx) x view)"
    using Cons.prems by (cases x) (auto simp: own_entries_at_def out_op_def spendOwnOutput_def Let_def split: option.splits)
  from Cons.IH [OF this] show ?case by simp
qed simp

lemma entries_spendOwnOutputs_mono:
  "entries view op \<noteq> None \<Longrightarrow> entries (fold (spendOwnOutput h cb g) xs view) op \<noteq> None"
proof (induction xs arbitrary: view)
  case (Cons x xs)
  have "entries (spendOwnOutput h cb g x view) op \<noteq> None"
    using Cons.prems by (cases x) (auto simp: spendOwnOutput_def Let_def)
  from Cons.IH [OF this] show ?case by simp
qed simp

lemma entries_spendOwnOutputs:
  assumes "(k, out) \<in> set xs" and "\<not> IsUnspendable (PkScript out)"
  shows "entries (fold (spendOwnOutput h cb g) xs view) \<lparr>Hash = g, Index = of_nat k\<rparr> \<noteq> None"
  using assms(1)
proof (induction xs arbitrary: view)
  case (Cons x xs)
  show ?case
  proof (cases "x = (k, out)")
    case True
    have "entries (spendOwnOutput h cb g x view) \<lparr>Hash = g, Index = of_nat k\<rparr> \<noteq> None"
      using assms(2) by (simp add: True spendOwnOutput_def Let_def)
    then show ?thesis using entries_spendOwnOutputs_mono by simp
  qed (use Cons in auto)
qed simp

lemma fold_spendOwnOutputs_unspendable:
  "\<forall>x \<in> set xs. IsUnspendable (PkScript (snd x)) \<Longrightarrow> fold (spendOwnOutput h cb g) xs view = view"
proof (induction xs)
  case (Cons x xs)
  have "spendOwnOutput h cb g x view = view"
    using Cons.prems by (cases x) (simp add: spendOwnOutput_def)
  with Cons show ?case by simp
qed simp

text \<open>The search for any entry with a hash.\<close>

lemma findEntry_hit:
  assumes "entries view \<lparr>Hash = g, Index = of_nat k\<rparr> \<noteq> None" and "idx \<le> k" and "k < idx + n"
  shows "\<exists>i e. findEntry view g idx n = Some e \<and> i < idx + n \<and> entries view \<lparr>Hash = g, Index = of_nat i\<rparr> = Some e"
  using assms
proof (induction n arbitrary: idx)
  case (Suc n)
  show ?case
  proof (cases "entries view \<lparr>Hash = g, Index = of_nat idx\<rparr>")
    case None
    then have "idx \<noteq> k" using Suc.prems(1) by auto
    with Suc.IH [of "Suc idx"] Suc.prems None show ?thesis by (simp add: LookupEntry_def)
  next
    case (Some e)
    then show ?thesis by (auto simp: LookupEntry_def intro!: exI [of _ idx])
  qed
qed simp

lemma findEntry_miss:
  "(\<And>i. i < idx + n \<Longrightarrow> entries view \<lparr>Hash = g, Index = of_nat i\<rparr> = None) \<Longrightarrow> findEntry view g idx n = None"
  by (induction n arbitrary: idx) (simp_all add: LookupEntry_def)

lemma stxoOrigin_own:
  assumes "own_entries_at h tx view" and "entries view (out_op tx k) \<noteq> None" and "k < MaxOutputsPerBlock"
  shows "stxoOrigin parse db (TxHash tx) stxo view =
    Inr (if st_Height stxo = 0 then (h, False) else (st_Height stxo, st_IsCoinBase stxo))"
proof -
  obtain i e where "findEntry view (TxHash tx) 0 MaxOutputsPerBlock = Some e"
    and e: "i < MaxOutputsPerBlock" "entries view (out_op tx i) = Some e"
    using findEntry_hit [of view "TxHash tx" k 0 MaxOutputsPerBlock] assms(2,3) by (auto simp: out_op_def)
  moreover have "blockHeight e = h \<and> \<not> IsCoinBase e" using assms(1) e unfolding own_entries_at_def by blast
  ultimately show ?thesis by (simp add: stxoOrigin_def fetchEntryByHash_def)
qed

text \<open>The entry of the input is created before the search.\<close>

definition ensure_entry :: "OutPoint \<Rightarrow> UtxoViewpoint \<Rightarrow> UtxoViewpoint" where
  "ensure_entry op view = (case entries view op of Some _ \<Rightarrow> view
     | None \<Rightarrow> view\<lparr>entries := (entries view)(op \<mapsto> \<lparr>amount = 0, pkScript = [], blockHeight = 0, packedFlags = 0\<rparr>)\<rparr>)"

lemma entries_ensure_other: "op' \<noteq> op \<Longrightarrow> entries (ensure_entry op view) op' = entries view op'"
  by (simp add: ensure_entry_def split: option.split)

lemma entries_ensure_own:
  "not_own tx op \<Longrightarrow> k < MaxOutputsPerBlock \<Longrightarrow> entries (ensure_entry op view) (out_op tx k) = entries view (out_op tx k)"
  unfolding not_own_def by (rule entries_ensure_other) auto

lemma unspendInput_origin:
  assumes "stxoOrigin parse db g stxo (ensure_entry (PreviousOutPoint ti) view) = Inr (height, cb)"
  shows "\<exists>view'. unspendInput parse db g ti (view, stxo # rest) = Inr (view', rest)
    \<and> entries view' = (entries view)(PreviousOutPoint ti \<mapsto>
        \<lparr>amount = st_Amount stxo, pkScript = st_PkScript stxo, blockHeight = height,
         packedFlags = (if cb then tfModified OR tfCoinBase else tfModified)\<rparr>)"
  using assms by (simp add: unspendInput_def Let_def fun_eq_iff entries_ensure_other flip: ensure_entry_def)

lemma unspendInput_own:
  assumes "own_entries_at h tx view" and "entries view (out_op tx k) \<noteq> None" and "k < MaxOutputsPerBlock"
    and "not_own tx (PreviousOutPoint ti)"
  shows "\<exists>view'. unspendInput parse db (TxHash tx) ti (view, stxo # rest) = Inr (view', rest)
    \<and> entries view' = (entries view)(PreviousOutPoint ti \<mapsto> restored_from h stxo)"
proof -
  let ?w = "ensure_entry (PreviousOutPoint ti) view"
  have "own_entries_at h tx ?w" and "entries ?w (out_op tx k) \<noteq> None"
    using assms(1,2,3) by (simp_all add: own_entries_at_def entries_ensure_own [OF assms(4)])
  from stxoOrigin_own [OF this assms(3)] show ?thesis
    using unspendInput_origin [of parse db "TxHash tx" stxo ti view h False rest]
      unspendInput_origin [of parse db "TxHash tx" stxo ti view "st_Height stxo" "st_IsCoinBase stxo" rest]
    by (cases "st_Height stxo = 0") (simp_all add: restored_from_def)
qed

lemma unspendInputs_own:
  assumes "length tis = length stxos" and "own_entries_at h tx view" and "entries view (out_op tx k) \<noteq> None"
    and "k < MaxOutputsPerBlock" and "\<forall>ti \<in> set tis. not_own tx (PreviousOutPoint ti)"
    and "distinct (map PreviousOutPoint tis)"
  shows "\<exists>view'. fold_r (unspendInput parse db (TxHash tx)) tis (view, stxos @ rest) = Inr (view', rest)
    \<and> (\<forall>op. op \<notin> PreviousOutPoint ` set tis \<longrightarrow> entries view' op = entries view op)
    \<and> (\<forall>(ti, stxo) \<in> set (zip tis stxos). entries view' (PreviousOutPoint ti) = Some (restored_from h stxo))"
  using assms
proof (induction tis stxos arbitrary: view rule: list_induct2)
  case (Cons ti tis stxo stxos)
  obtain v where v: "unspendInput parse db (TxHash tx) ti (view, stxo # stxos @ rest) = Inr (v, stxos @ rest)"
    "entries v = (entries view)(PreviousOutPoint ti \<mapsto> restored_from h stxo)"
    using unspendInput_own [OF Cons.prems(1,2,3), of ti parse db stxo "stxos @ rest"] Cons.prems(4) by auto
  have "own_entries_at h tx v" and "entries v (out_op tx k) \<noteq> None"
    using Cons.prems(1,2,3,4) by (auto simp: own_entries_at_def not_own_def v(2))
  from Cons.IH [OF this Cons.prems(3)] Cons.prems(4,5) obtain v' where
    "fold_r (unspendInput parse db (TxHash tx)) tis (v, stxos @ rest) = Inr (v', rest)"
    and o: "\<forall>op. op \<notin> PreviousOutPoint ` set tis \<longrightarrow> entries v' op = entries v op"
    and r: "\<forall>(ti, stxo) \<in> set (zip tis stxos). entries v' (PreviousOutPoint ti) = Some (restored_from h stxo)"
    by auto
  moreover have "entries v' (PreviousOutPoint ti) = Some (restored_from h stxo)"
    using o Cons.prems(5) by (simp add: v(2))
  ultimately show ?case using v by auto
qed simp

lemma restored_from_simps [simp]:
  "amount (restored_from h stxo) = st_Amount stxo" "pkScript (restored_from h stxo) = st_PkScript stxo"
  "blockHeight (restored_from h stxo) = (if st_Height stxo = 0 then h else st_Height stxo)"
  "IsCoinBase (restored_from h stxo) \<longleftrightarrow> st_Height stxo \<noteq> 0 \<and> st_IsCoinBase stxo"
  "\<not> IsSpent (restored_from h stxo)"
  by (simp_all only: restored_from_def UtxoEntry.simps restored_flags not_False_eq_True)

text \<open>With a spendable output the restored entries take the height of the block being disconnected.\<close>

lemma legacy_disconnect:
  assumes "i \<noteq> 0" and "length stxos = length (TxIn tx)" and "distinct (map PreviousOutPoint (TxIn tx))"
    and "\<forall>ti \<in> set (TxIn tx). not_own tx (PreviousOutPoint ti)" and "own_entries_at h tx view"
    and "k < length (TxOut tx)" and "k < MaxOutputsPerBlock" and "\<not> IsUnspendable (PkScript (TxOut tx ! k))"
  shows "\<exists>view'. disconnectTransaction parse db h (i, tx) (view, rev stxos @ rest) = Inr (view', rest)
    \<and> (\<forall>j < length (TxIn tx). entries view' (PreviousOutPoint (TxIn tx ! j)) = Some (restored_from h (stxos ! j)))"
proof -
  let ?v = "fold (spendOwnOutput h False (TxHash tx)) (enumerate 0 (TxOut tx)) view"
  have v: "own_entries_at h tx ?v" by (rule own_entries_spendOwnOutputs [OF assms(5)])
  have "(k, TxOut tx ! k) \<in> set (enumerate 0 (TxOut tx))" using assms(6) by (simp add: in_set_enumerate_eq)
  from entries_spendOwnOutputs [OF this assms(8)] have k: "entries ?v (out_op tx k) \<noteq> None" by (simp add: out_op_def)
  obtain view' where d: "fold_r (unspendInput parse db (TxHash tx)) (rev (TxIn tx)) (?v, rev stxos @ rest) = Inr (view', rest)"
    and r: "\<forall>(ti, stxo) \<in> set (zip (rev (TxIn tx)) (rev stxos)). entries view' (PreviousOutPoint ti) = Some (restored_from h stxo)"
    using unspendInputs_own [OF _ v k assms(7), of "rev (TxIn tx)" "rev stxos" parse db rest] assms(2,3,4)
    by (auto simp flip: rev_map)
  have "(TxIn tx ! j, stxos ! j) \<in> set (zip (rev (TxIn tx)) (rev stxos))" if "j < length (TxIn tx)" for j
    using that assms(2) by (auto simp: zip_rev set_zip)
  with r have "\<forall>j < length (TxIn tx). entries view' (PreviousOutPoint (TxIn tx ! j)) = Some (restored_from h (stxos ! j))"
    by blast
  with d assms(1) show ?thesis by (auto simp: disconnectTransaction_def Let_def)
qed

text \<open>Without one there is nothing to find and the block cannot be disconnected.\<close>

lemma unspendInputs_nothing:
  assumes "length tis = length stxos" and "\<And>k. k < MaxOutputsPerBlock \<Longrightarrow> entries view (out_op tx k) = None"
    and "dbFetchUtxoEntryByHash parse (TxHash tx) db = Inr None"
    and "\<forall>ti \<in> set tis. not_own tx (PreviousOutPoint ti)" and "\<exists>stxo \<in> set stxos. st_Height stxo = 0"
  shows "fold_r (unspendInput parse db (TxHash tx)) tis (view, stxos @ rest) = Inl ErrIoAssert"
  using assms
proof (induction tis stxos arbitrary: view rule: list_induct2)
  case (Cons ti tis stxo stxos)
  let ?w = "ensure_entry (PreviousOutPoint ti) view"
  have no: "not_own tx (PreviousOutPoint ti)" using Cons.prems(3) by simp
  have w: "entries ?w (out_op tx k) = None" if "k < MaxOutputsPerBlock" for k
    using Cons.prems(1) that by (simp add: entries_ensure_own [OF no])
  show ?case
  proof (cases "st_Height stxo = 0")
    case True
    then have "stxoOrigin parse db (TxHash tx) stxo ?w = Inl ErrIoAssert"
      using Cons.prems(2) w by (simp add: stxoOrigin_def fetchEntryByHash_def findEntry_miss out_op_def)
    then show ?thesis by (simp add: unspendInput_def Let_def flip: ensure_entry_def)
  next
    case False
    then have "stxoOrigin parse db (TxHash tx) stxo ?w = Inr (st_Height stxo, st_IsCoinBase stxo)"
      by (simp add: stxoOrigin_def)
    from unspendInput_origin [OF this, of "stxos @ rest"] obtain v where
      v: "unspendInput parse db (TxHash tx) ti (view, stxo # stxos @ rest) = Inr (v, stxos @ rest)"
      and e: "\<And>op. op \<noteq> PreviousOutPoint ti \<Longrightarrow> entries v op = entries view op"
      by auto
    have "entries v (out_op tx k) = None" if "k < MaxOutputsPerBlock" for k
      using e [of "out_op tx k"] no Cons.prems(1) that by (auto simp: not_own_def)
    with Cons.IH [of v] Cons.prems False v show ?thesis by auto
  qed
qed simp

lemma legacy_disconnect_fails:
  assumes "i \<noteq> 0" and "length stxos = length (TxIn tx)"
    and "\<forall>ti \<in> set (TxIn tx). not_own tx (PreviousOutPoint ti)"
    and "\<And>k. k < MaxOutputsPerBlock \<Longrightarrow> entries view (out_op tx k) = None"
    and "dbFetchUtxoEntryByHash parse (TxHash tx) db = Inr None"
    and "\<forall>out \<in> set (TxOut tx). IsUnspendable (PkScript out)" and "\<exists>stxo \<in> set stxos. st_Height stxo = 0"
  shows "disconnectTransaction parse db h (i, tx) (view, rev stxos @ rest) = Inl ErrIoAssert"
proof -
  have "fold (spendOwnOutput h False (TxHash tx)) (enumerate 0 (TxOut tx)) view = view"
    using assms(6) by (intro fold_spendOwnOutputs_unspendable) (auto simp: in_set_enumerate_eq)
  then show ?thesis
    using unspendInputs_nothing [of "rev (TxIn tx)" "rev stxos" view tx parse db rest] assms
    by (simp add: disconnectTransaction_def Let_def)
qed

lemma connectTransactions_journal_length:
  assumes "connectTransactions block (view, []) = Inr (view', stxos)"
    and "block_connectable block (overlay (entries view) U)" and "Transactions block = cb # txs"
  shows "length stxos = sum_list (map (\<lambda>tx. length (TxIn tx)) txs)"
proof -
  obtain w' where "disconnectTransactions undefined undefined block stxos view' = Inr w'"
    using disconnect_connect_view [OF assms(1,2) _ refl] assms(3) by auto
  then show ?thesis using assms(3) by (auto simp: disconnectTransactions_def countSpentOutputs_def split: if_splits)
qed

end
