(* ===== verification/Utxo_Cache.thy ===== *)
theory Utxo_Cache
  imports Utxo_Set "HOL-Library.AList"
begin

text \<open>
  The UTXO cache (\<open>blockchain/utxocache.go\<close>) and its memory estimates (\<open>blockchain/sizehelper.go\<close>).

  The cache keeps entries in a slice of maps, marks them fresh when the database has never seen them,
  and writes the modified ones when it is flushed.  Entries are pointers in the source: marking an
  entry spent changes the one in the cache, which the model does by storing it again.  A cached
  \<open>nil\<close> says that the database has no such output.  The iteration order of a map is a parameter,
  as is the time since the last flush.
\<close>

unbundle bit_operations_syntax

section \<open>Memory estimates\<close>

definition outpointSize :: nat where "outpointSize = 36"
definition uint64Size :: nat where "uint64Size = 8"
definition bucketSize :: nat where "bucketSize = 16 + uint64Size * outpointSize + uint64Size * uint64Size"
definition baseEntrySize :: nat where "baseEntrySize = 40"
definition pubKeyHashLen :: nat where "pubKeyHashLen = 25"
definition avgEntrySize :: nat where "avgEntrySize = baseEntrySize + (pubKeyHashLen + 7)"
definition maxAlloc :: u64 where "maxAlloc = 2 ^ 40"

definition class_to_size :: "nat list" where
  "class_to_size = [
     0, 8, 16, 24, 32, 48, 64, 80, 96, 112, 128, 144, 160, 176, 192, 208, 224, 240, 256, 288, 320,
     352, 384, 416, 448, 480, 512, 576, 640, 704, 768, 896, 1024, 1152, 1280, 1408, 1536, 1792,
     2048, 2304, 2688, 3072, 3200, 3456, 4096, 4864, 5376, 6144, 6528, 6784, 6912, 8192, 9472,
     9728, 10240, 10880, 12288, 13568, 14336, 16384, 18432, 19072, 20480, 21760, 24576, 27264,
     28672, 32768]"

definition size_to_class8 :: "nat list" where
  "size_to_class8 = [
     0, 1, 2, 3, 4, 5, 5, 6, 6, 7, 7, 8, 8, 9, 9, 10, 10, 11, 11, 12, 12, 13, 13, 14, 14, 15, 15,
     16, 16, 17, 17, 18, 18, 19, 19, 19, 19, 20, 20, 20, 20, 21, 21, 21, 21, 22, 22, 22, 22, 23,
     23, 23, 23, 24, 24, 24, 24, 25, 25, 25, 25, 26, 26, 26, 26, 27, 27, 27, 27, 27, 27, 27, 27,
     28, 28, 28, 28, 28, 28, 28, 28, 29, 29, 29, 29, 29, 29, 29, 29, 30, 30, 30, 30, 30, 30, 30,
     30, 31, 31, 31, 31, 31, 31, 31, 31, 31, 31, 31, 31, 31, 31, 31, 31, 32, 32, 32, 32, 32, 32,
     32, 32, 32, 32, 32, 32, 32, 32, 32, 32]"

definition size_to_class128 :: "nat list" where
  "size_to_class128 = [
     32, 33, 34, 35, 36, 37, 37, 38, 38, 39, 39, 40, 40, 40, 41, 41, 41, 42, 43, 43, 44, 44, 44,
     44, 44, 45, 45, 45, 45, 45, 45, 46, 46, 46, 46, 47, 47, 47, 47, 47, 47, 48, 48, 48, 49, 49,
     50, 51, 51, 51, 51, 51, 51, 51, 51, 51, 51, 52, 52, 52, 52, 52, 52, 52, 52, 52, 52, 53, 53,
     54, 54, 54, 54, 55, 55, 55, 55, 55, 56, 56, 56, 56, 56, 56, 56, 56, 56, 56, 56, 57, 57, 57,
     57, 57, 57, 57, 57, 57, 57, 58, 58, 58, 58, 58, 58, 59, 59, 59, 59, 59, 59, 59, 59, 59, 59,
     59, 59, 59, 59, 59, 59, 60, 60, 60, 60, 60, 60, 60, 60, 60, 60, 60, 60, 60, 60, 60, 60, 61,
     61, 61, 61, 61, 62, 62, 62, 62, 62, 62, 62, 62, 62, 62, 62, 63, 63, 63, 63, 63, 63, 63, 63,
     63, 63, 64, 64, 64, 64, 64, 64, 64, 64, 64, 64, 64, 64, 64, 64, 64, 64, 64, 64, 64, 64, 64,
     64, 65, 65, 65, 65, 65, 65, 65, 65, 65, 65, 65, 65, 65, 65, 65, 65, 65, 65, 65, 65, 65, 66,
     66, 66, 66, 66, 66, 66, 66, 66, 66, 66, 67, 67, 67, 67, 67, 67, 67, 67, 67, 67, 67, 67, 67,
     67, 67, 67, 67, 67, 67, 67, 67, 67, 67, 67, 67, 67, 67, 67, 67, 67, 67, 67]"

definition mulUintptr :: "u64 \<Rightarrow> u64 \<Rightarrow> u64 \<times> bool" where
  "mulUintptr a b =
     (if a OR b < 2 ^ 32 \<or> a = 0 then (a * b, False) else (a * b, b > (- 1) div a))"

definition divRoundUp :: "u64 \<Rightarrow> u64 \<Rightarrow> u64" where
  "divRoundUp n a = (n + a - 1) div a"

definition alignUp :: "u64 \<Rightarrow> u64 \<Rightarrow> u64" where
  "alignUp n a = (n + a - 1) AND NOT (a - 1)"

definition bucketShift :: "byte \<Rightarrow> u64" where
  "bucketShift b = push_bit (unat (b AND 63)) 1"

definition overLoadFactor :: "int64 \<Rightarrow> byte \<Rightarrow> bool" where
  "overLoadFactor cnt B \<longleftrightarrow> cnt > 8 \<and> (of_int cnt :: u64) > 13 * (bucketShift B div 2)"

definition roundupsize :: "u64 \<Rightarrow> u64" where
  "roundupsize sz =
     (if sz < 32768 then
        (if sz \<le> 1024 - 8 then of_nat (class_to_size ! (size_to_class8 ! unat (divRoundUp sz 8)))
         else of_nat (class_to_size ! (size_to_class128 ! unat (divRoundUp (sz - 1024) 128))))
      else if sz + 8192 < sz then sz
      else alignUp sz 8192)"

text \<open>The loop that finds the size parameter; the bound on the hint makes 64 rounds enough.\<close>

fun sizeParameter :: "int64 \<Rightarrow> nat \<Rightarrow> byte \<Rightarrow> byte option" where
  "sizeParameter hint 0 B = None"
| "sizeParameter hint (Suc n) B = (if overLoadFactor hint B then sizeParameter hint n (B + 1) else Some B)"

definition calculateRoughMapSize :: "int64 \<Rightarrow> u64 \<Rightarrow> int64" where
  "calculateRoughMapSize hint bktSize =
     (case mulUintptr (of_int hint) bktSize of (mem, overflow) \<Rightarrow>
        let hint = (if overflow \<or> mem > maxAlloc then 0 else hint) in
        case sizeParameter hint 64 0 of None \<Rightarrow> 0 | Some B \<Rightarrow>
          let base = bucketShift B;
              numBuckets = (if B \<ge> 4 then
                  let numBuckets = base + bucketShift (B - 4); sz = bktSize * numBuckets; up = roundupsize sz
                  in if up \<noteq> sz then up div bktSize else numBuckets
                else base);
              total = fst (mulUintptr bktSize numBuckets);
              total = (if base \<noteq> numBuckets then total + 24 else total)
          in sint (total + 48))"

function floor_log2 :: "nat \<Rightarrow> nat" where
  "floor_log2 n = (if n < 2 then 0 else Suc (floor_log2 (n div 2)))"
  by pat_completeness auto

termination
  by (relation "measure id") simp_all

declare floor_log2.simps [simp del]

text \<open>The logarithm of a number that is not positive converts to zero.\<close>

definition calculateMinEntries :: "int64 \<Rightarrow> int64 \<Rightarrow> int64" where
  "calculateMinEntries totalBytes bktSize =
     (let totalBytes = wrap64 (totalBytes - 48);
          numBuckets = go_quot totalBytes bktSize;
          B = (of_nat (floor_log2 (nat numBuckets)) :: byte)
      in if B < 4 then (if B = 0 then 0 else if B = 1 then 9 else if B = 2 then 14 else 27)
         else sint (13 * (bucketShift (B - 1) div 2)) + 1)"

section \<open>The slice of maps\<close>

type_synonym entry_map = "(OutPoint \<times> UtxoEntry option) list"

record mapSlice =
  maps :: "entry_map list"
  maxEntries :: "int64 list"
  ms_maxTotalMemoryUsage :: u64

definition ms_length :: "mapSlice \<Rightarrow> nat" where
  "ms_length ms = sum_list (map length (maps ms))"

definition ms_size :: "mapSlice \<Rightarrow> int64" where
  "ms_size ms = wrap64 (sum_list (map (\<lambda>num. calculateRoughMapSize num (of_nat bucketSize)) (maxEntries ms)))"

fun get_from :: "OutPoint \<Rightarrow> entry_map list \<Rightarrow> UtxoEntry option option" where
  "get_from op [] = None"
| "get_from op (m # ms) = (case map_of m op of Some entry \<Rightarrow> Some entry | None \<Rightarrow> get_from op ms)"

definition ms_get :: "OutPoint \<Rightarrow> mapSlice \<Rightarrow> UtxoEntry option option" where
  "ms_get op ms = get_from op (maps ms)"

text \<open>The first map that has the key.\<close>

fun replace_in :: "OutPoint \<Rightarrow> UtxoEntry option \<Rightarrow> entry_map list \<Rightarrow> entry_map list option" where
  "replace_in op entry [] = None"
| "replace_in op entry (m # ms) =
     (if map_of m op \<noteq> None then Some (AList.update op entry m # ms)
      else map_option (\<lambda>ms. m # ms) (replace_in op entry ms))"

text \<open>The first map that is not full.\<close>

fun insert_in :: "OutPoint \<Rightarrow> UtxoEntry option \<Rightarrow> entry_map list \<Rightarrow> int64 list \<Rightarrow> entry_map list option" where
  "insert_in op entry (m # ms) (maxNum # maxNums) =
     (if int (length m) \<ge> maxNum then map_option (\<lambda>ms. m # ms) (insert_in op entry ms maxNums)
      else Some (AList.update op entry m # ms))"
| "insert_in op entry _ _ = None"

definition makeNewMap :: "u64 \<Rightarrow> mapSlice \<Rightarrow> mapSlice" where
  "makeNewMap totalEntryMemory ms =
     (let memSize = fold (\<lambda>maxNum memSize. memSize - of_int (calculateRoughMapSize maxNum (of_nat bucketSize)))
            (maxEntries ms) (ms_maxTotalMemoryUsage ms - totalEntryMemory);
          numMaxElements = calculateMinEntries (sint memSize) (int (bucketSize + avgEntrySize)) - 1
      in ms\<lparr>maxEntries := maxEntries ms @ [numMaxElements], maps := maps ms @ [[]]\<rparr>)"

definition ms_put :: "OutPoint \<Rightarrow> UtxoEntry option \<Rightarrow> u64 \<Rightarrow> mapSlice \<Rightarrow> mapSlice" where
  "ms_put op entry totalEntryMemory ms =
     (case replace_in op entry (maps ms) of
        Some m \<Rightarrow> ms\<lparr>maps := m\<rparr>
      | None \<Rightarrow>
          (case insert_in op entry (maps ms) (maxEntries ms) of
             Some m \<Rightarrow> ms\<lparr>maps := m\<rparr>
           | None \<Rightarrow>
               let ms = makeNewMap totalEntryMemory ms
               in ms\<lparr>maps := butlast (maps ms) @ [AList.update op entry (last (maps ms))]\<rparr>))"

definition ms_delete :: "OutPoint \<Rightarrow> mapSlice \<Rightarrow> mapSlice" where
  "ms_delete op ms = ms\<lparr>maps := map (AList.delete op) (maps ms)\<rparr>"

definition deleteMaps :: "mapSlice \<Rightarrow> mapSlice" where
  "deleteMaps ms = ms\<lparr>maxEntries := take 1 (maxEntries ms), maps := take 1 (maps ms)\<rparr>"

section \<open>The cache\<close>

datatype FlushMode = FlushRequired | FlushPeriodic | FlushIfNeeded

record utxoCache =
  maxTotalMemoryUsage :: u64
  cachedEntries :: mapSlice
  totalEntryMemory :: u64
  lastFlushHash :: hash

definition newUtxoCache :: "u64 \<Rightarrow> utxoCache" where
  "newUtxoCache maxMem =
     \<lparr>maxTotalMemoryUsage = maxMem,
      cachedEntries = \<lparr>maps = [[]],
        maxEntries = [calculateMinEntries (sint maxMem) (int (bucketSize + avgEntrySize)) - 1],
        ms_maxTotalMemoryUsage = maxMem\<rparr>,
      totalEntryMemory = 0, lastFlushHash = 0\<rparr>"

definition totalMemoryUsage :: "utxoCache \<Rightarrow> u64" where
  "totalMemoryUsage c = of_int (ms_size (cachedEntries c)) + totalEntryMemory c"

text \<open>The source counts the capacity of the script's slice; a slice stands here for its elements, so
  spare capacity is not counted.  The estimate only decides how maps are sized and when a flush happens, and what is proved of the cache holds for every size and every choice of flushes.\<close>

definition memoryUsage :: "UtxoEntry option \<Rightarrow> u64" where
  "memoryUsage entry = (case entry of None \<Rightarrow> 0 | Some e \<Rightarrow> of_nat (baseEntrySize + length (pkScript e)))"

definition cache_put :: "OutPoint \<Rightarrow> UtxoEntry option \<Rightarrow> utxoCache \<Rightarrow> utxoCache" where
  "cache_put op entry c =
     c\<lparr>cachedEntries := ms_put op entry (totalEntryMemory c) (cachedEntries c),
       totalEntryMemory := totalEntryMemory c + memoryUsage entry\<rparr>"

fun fetchMissing :: "key_parser \<Rightarrow> chain_db \<Rightarrow> OutPoint list \<Rightarrow> io_error + UtxoEntry option list" where
  "fetchMissing parse db [] = Inr []"
| "fetchMissing parse db (op # ops) =
     bind_r (dbFetchUtxoEntry parse op db) (\<lambda>e. bind_r (fetchMissing parse db ops) (\<lambda>es. Inr (e # es)))"

text \<open>The entries in the order of the request: a gap takes the next entry from the database.\<close>

fun fill :: "UtxoEntry option option list \<Rightarrow> UtxoEntry option list \<Rightarrow> UtxoEntry option list" where
  "fill [] es = []"
| "fill (Some e # xs) es = e # fill xs es"
| "fill (None # xs) (e # es) = e # fill xs es"
| "fill (None # xs) [] = None # fill xs []"

definition fetchEntries :: "key_parser \<Rightarrow> chain_db \<Rightarrow> OutPoint list \<Rightarrow> utxoCache \<Rightarrow>
    io_error + (UtxoEntry option list \<times> utxoCache)" where
  "fetchEntries parse db outpoints c =
     (let found = map (\<lambda>op. ms_get op (cachedEntries c)) outpoints;
          missingOps = filter (\<lambda>op. ms_get op (cachedEntries c) = None) outpoints
      in if missingOps = [] then Inr (fill found [], c)
         else bind_r (fetchMissing parse db missingOps) (\<lambda>dbEntries.
           Inr (fill found dbEntries, fold (\<lambda>(op, e). cache_put op e) (zip missingOps dbEntries) c)))"

definition cache_addTxOut :: "OutPoint \<Rightarrow> TxOut \<Rightarrow> bool \<Rightarrow> int32 \<Rightarrow> utxoCache \<Rightarrow> utxoCache" where
  "cache_addTxOut outpoint txOut isCoinBase height c =
     (if IsUnspendable (PkScript txOut) then c
      else cache_put outpoint (Some \<lparr>amount = Value txOut, pkScript = PkScript txOut, blockHeight = height,
             packedFlags = (tfFresh OR tfModified) OR (if isCoinBase then tfCoinBase else 0)\<rparr>) c)"

definition cache_addTxOuts :: "MsgTx \<Rightarrow> int32 \<Rightarrow> utxoCache \<Rightarrow> utxoCache" where
  "cache_addTxOuts tx height c =
     fold (\<lambda>(i, txOut). cache_addTxOut \<lparr>Hash = TxHash tx, Index = of_nat i\<rparr> txOut (IsCoinBaseTx tx) height)
       (enumerate 0 (TxOut tx)) c"

text \<open>Spending changes the entry the cache points to; a fresh one leaves the cache.\<close>

definition cache_addTxIn :: "key_parser \<Rightarrow> chain_db \<Rightarrow> TxIn \<Rightarrow> utxoCache \<times> SpentTxOut list \<Rightarrow>
    io_error + (utxoCache \<times> SpentTxOut list)" where
  "cache_addTxIn parse db txIn = (\<lambda>(c, stxos).
     let op = PreviousOutPoint txIn in
     bind_r (fetchEntries parse db [op] c) (\<lambda>(es, c).
     case es of
       [Some entry] \<Rightarrow>
         let stxos = stxos @ [stxo_of entry]; entry = Spend entry;
             ms = (case replace_in op (Some entry) (maps (cachedEntries c)) of
                     Some m \<Rightarrow> (cachedEntries c)\<lparr>maps := m\<rparr> | None \<Rightarrow> cachedEntries c)
         in if isFresh entry
            then Inr (c\<lparr>cachedEntries := ms_delete op ms, totalEntryMemory := totalEntryMemory c - memoryUsage (Some entry)\<rparr>,
                      stxos)
            else Inr (c\<lparr>cachedEntries := ms, totalEntryMemory := totalEntryMemory c - memoryUsage None\<rparr>, stxos)
     | _ \<Rightarrow> Inl ErrIoAssert))"

definition cache_addTxIns :: "key_parser \<Rightarrow> chain_db \<Rightarrow> MsgTx \<Rightarrow> utxoCache \<times> SpentTxOut list \<Rightarrow>
    io_error + (utxoCache \<times> SpentTxOut list)" where
  "cache_addTxIns parse db tx s =
     (if IsCoinBaseTx tx then Inr s else fold_r (cache_addTxIn parse db) (TxIn tx) s)"

definition cache_connectTransaction :: "key_parser \<Rightarrow> chain_db \<Rightarrow> int32 \<Rightarrow> MsgTx \<Rightarrow> utxoCache \<times> SpentTxOut list \<Rightarrow>
    io_error + (utxoCache \<times> SpentTxOut list)" where
  "cache_connectTransaction parse db height tx s =
     bind_r (cache_addTxIns parse db tx s) (\<lambda>(c, stxos). Inr (cache_addTxOuts tx height c, stxos))"

definition cache_connectTransactions :: "key_parser \<Rightarrow> chain_db \<Rightarrow> Block \<Rightarrow> utxoCache \<times> SpentTxOut list \<Rightarrow>
    io_error + (utxoCache \<times> SpentTxOut list)" where
  "cache_connectTransactions parse db block s =
     fold_r (cache_connectTransaction parse db (Height block)) (Transactions block) s"

section \<open>Flushing\<close>

definition writeEntry :: "key_parser \<Rightarrow> OutPoint \<times> UtxoEntry option \<Rightarrow> chain_db \<Rightarrow> io_error + chain_db" where
  "writeEntry parse = (\<lambda>(outpoint, entry) db.
     case entry of
       None \<Rightarrow> Inr (dbDeleteUtxoEntry outpoint db)
     | Some e \<Rightarrow>
         if IsSpent e then Inr (dbDeleteUtxoEntry outpoint db)
         else if \<not> isModified e then Inr db
         else dbPutUtxoEntry parse outpoint e db)"

text \<open>Every map is iterated in some order and emptied.\<close>

definition writeCache :: "key_parser \<Rightarrow> (entry_map \<Rightarrow> entry_map) \<Rightarrow> hash \<Rightarrow> utxoCache \<times> chain_db \<Rightarrow>
    io_error + (utxoCache \<times> chain_db)" where
  "writeCache parse order bestStateHash = (\<lambda>(c, db).
     bind_r (fold_r (writeEntry parse) (concat (map order (maps (cachedEntries c)))) db) (\<lambda>db.
     let ms = deleteMaps ((cachedEntries c)\<lparr>maps := map (\<lambda>_. []) (maps (cachedEntries c))\<rparr>) in
     bind_r (dbPutUtxoStateConsistency bestStateHash db) (\<lambda>db.
     Inr (c\<lparr>cachedEntries := ms, totalEntryMemory := 0, lastFlushHash := bestStateHash\<rparr>, db))))"

definition flush :: "key_parser \<Rightarrow> (entry_map \<Rightarrow> entry_map) \<Rightarrow> bool \<Rightarrow> FlushMode \<Rightarrow> hash \<Rightarrow> utxoCache \<times> chain_db \<Rightarrow>
    io_error + (utxoCache \<times> chain_db)" where
  "flush parse order intervalElapsed mode bestStateHash = (\<lambda>(c, db).
     if mode = FlushIfNeeded \<and> bestStateHash = lastFlushHash c then Inr (c, db)
     else
       let threshold = (case mode of FlushRequired \<Rightarrow> 0 | FlushIfNeeded \<Rightarrow> maxTotalMemoryUsage c
             | FlushPeriodic \<Rightarrow> if intervalElapsed then 0 else maxTotalMemoryUsage c)
       in if totalMemoryUsage c \<ge> threshold then writeCache parse order bestStateHash (c, db) else Inr (c, db))"

text \<open>The loop of \<open>InitConsistentState\<close>: the blocks after the last flush are connected again.\<close>

definition reconnectBlock :: "key_parser \<Rightarrow> (entry_map \<Rightarrow> entry_map) \<Rightarrow> Block \<Rightarrow> utxoCache \<times> chain_db \<Rightarrow>
    io_error + (utxoCache \<times> chain_db)" where
  "reconnectBlock parse order block = (\<lambda>(c, db).
     bind_r (cache_connectTransactions parse db block (c, [])) (\<lambda>(c, _).
     flush parse order False FlushIfNeeded (BlockHash block) (c, db)))"

section \<open>The size loop ends\<close>

lemma sizeParameter_stops: "\<not> overLoadFactor hint (B + of_nat k) \<Longrightarrow> k < n \<Longrightarrow> sizeParameter hint n B \<noteq> None"
proof (induction n arbitrary: B k)
  case (Suc n)
  show ?case
  proof (cases k)
    case (Suc k')
    then have "sizeParameter hint n (B + 1) \<noteq> None"
      using Suc.IH [of "B + 1" k'] Suc.prems by (simp add: add.assoc)
    then show ?thesis by simp
  qed (use Suc.prems in simp)
qed simp

text \<open>Whatever the hint, at the latest with \<open>B = 62\<close>, where the product wraps to \<open>5 * 2 ^ 61\<close>.\<close>

theorem sizeParameter_total:
  assumes "is_int64 hint"
  shows "sizeParameter hint 64 0 \<noteq> None"
proof -
  have "\<not> overLoadFactor hint (0 + of_nat 62)"
  proof
    assume ov: "overLoadFactor hint (0 + of_nat 62)"
    have "13 * (bucketShift 62 div 2) = (11529215046068469760 :: u64)" by (simp add: bucketShift_def)
    then have lt: "(11529215046068469760 :: u64) < of_int hint" and pos: "8 < hint"
      using ov by (simp_all add: overLoadFactor_def)
    have "uint (of_int hint :: u64) = hint"
      using assms pos by (simp add: uint_word_of_int_eq take_bit_int_eq_self is_int64_def)
    with lt have "11529215046068469760 < hint" by (simp add: word_less_def)
    then show False using assms by (simp add: is_int64_def)
  qed
  from sizeParameter_stops [OF this, of 64] show ?thesis by simp
qed

section \<open>The slice as one map\<close>

lemma get_from_concat: "get_from op ms = map_of (concat ms) op"
  by (induction ms) (auto simp: map_add_def split: option.splits)

lemma replace_in_None: "replace_in op e ms = None \<longleftrightarrow> get_from op ms = None"
  by (induction ms) (auto split: option.splits)

lemma replace_in_Some:
  assumes "replace_in op e ms = Some ms'"
  shows "get_from op' ms' = (if op' = op then Some e else get_from op' ms)"
    and "map fst (concat ms') = map fst (concat ms)"
proof -
  have "(get_from op' ms' = (if op' = op then Some e else get_from op' ms)) \<and> map fst (concat ms') = map fst (concat ms)"
    using assms
  proof (induction ms arbitrary: ms')
    case (Cons m ms)
    show ?case
    proof (cases "map_of m op = None")
      case True
      then obtain ms1 where "replace_in op e ms = Some ms1" "ms' = m # ms1" using Cons.prems by auto
      then show ?thesis using Cons.IH [of ms1] True by (auto split: option.splits)
    next
      case False
      then have "op \<in> fst ` set m" by (simp add: map_of_eq_None_iff)
      then have "map fst (AList.update op e m) = map fst m" by (simp add: update_keys)
      then show ?thesis using Cons.prems False by (auto simp: update_conv' split: option.splits)
    qed
  qed simp
  then show "get_from op' ms' = (if op' = op then Some e else get_from op' ms)" "map fst (concat ms') = map fst (concat ms)"
    by auto
qed

lemma keys_update_new: "map_of m op = None \<Longrightarrow> mset (map fst (AList.update op e m)) = add_mset op (mset (map fst m))"
  by (auto simp: update_keys map_of_eq_None_iff)

lemma insert_in_Some:
  assumes "insert_in op e ms ns = Some ms'" and "get_from op ms = None"
  shows "get_from op' ms' = (if op' = op then Some e else get_from op' ms)"
    and "mset (map fst (concat ms')) = add_mset op (mset (map fst (concat ms)))"
proof -
  have "(get_from op' ms' = (if op' = op then Some e else get_from op' ms))
      \<and> mset (map fst (concat ms')) = add_mset op (mset (map fst (concat ms)))"
    using assms
  proof (induction op e ms ns arbitrary: ms' rule: insert_in.induct)
    case (1 op e m ms n ns)
    have none: "map_of m op = None" "get_from op ms = None" using 1(3) by (auto split: option.splits)
    show ?case
    proof (cases "int (length m) \<ge> n")
      case True
      then obtain ms1 where "insert_in op e ms ns = Some ms1" "ms' = m # ms1" using 1(2) by auto
      then show ?thesis using "1.IH" [OF True] none by (auto split: option.splits)
    next
      case False
      then show ?thesis
        using 1(2) none by (auto simp: update_conv' keys_update_new [unfolded mset_map] split: option.splits)
    qed
  qed auto
  then show "get_from op' ms' = (if op' = op then Some e else get_from op' ms)"
    "mset (map fst (concat ms')) = add_mset op (mset (map fst (concat ms)))" by auto
qed

text \<open>No outpoint is in two maps, or twice in one.\<close>

definition wf_ms :: "mapSlice \<Rightarrow> bool" where
  "wf_ms ms \<longleftrightarrow> distinct (map fst (concat (maps ms)))"

lemma distinct_mset_eq: "mset xs = mset ys \<Longrightarrow> distinct xs = distinct ys"
  by (metis mset_eq_imp_distinct_iff)

lemma ms_put_laws:
  assumes "wf_ms ms"
  shows "ms_get op' (ms_put op e t ms) = (if op' = op then Some e else ms_get op' ms)" and "wf_ms (ms_put op e t ms)"
proof -
  have "(ms_get op' (ms_put op e t ms) = (if op' = op then Some e else ms_get op' ms)) \<and> wf_ms (ms_put op e t ms)"
  proof (cases "replace_in op e (maps ms)")
    case (Some m)
    then show ?thesis
      using replace_in_Some [OF Some] assms by (simp add: ms_put_def ms_get_def wf_ms_def)
  next
    case None
    then have none: "get_from op (maps ms) = None" by (simp add: replace_in_None)
    then have new: "op \<notin> set (map fst (concat (maps ms)))" by (simp add: get_from_concat map_of_eq_None_iff)
    show ?thesis
    proof (cases "insert_in op e (maps ms) (maxEntries ms)")
      case (Some m)
      have "distinct (map fst (concat m)) = distinct (op # map fst (concat (maps ms)))"
        by (rule distinct_mset_eq) (use insert_in_Some(2) [OF Some none] in simp)
      then show ?thesis
        using None Some insert_in_Some(1) [OF Some none] assms new by (simp add: ms_put_def ms_get_def wf_ms_def)
    next
      case insert: None
      have "maps (ms_put op e t ms) = maps ms @ [[(op, e)]]"
        using None insert by (simp add: ms_put_def makeNewMap_def Let_def)
      then show ?thesis
        using assms new none by (simp add: ms_get_def wf_ms_def get_from_concat map_add_def split: option.splits)
    qed
  qed
  then show "ms_get op' (ms_put op e t ms) = (if op' = op then Some e else ms_get op' ms)" "wf_ms (ms_put op e t ms)"
    by auto
qed

lemma ms_delete_laws:
  assumes "wf_ms ms"
  shows "ms_get op' (ms_delete op ms) = (if op' = op then None else ms_get op' ms)" and "wf_ms (ms_delete op ms)"
proof -
  have c: "concat (map (AList.delete op) xs) = AList.delete op (concat xs)" for xs :: "entry_map list"
    by (induction xs) (simp_all add: AList.delete_eq)
  show "ms_get op' (ms_delete op ms) = (if op' = op then None else ms_get op' ms)"
    by (simp add: ms_get_def ms_delete_def get_from_concat c delete_conv')
  show "wf_ms (ms_delete op ms)"
    using assms by (simp add: wf_ms_def ms_delete_def c distinct_delete)
qed

text \<open>What the cache asks of the slice.\<close>

locale entry_store =
  fixes get :: "OutPoint \<Rightarrow> 's \<Rightarrow> UtxoEntry option option"
    and put :: "OutPoint \<Rightarrow> UtxoEntry option \<Rightarrow> u64 \<Rightarrow> 's \<Rightarrow> 's"
    and del :: "OutPoint \<Rightarrow> 's \<Rightarrow> 's"
    and ok :: "'s \<Rightarrow> bool"
  assumes get_put: "ok s \<Longrightarrow> get op' (put op e t s) = (if op' = op then Some e else get op' s)"
    and get_del: "ok s \<Longrightarrow> get op' (del op s) = (if op' = op then None else get op' s)"
    and ok_put: "ok s \<Longrightarrow> ok (put op e t s)"
    and ok_del: "ok s \<Longrightarrow> ok (del op s)"
begin

text \<open>The set a store stands for over a base.\<close>

definition stands_for :: "'s \<Rightarrow> utxo_set \<Rightarrow> utxo_set" where
  "stands_for s U op = (case get op s of
       None \<Rightarrow> U op
     | Some None \<Rightarrow> None
     | Some (Some e) \<Rightarrow> if IsSpent e then None else Some (utxo_of e))"

lemma stands_for_put:
  "ok s \<Longrightarrow> stands_for (put op e t s) U =
     (stands_for s U)(op := case e of None \<Rightarrow> None | Some e \<Rightarrow> if IsSpent e then None else Some (utxo_of e))"
  by (auto simp: stands_for_def get_put fun_eq_iff split: option.splits)

lemma stands_for_del: "ok s \<Longrightarrow> stands_for (del op s) U = (stands_for s U)(op := U op)"
  by (auto simp: stands_for_def get_del fun_eq_iff split: option.splits)

lemma stands_for_load: "ok s \<Longrightarrow> get op s = None \<Longrightarrow>
    U op = map_option utxo_of e \<Longrightarrow> (\<And>x. e = Some x \<Longrightarrow> \<not> IsSpent x) \<Longrightarrow> stands_for (put op e t s) U = stands_for s U"
  by (auto simp: stands_for_def get_put fun_eq_iff split: option.splits)

end

interpretation ms: entry_store ms_get ms_put ms_delete wf_ms
  by unfold_locales (simp_all add: ms_put_laws ms_delete_laws)

section \<open>The cache over the database\<close>

text \<open>What the database holds: entries as they are stored.\<close>

definition wf_stored :: "(OutPoint \<rightharpoonup> UtxoEntry) \<Rightarrow> bool" where
  "wf_stored D \<longleftrightarrow> (\<forall>op e. D op = Some e \<longrightarrow> wf_entry e \<and> stored e = e)"

definition db_set :: "(OutPoint \<rightharpoonup> UtxoEntry) \<Rightarrow> utxo_set" where
  "db_set D op = map_option utxo_of (D op)"

definition cached_ok :: "(OutPoint \<rightharpoonup> UtxoEntry) \<Rightarrow> OutPoint \<Rightarrow> UtxoEntry \<Rightarrow> bool" where
  "cached_ok D op e \<longleftrightarrow> wf_entry e \<and> (isFresh e \<longrightarrow> D op = None) \<and> (\<not> isModified e \<longrightarrow> \<not> IsSpent e \<and> D op = Some (stored e))"

definition cache_inv :: "key_parser \<Rightarrow> utxoCache \<Rightarrow> chain_db \<Rightarrow> (OutPoint \<rightharpoonup> UtxoEntry) \<Rightarrow> bool" where
  "cache_inv parse c db D \<longleftrightarrow> utxo_rep parse db D \<and> wf_stored D \<and> wf_ms (cachedEntries c)
     \<and> (\<forall>op e. ms_get op (cachedEntries c) = Some (Some e) \<longrightarrow> cached_ok D op e)"

definition cache_set :: "utxoCache \<Rightarrow> (OutPoint \<rightharpoonup> UtxoEntry) \<Rightarrow> utxo_set" where
  "cache_set c D = ms.stands_for (cachedEntries c) (db_set D)"

lemma stored_flags:
  assumes "stored e = e"
  shows "\<not> IsSpent e" and "\<not> isModified e" and "\<not> isFresh e"
proof -
  have "packedFlags e = (if IsCoinBase e then tfCoinBase else 0)"
    using arg_cong [OF assms, of packedFlags] by (simp add: stored_def)
  then show "\<not> IsSpent e" "\<not> isModified e" "\<not> isFresh e"
    by (auto simp: IsSpent_def isModified_def isFresh_def tf_defs split: if_splits)
qed

lemma utxo_of_stored [simp]: "utxo_of (stored e) = utxo_of e"
  by (simp add: utxo_of_def stored_def IsCoinBase_def tf_defs)

lemma Spend_flags:
  "\<not> IsSpent e \<Longrightarrow> isModified (Spend e)" "isFresh (Spend e) = isFresh e" "wf_entry (Spend e) = wf_entry e"
  by (simp_all add: Spend_def isModified_def isFresh_def wf_entry_def tf_defs bit.conj_disj_distrib2 or.commute)

lemma new_entry_flags:
  fixes v s h cb
  defines "e \<equiv> \<lparr>amount = v, pkScript = s, blockHeight = h, packedFlags = (tfFresh OR tfModified) OR (if cb then tfCoinBase else 0)\<rparr>"
  shows "isModified e" and "isFresh e" and "\<not> IsSpent e" and "utxo_of e = (v, s, h, cb)"
  by (simp_all add: e_def isModified_def isFresh_def IsSpent_def utxo_of_def IsCoinBase_def tf_defs)

lemma fetchEntries_one:
  assumes "cache_inv parse c db D"
  shows "\<exists>c' x. fetchEntries parse db [op] c = Inr ([x], c') \<and> cache_inv parse c' db D \<and> cache_set c' D = cache_set c D
    \<and> ms_get op (cachedEntries c') = Some x"
proof (cases "ms_get op (cachedEntries c)")
  case (Some x)
  then show ?thesis using assms by (auto simp: fetchEntries_def)
next
  case None
  let ?c = "cache_put op (D op) c"
  have wf: "wf_ms (cachedEntries c)" and D: "dbFetchUtxoEntry parse op db = Inr (D op)" "wf_stored D"
    using assms by (simp_all add: cache_inv_def utxo_rep_def)
  have f: "fetchEntries parse db [op] c = Inr ([D op], ?c)" using None D(1) by (simp add: fetchEntries_def)
  have st: "stored e = e \<and> wf_entry e" if "D op = Some e" for e using D(2) that by (simp add: wf_stored_def)
  have "cached_ok D op e" if "D op = Some e" for e
    using st [OF that] stored_flags that by (simp add: cached_ok_def)
  then have "cache_inv parse ?c db D"
    using assms wf by (auto simp: cache_inv_def cache_put_def ms.get_put ms.ok_put)
  moreover have "cache_set ?c D = cache_set c D"
    using ms.stands_for_load [OF wf None, of "db_set D" "D op"] st stored_flags
    by (auto simp: cache_set_def cache_put_def db_set_def)
  ultimately show ?thesis using f ms.get_put [OF wf] by (auto simp: cache_put_def)
qed

lemma cache_addTxIn_refines:
  assumes "cache_inv parse c db D" and "cache_set c D (PreviousOutPoint ti) = Some u"
  shows "\<exists>c'. cache_addTxIn parse db ti (c, st) = Inr (c', st @ [stxo_of_utxo u]) \<and> cache_inv parse c' db D
    \<and> cache_set c' D = (cache_set c D)(PreviousOutPoint ti := None)"
proof -
  let ?op = "PreviousOutPoint ti"
  obtain c1 x where f: "fetchEntries parse db [?op] c = Inr ([x], c1)" and i1: "cache_inv parse c1 db D"
    and s1: "cache_set c1 D = cache_set c D" and g: "ms_get ?op (cachedEntries c1) = Some x"
    using fetchEntries_one [OF assms(1), of ?op] by blast
  have "ms.stands_for (cachedEntries c1) (db_set D) ?op = Some u" using assms(2) s1 by (simp add: cache_set_def)
  then obtain e where e: "x = Some e" "\<not> IsSpent e" "u = utxo_of e"
    using g by (auto simp: ms.stands_for_def split: option.splits if_splits)
  have wf: "wf_ms (cachedEntries c1)" and ok: "cached_ok D ?op e" using i1 g e by (auto simp: cache_inv_def)
  obtain m where m: "replace_in ?op (Some (Spend e)) (maps (cachedEntries c1)) = Some m"
    using g replace_in_None [of ?op "Some (Spend e)" "maps (cachedEntries c1)"]
    by (cases "replace_in ?op (Some (Spend e)) (maps (cachedEntries c1))") (auto simp: ms_get_def)
  let ?ms = "(cachedEntries c1)\<lparr>maps := m\<rparr>"
  have gm: "ms_get op' ?ms = (if op' = ?op then Some (Some (Spend e)) else ms_get op' (cachedEntries c1))" for op'
    using replace_in_Some(1) [OF m] by (simp add: ms_get_def)
  have wm: "wf_ms ?ms" using replace_in_Some(2) [OF m] wf by (simp add: wf_ms_def)
  have sm: "ms.stands_for ?ms (db_set D) = (cache_set c D)(?op := None)"
    using s1 by (auto simp: cache_set_def ms.stands_for_def gm fun_eq_iff dest: fun_cong)
  have oke: "cached_ok D ?op (Spend e)" using ok e(2) by (simp add: cached_ok_def Spend_flags)
  show ?thesis
  proof (cases "isFresh e")
    case True
    let ?c = "c1\<lparr>cachedEntries := ms_delete ?op ?ms, totalEntryMemory := totalEntryMemory c1 - memoryUsage (Some (Spend e))\<rparr>"
    have "cache_addTxIn parse db ti (c, st) = Inr (?c, st @ [stxo_of_utxo u])"
      using f e m True by (simp add: cache_addTxIn_def Let_def Spend_flags stxo_of_live)
    moreover have "cache_inv parse ?c db D"
      using i1 wm by (auto simp: cache_inv_def ms.get_del ms.ok_del gm)
    moreover have "D ?op = None" using ok True by (simp add: cached_ok_def)
    then have "cache_set ?c D = (cache_set c D)(?op := None)"
      using sm wm by (simp add: cache_set_def ms.stands_for_del db_set_def)
    ultimately show ?thesis by blast
  next
    case False
    let ?c = "c1\<lparr>cachedEntries := ?ms, totalEntryMemory := totalEntryMemory c1 - memoryUsage None\<rparr>"
    have "cache_addTxIn parse db ti (c, st) = Inr (?c, st @ [stxo_of_utxo u])"
      using f e m False by (simp add: cache_addTxIn_def Let_def Spend_flags stxo_of_live)
    moreover have "cache_inv parse ?c db D"
      using i1 wm oke by (auto simp: cache_inv_def gm)
    ultimately show ?thesis using sm by (auto simp: cache_set_def)
  qed
qed

lemma cache_addTxIns_refines:
  assumes "cache_inv parse c db D" and "distinct (map PreviousOutPoint tis)"
    and "PreviousOutPoint ` set tis \<subseteq> dom (cache_set c D)"
  shows "\<exists>c'. fold_r (cache_addTxIn parse db) tis (c, st) =
      Inr (c', st @ map (\<lambda>ti. stxo_of_utxo (the (cache_set c D (PreviousOutPoint ti)))) tis)
    \<and> cache_inv parse c' db D \<and> cache_set c' D = fold utxo_spend tis (cache_set c D)"
  using assms
proof (induction tis arbitrary: c st)
  case (Cons ti tis)
  obtain u where u: "cache_set c D (PreviousOutPoint ti) = Some u" using Cons.prems(3) by auto
  obtain c1 where c1: "cache_addTxIn parse db ti (c, st) = Inr (c1, st @ [stxo_of_utxo u])" "cache_inv parse c1 db D"
    "cache_set c1 D = (cache_set c D)(PreviousOutPoint ti := None)"
    using cache_addTxIn_refines [OF Cons.prems(1) u] by blast
  have ne: "PreviousOutPoint x \<noteq> PreviousOutPoint ti" if "x \<in> set tis" for x
    using Cons.prems(2) that by (auto simp: image_iff)
  have dom1: "PreviousOutPoint ` set tis \<subseteq> dom (cache_set c1 D)"
    using Cons.prems(3) ne by (auto simp: c1(3))
  have eq: "map (\<lambda>ti. stxo_of_utxo (the (cache_set c1 D (PreviousOutPoint ti)))) tis =
      map (\<lambda>ti. stxo_of_utxo (the (cache_set c D (PreviousOutPoint ti)))) tis"
    using ne by (intro map_cong) (auto simp: c1(3))
  obtain c' where "fold_r (cache_addTxIn parse db) tis (c1, st @ [stxo_of_utxo u]) =
      Inr (c', (st @ [stxo_of_utxo u]) @ map (\<lambda>ti. stxo_of_utxo (the (cache_set c1 D (PreviousOutPoint ti)))) tis)"
    "cache_inv parse c' db D" "cache_set c' D = fold utxo_spend tis (cache_set c1 D)"
    using Cons.IH [OF c1(2) _ dom1, of "st @ [stxo_of_utxo u]"] Cons.prems(2) by auto
  moreover have "cache_set c1 D = utxo_spend ti (cache_set c D)" by (simp add: c1(3) utxo_spend_def)
  ultimately show ?case using c1(1) u unfolding eq by simp
qed simp

definition wf_outs :: "MsgTx \<Rightarrow> bool" where
  "wf_outs tx \<longleftrightarrow> (\<forall>out \<in> set (TxOut tx). 0 \<le> Value out \<and> Value out < 2 ^ 60 \<and> length (PkScript out) < 2 ^ 32)"

lemma cache_addTxOuts_refines:
  assumes "cache_inv parse c db D" and "wf_outs tx" and "is_int32 h" and "created tx \<inter> dom D = {}"
  shows "cache_inv parse (cache_addTxOuts tx h c) db D"
    and "cache_set (cache_addTxOuts tx h c) D = fold (utxo_create h tx) (enumerate 0 (TxOut tx)) (cache_set c D)"
proof -
  let ?f = "\<lambda>(i, txOut). cache_addTxOut \<lparr>Hash = TxHash tx, Index = of_nat i\<rparr> txOut (IsCoinBaseTx tx) h"
  have "cache_inv parse (fold ?f xs c) db D \<and> cache_set (fold ?f xs c) D = fold (utxo_create h tx) xs (cache_set c D)"
    if "set xs \<subseteq> set (enumerate 0 (TxOut tx))" "cache_inv parse c db D" for xs c
    using that
  proof (induction xs arbitrary: c)
    case (Cons x xs)
    obtain i out where x: "x = (i, out)" by (cases x)
    let ?e = "\<lparr>amount = Value out, pkScript = PkScript out, blockHeight = h,
      packedFlags = (tfFresh OR tfModified) OR (if IsCoinBaseTx tx then tfCoinBase else 0)\<rparr>"
    note fl = new_entry_flags [of "Value out" "PkScript out" h "IsCoinBaseTx tx"]
    have i: "i < length (TxOut tx)" "out = TxOut tx ! i" using Cons.prems(1) by (auto simp: x in_set_enumerate_eq)
    have wf: "wf_ms (cachedEntries c)" using Cons.prems(2) by (simp add: cache_inv_def)
    have "cache_inv parse (?f x c) db D \<and> cache_set (?f x c) D = utxo_create h tx x (cache_set c D)"
    proof (cases "IsUnspendable (PkScript out)")
      case False
      then have "D (out_op tx i) = None" using assms(4) i by (auto simp: created_def)
      moreover have "wf_entry ?e" using assms(2,3) i by (simp add: wf_entry_def wf_outs_def)
      ultimately have "cached_ok D (out_op tx i) ?e" using fl by (simp add: cached_ok_def)
      then show ?thesis
        using False Cons.prems(2) wf fl
        by (auto simp: x cache_addTxOut_def cache_put_def cache_inv_def ms.get_put ms.ok_put cache_set_def
            ms.stands_for_put utxo_create_def out_op_def simp del: or.assoc)
    qed (use Cons.prems in \<open>simp add: x cache_addTxOut_def utxo_create_def\<close>)
    then show ?case using Cons.IH [of "?f x c"] Cons.prems(1) by simp
  qed simp
  from this [of "enumerate 0 (TxOut tx)" c] assms(1)
  show "cache_inv parse (cache_addTxOuts tx h c) db D"
    "cache_set (cache_addTxOuts tx h c) D = fold (utxo_create h tx) (enumerate 0 (TxOut tx)) (cache_set c D)"
    by (simp_all add: cache_addTxOuts_def)
qed

text \<open>A block the cache may connect: its outputs are amounts, and the database has never seen them.\<close>

definition new_to :: "Block \<Rightarrow> (OutPoint \<rightharpoonup> UtxoEntry) \<Rightarrow> bool" where
  "new_to block D \<longleftrightarrow> is_int32 (Height block) \<and> (\<forall>tx \<in> set (Transactions block). wf_outs tx \<and> created tx \<inter> dom D = {})"

lemma cache_connectTransaction_refines:
  assumes "cache_inv parse c db D" and "connectable (i, tx) (cache_set c D, st)" and "wf_outs tx" and "is_int32 h"
    and "created tx \<inter> dom D = {}"
  shows "\<exists>c' st'. cache_connectTransaction parse db h tx (c, st) = Inr (c', st') \<and> cache_inv parse c' db D
    \<and> (cache_set c' D, st') = spec_connect h (i, tx) (cache_set c D, st)"
proof (cases "IsCoinBaseTx tx")
  case True
  then show ?thesis
    using cache_addTxOuts_refines [OF assms(1,3-5)]
    by (simp add: cache_connectTransaction_def cache_addTxIns_def spec_connect_def utxo_tx_def journal_def)
next
  case False
  have l: "distinct (map PreviousOutPoint (TxIn tx))" "PreviousOutPoint ` set (TxIn tx) \<subseteq> dom (cache_set c D)"
    using assms(2) False by (auto simp: connectable_def spends_live_def)
  obtain c1 where c1: "fold_r (cache_addTxIn parse db) (TxIn tx) (c, st) = Inr (c1, st @ journal tx (cache_set c D))"
    "cache_inv parse c1 db D" "cache_set c1 D = fold utxo_spend (TxIn tx) (cache_set c D)"
    using cache_addTxIns_refines [OF assms(1) l, of st] False by (auto simp: journal_def)
  then show ?thesis
    using cache_addTxOuts_refines [OF c1(2) assms(3-5)] False
    by (simp add: cache_connectTransaction_def cache_addTxIns_def spec_connect_def utxo_tx_def)
qed

lemma cache_connectTxs_refines:
  assumes "cache_inv parse c db D" and "fold_pre connectable (spec_connect h) (enumerate i txs) (cache_set c D, st)"
    and "is_int32 h" and "\<forall>tx \<in> set txs. wf_outs tx \<and> created tx \<inter> dom D = {}"
  shows "\<exists>c' st'. fold_r (cache_connectTransaction parse db h) txs (c, st) = Inr (c', st') \<and> cache_inv parse c' db D
    \<and> (cache_set c' D, st') = fold (spec_connect h) (enumerate i txs) (cache_set c D, st)"
  using assms(1,2,4)
proof (induction txs arbitrary: c st i)
  case (Cons tx txs)
  have t: "connectable (i, tx) (cache_set c D, st)" "wf_outs tx" "created tx \<inter> dom D = {}"
    using Cons.prems(2,3) by auto
  obtain c1 st1 where c1: "cache_connectTransaction parse db h tx (c, st) = Inr (c1, st1)" "cache_inv parse c1 db D"
    "(cache_set c1 D, st1) = spec_connect h (i, tx) (cache_set c D, st)"
    using cache_connectTransaction_refines [OF Cons.prems(1) t(1,2) assms(3) t(3)] by blast
  moreover have "fold_pre connectable (spec_connect h) (enumerate (Suc i) txs) (cache_set c1 D, st1)"
    using Cons.prems(2) by (simp add: c1(3))
  moreover have "\<forall>tx \<in> set txs. wf_outs tx \<and> created tx \<inter> dom D = {}" using Cons.prems(3) by simp
  ultimately show ?case using Cons.IH [of c1 "Suc i" st1] by (simp add: c1(3) [symmetric])
qed simp

theorem cache_connect_refines:
  assumes "cache_inv parse c db D" and "block_connectable block (cache_set c D)" and "new_to block D"
  shows "\<exists>c' stxos. cache_connectTransactions parse db block (c, []) = Inr (c', stxos) \<and> cache_inv parse c' db D
    \<and> cache_set c' D = utxo_block block (cache_set c D)
    \<and> stxos = snd (fold (spec_connect (Height block)) (enumerate 0 (Transactions block)) (cache_set c D, []))"
proof -
  obtain c' st' where "cache_connectTransactions parse db block (c, []) = Inr (c', st')" "cache_inv parse c' db D"
    "(cache_set c' D, st') = fold (spec_connect (Height block)) (enumerate 0 (Transactions block)) (cache_set c D, [])"
    using cache_connectTxs_refines [OF assms(1), of "Height block" 0 "Transactions block" "[]"] assms(2,3)
    by (auto simp: block_connectable_def new_to_def cache_connectTransactions_def)
  moreover from this(3) have "cache_set c' D = utxo_block block (cache_set c D)"
    using fst_fold_spec_connect [of "Height block" 0 "Transactions block" "cache_set c D" "[]"]
    by (metis fst_conv utxo_block_def)
  ultimately show ?thesis by (metis snd_conv)
qed

section \<open>Flushing keeps the set\<close>

definition written :: "entry_map \<Rightarrow> (OutPoint \<rightharpoonup> UtxoEntry) \<Rightarrow> OutPoint \<rightharpoonup> UtxoEntry" where
  "written m D op = (case map_of m op of
       None \<Rightarrow> D op
     | Some None \<Rightarrow> None
     | Some (Some e) \<Rightarrow> if IsSpent e then None else if \<not> isModified e then D op else Some (stored e))"

lemma writeEntries_rep:
  assumes "sound_parser parse" and "utxo_rep parse db D" and "distinct (map fst m)"
    and "\<forall>op e. (op, Some e) \<in> set m \<longrightarrow> wf_entry e"
  shows "\<exists>db'. fold_r (writeEntry parse) m db = Inr db' \<and> utxo_rep parse db' (written m D)"
  using assms(2-)
proof (induction m arbitrary: db D)
  case (Cons x m)
  obtain op entry where x: "x = (op, entry)" by (cases x)
  have "\<exists>db'. writeEntry parse x db = Inr db' \<and> utxo_rep parse db' (written [x] D)"
  proof (cases entry)
    case None
    have "written [x] D = D(op := None)" by (auto simp: written_def x None)
    then show ?thesis using dbDeleteUtxoEntry_rep [OF Cons.prems(1), of op] by (simp add: x None writeEntry_def)
  next
    case (Some e)
    have wf: "wf_entry e" using Cons.prems(3) by (simp add: x Some)
    have w: "written [x] D = (if IsSpent e then D(op := None) else if \<not> isModified e then D else D(op \<mapsto> stored e))"
      by (auto simp: written_def x Some)
    show ?thesis
      unfolding w
      using dbDeleteUtxoEntry_rep [OF Cons.prems(1), of op] dbPutUtxoEntry_rep [OF assms(1) Cons.prems(1) wf, of op] Cons.prems(1)
      by (simp add: x Some writeEntry_def)
  qed
  then obtain db1 where db1: "writeEntry parse x db = Inr db1" "utxo_rep parse db1 (written [x] D)" by blast
  obtain db2 where "fold_r (writeEntry parse) m db1 = Inr db2" "utxo_rep parse db2 (written m (written [x] D))"
    using Cons.IH [OF db1(2)] Cons.prems(2,3) by auto
  moreover have "map_of m op = None" using Cons.prems(2) by (simp add: x map_of_eq_None_iff)
  then have "written m (written [x] D) = written (x # m) D"
    by (auto simp: written_def x fun_eq_iff split: option.splits)
  ultimately show ?case using db1(1) by simp
qed (simp add: written_def [abs_def])

lemma utxo_rep_chainMeta: "utxo_rep parse (db\<lparr>chainMeta := b\<rparr>) D = utxo_rep parse db D"
  by (simp add: utxo_rep_def dbFetchUtxoEntry_def)

lemma utxoStateConsistencyKeyName_ne: "utxoStateConsistencyKeyName \<noteq> []"
  by (simp add: utxoStateConsistencyKeyName_def)

lemma stored_stored [simp]: "stored (stored e) = stored e" "wf_entry (stored e) = wf_entry e"
  by (simp_all add: stored_def wf_entry_def IsCoinBase_def tf_defs)

lemma mset_concat_order:
  assumes "\<forall>m. mset (order m) = mset m"
  shows "mset (concat (map order ms)) = mset (concat ms)"
  using assms by (induction ms) simp_all

lemma map_of_mset:
  assumes "mset xs = mset ys" and "distinct (map fst ys)"
  shows "map_of xs = map_of ys" and "distinct (map fst xs)"
proof -
  have "mset (map fst xs) = mset (map fst ys)" using assms(1) by (simp only: mset_map)
  then show d: "distinct (map fst xs)" using assms(2) distinct_mset_eq by blast
  show "map_of xs = map_of ys"
    using map_of_inject_set [OF d assms(2)] mset_eq_setD [OF assms(1)] by simp
qed

theorem writeCache_keeps:
  assumes "sound_parser parse" and "cache_inv parse c db D" and "\<forall>m. mset (order m) = mset m"
  shows "\<exists>c' db' D'. writeCache parse order h (c, db) = Inr (c', db') \<and> cache_inv parse c' db' D'
    \<and> (\<forall>op. ms_get op (cachedEntries c') = None) \<and> db_set D' = cache_set c D
    \<and> dbFetchUtxoStateConsistency db' = Some (hash_bytes h) \<and> lastFlushHash c' = h"
proof -
  let ?m = "concat (map order (maps (cachedEntries c)))" and ?all = "concat (maps (cachedEntries c))"
  have d: "distinct (map fst ?all)" and rep: "utxo_rep parse db D" and wfD: "wf_stored D"
    and ok: "\<And>op e. ms_get op (cachedEntries c) = Some (Some e) \<Longrightarrow> cached_ok D op e"
    using assms(2) by (auto simp: cache_inv_def wf_ms_def)
  note m = map_of_mset [OF mset_concat_order [OF assms(3)] d]
  have g: "map_of ?m op = ms_get op (cachedEntries c)" for op
    using m(1) by (simp add: ms_get_def get_from_concat)
  have "\<forall>op e. (op, Some e) \<in> set ?m \<longrightarrow> wf_entry e"
  proof (intro allI impI)
    fix op e
    assume "(op, Some e) \<in> set ?m"
    then have "map_of ?m op = Some (Some e)" using m(2) by simp
    then show "wf_entry e" using ok g by (auto simp: cached_ok_def)
  qed
  from writeEntries_rep [OF assms(1) rep m(2) this]
  obtain db1 where db1: "fold_r (writeEntry parse) ?m db = Inr db1" "utxo_rep parse db1 (written ?m D)" by blast
  define db2 where "db2 = db1\<lparr>chainMeta := bucket_upd utxoStateConsistencyKeyName (hash_bytes h) (chainMeta db1)\<rparr>"
  define c2 where "c2 = c\<lparr>cachedEntries := deleteMaps ((cachedEntries c)\<lparr>maps := map (\<lambda>_. []) (maps (cachedEntries c))\<rparr>),
      totalEntryMemory := 0, lastFlushHash := h\<rparr>"
  have w: "writeCache parse order h (c, db) = Inr (c2, db2)"
    using db1(1) by (simp add: writeCache_def dbPutUtxoStateConsistency_def put_r_Inr utxoStateConsistencyKeyName_ne db2_def c2_def)
  have e: "concat (take k (map (\<lambda>_. []) xs)) = []" for k and xs :: "entry_map list" by (simp add: take_map)
  have empty: "ms_get op (cachedEntries c2) = None" for op
    by (simp add: c2_def ms_get_def get_from_concat deleteMaps_def e)
  have wf: "wf_ms (cachedEntries c2)"
    by (simp add: c2_def wf_ms_def deleteMaps_def e)
  have "wf_stored (written ?m D)"
    using wfD ok g by (auto simp: wf_stored_def written_def cached_ok_def split: option.splits if_splits)
  then have "cache_inv parse c2 db2 (written ?m D)"
    using db1(2) wf empty by (simp add: cache_inv_def db2_def utxo_rep_chainMeta)
  moreover have "db_set (written ?m D) op = cache_set c D op" for op
    using ok [of op] by (auto simp: db_set_def written_def g cache_set_def ms.stands_for_def cached_ok_def split: option.splits)
  moreover have "dbFetchUtxoStateConsistency db2 = Some (hash_bytes h)"
    by (simp add: dbFetchUtxoStateConsistency_def db2_def bucket_Get_def utxoStateConsistencyKeyName_ne map_of_bucket_upd)
  moreover have "lastFlushHash c2 = h" by (simp add: c2_def)
  ultimately show ?thesis using w empty by blast
qed

theorem flush_keeps:
  assumes "sound_parser parse" and "cache_inv parse c db D" and "\<forall>m. mset (order m) = mset m"
  shows "\<exists>c' db' D'. flush parse order elapsed mode h (c, db) = Inr (c', db') \<and> cache_inv parse c' db' D'
    \<and> cache_set c' D' = cache_set c D
    \<and> (c' = c \<and> db' = db \<and> D' = D \<or> db_set D' = cache_set c D \<and> dbFetchUtxoStateConsistency db' = Some (hash_bytes h))"
proof -
  obtain c' db' D' where w: "writeCache parse order h (c, db) = Inr (c', db')" "cache_inv parse c' db' D'"
    "\<forall>op. ms_get op (cachedEntries c') = None" "db_set D' = cache_set c D" "dbFetchUtxoStateConsistency db' = Some (hash_bytes h)"
    using writeCache_keeps [OF assms] by blast
  moreover from this have "cache_set c' D' = cache_set c D" by (simp add: cache_set_def ms.stands_for_def fun_eq_iff)
  moreover have "flush parse order elapsed mode h (c, db) \<in> {Inr (c, db), writeCache parse order h (c, db)}"
    by (auto simp: flush_def Let_def)
  ultimately show ?thesis using assms(2) by (metis (no_types, lifting) insertE singletonD)
qed

section \<open>An unclean shutdown loses nothing\<close>

definition set_after :: "Block list \<Rightarrow> utxo_set \<Rightarrow> nat \<Rightarrow> utxo_set" where
  "set_after bs U n = fold utxo_block (take n bs) U"

lemma set_after_0 [simp]: "set_after bs U 0 = U"
  by (simp add: set_after_def)

lemma set_after_Suc: "n < length bs \<Longrightarrow> set_after bs U (Suc n) = utxo_block (bs ! n) (set_after bs U n)"
  by (simp add: set_after_def take_Suc_conv_app_nth)

text \<open>A chain of blocks that connect one after the other, whose outputs are amounts that no earlier
  state had.\<close>

definition valid_chain :: "Block list \<Rightarrow> utxo_set \<Rightarrow> bool" where
  "valid_chain bs U \<longleftrightarrow> (\<forall>n < length bs. block_connectable (bs ! n) (set_after bs U n) \<and> is_int32 (Height (bs ! n))
     \<and> (\<forall>tx \<in> set (Transactions (bs ! n)). wf_outs tx \<and> (\<forall>k \<le> n. created tx \<inter> dom (set_after bs U k) = {})))"

text \<open>A node that connects the blocks of the chain in order and flushes its cache at any time, in any
  mode: how many blocks it has connected, and up to which the database is written.\<close>

inductive node_run :: "key_parser \<Rightarrow> Block list \<Rightarrow> utxoCache \<times> chain_db \<Rightarrow> utxoCache \<times> chain_db \<Rightarrow> nat \<Rightarrow> nat \<Rightarrow> bool"
  for parse bs s where
  start: "node_run parse bs s s 0 0"
| connect: "node_run parse bs s (c, db) n k \<Longrightarrow> n < length bs \<Longrightarrow>
    cache_connectTransactions parse db (bs ! n) (c, []) = Inr (c', stxos) \<Longrightarrow> node_run parse bs s (c', db) (Suc n) k"
| flush: "node_run parse bs s (c, db) n k \<Longrightarrow> \<forall>m. mset (order m) = mset m \<Longrightarrow> 0 < n \<Longrightarrow>
    flush parse order elapsed mode (BlockHash (bs ! (n - 1))) (c, db) = Inr (c', db') \<Longrightarrow>
    node_run parse bs s (c', db') n (if (c', db') = (c, db) then k else n)"

definition at_block :: "key_parser \<Rightarrow> Block list \<Rightarrow> utxo_set \<Rightarrow> utxoCache \<times> chain_db \<Rightarrow> nat \<Rightarrow> nat \<Rightarrow> bool" where
  "at_block parse bs U = (\<lambda>(c, db) n k. k \<le> n \<and> (\<exists>D. cache_inv parse c db D \<and> cache_set c D = set_after bs U n
     \<and> db_set D = set_after bs U k))"

lemma dom_db_set: "dom (db_set D) = dom D"
  by (auto simp: db_set_def)

lemma at_block_connect:
  assumes "valid_chain bs U" and "at_block parse bs U (c, db) n k" and "n < length bs"
  shows "\<exists>c' stxos. cache_connectTransactions parse db (bs ! n) (c, []) = Inr (c', stxos)
    \<and> at_block parse bs U (c', db) (Suc n) k"
proof -
  obtain D where D: "k \<le> n" "cache_inv parse c db D" "cache_set c D = set_after bs U n" "db_set D = set_after bs U k"
    using assms(2) by (auto simp: at_block_def)
  have "block_connectable (bs ! n) (cache_set c D)" using assms(1,3) D(3) by (simp add: valid_chain_def)
  moreover have dm: "dom D = dom (set_after bs U k)" using dom_db_set [of D] D(4) by simp
  have "new_to (bs ! n) D" using assms(1,3) D(1) unfolding valid_chain_def new_to_def dm by blast
  ultimately obtain c' stxos where c': "cache_connectTransactions parse db (bs ! n) (c, []) = Inr (c', stxos)"
    "cache_inv parse c' db D" "cache_set c' D = utxo_block (bs ! n) (cache_set c D)"
    using cache_connect_refines [OF D(2)] by blast
  then have "at_block parse bs U (c', db) (Suc n) k"
    using D assms(3) by (auto simp: at_block_def set_after_Suc)
  with c'(1) show ?thesis by blast
qed

lemma at_block_flush:
  assumes "sound_parser parse" and "at_block parse bs U (c, db) n k" and "\<forall>m. mset (order m) = mset m"
  shows "\<exists>c' db'. flush parse order elapsed mode h (c, db) = Inr (c', db')
    \<and> ((c', db') = (c, db) \<or> at_block parse bs U (c', db') n n)"
proof -
  obtain D where D: "cache_inv parse c db D" "cache_set c D = set_after bs U n"
    using assms(2) by (auto simp: at_block_def)
  from flush_keeps [OF assms(1) D(1) assms(3)]
  obtain c' db' D' where f: "flush parse order elapsed mode h (c, db) = Inr (c', db')" "cache_inv parse c' db' D'"
    "cache_set c' D' = cache_set c D" "c' = c \<and> db' = db \<and> D' = D \<or> db_set D' = cache_set c D"
    by blast
  then show ?thesis using D(2) by (auto simp: at_block_def)
qed

lemma node_run_at_block:
  assumes "node_run parse bs s s' n k" and "sound_parser parse" and "valid_chain bs U" and "at_block parse bs U s 0 0"
  shows "at_block parse bs U s' n k \<and> n \<le> length bs"
  using assms
proof (induction rule: node_run.induct)
  case (connect c db n k c' stxos)
  then show ?case using at_block_connect [OF connect.prems(2), of parse c db n k] by auto
next
  case (flush c db n k order elapsed mode c' db')
  then have a: "at_block parse bs U (c, db) n k" "n \<le> length bs" by auto
  then show ?case
    using at_block_flush [OF flush.prems(1) a(1) flush.hyps(2), of elapsed mode "BlockHash (bs ! (n - 1))"] flush.hyps(4)
    by (cases "(c', db') = (c, db)") auto
qed simp

lemma cache_inv_new:
  assumes "cache_inv parse c db D"
  shows "cache_inv parse (newUtxoCache mem) db D" and "cache_set (newUtxoCache mem) D = db_set D"
  using assms
  by (simp_all add: cache_inv_def newUtxoCache_def wf_ms_def ms_get_def cache_set_def ms.stands_for_def fun_eq_iff)

lemma reconnectBlocks:
  assumes "sound_parser parse" and "valid_chain bs U" and "\<forall>m. mset (order m) = mset m"
    and "at_block parse bs U s n k" and "n + m \<le> length bs"
  shows "\<exists>s' k'. fold_r (reconnectBlock parse order) (take m (drop n bs)) s = Inr s' \<and> at_block parse bs U s' (n + m) k'"
  using assms(4,5)
proof (induction m arbitrary: s n k)
  case (Suc m)
  obtain c db where s: "s = (c, db)" by (cases s)
  have n: "n < length bs" using Suc.prems(2) by simp
  obtain c1 stxos where c1: "cache_connectTransactions parse db (bs ! n) (c, []) = Inr (c1, stxos)"
    "at_block parse bs U (c1, db) (Suc n) k"
    using at_block_connect [OF assms(2) _ n] Suc.prems(1) s by blast
  obtain c2 db2 where f: "flush parse order False FlushIfNeeded (BlockHash (bs ! n)) (c1, db) = Inr (c2, db2)"
    "(c2, db2) = (c1, db) \<or> at_block parse bs U (c2, db2) (Suc n) (Suc n)"
    using at_block_flush [OF assms(1) c1(2) assms(3)] by blast
  then obtain k2 where "at_block parse bs U (c2, db2) (Suc n) k2" using c1(2) by auto
  from Suc.IH [OF this] obtain s' k' where "fold_r (reconnectBlock parse order) (take m (drop (Suc n) bs)) (c2, db2) = Inr s'"
    "at_block parse bs U s' (Suc n + m) k'"
    using Suc.prems(2) by auto
  moreover have "take (Suc m) (drop n bs) = bs ! n # take m (drop (Suc n) bs)"
    using n by (simp add: Cons_nth_drop_Suc [symmetric])
  moreover have "reconnectBlock parse order (bs ! n) s = Inr (c2, db2)"
    using c1(1) f(1) by (simp add: s reconnectBlock_def)
  ultimately show ?case by auto
qed (use assms in auto)

theorem crash_recovery:
  assumes "sound_parser parse" and "valid_chain bs U" and "cache_inv parse c0 db0 D0"
    and "cache_set c0 D0 = U" and "db_set D0 = U"
    and "node_run parse bs (c0, db0) (c, db) n k" and "\<forall>m. mset (order m) = mset m"
  shows "\<exists>D c' db' D'. cache_inv parse c db D \<and> cache_set c D = set_after bs U n
    \<and> fold_r (reconnectBlock parse order) (drop k (take n bs)) (newUtxoCache mem, db) = Inr (c', db')
    \<and> cache_inv parse c' db' D' \<and> cache_set c' D' = set_after bs U n"
proof -
  have "at_block parse bs U (c0, db0) 0 0" using assms(3-5) by (auto simp: at_block_def)
  from node_run_at_block [OF assms(6,1,2) this] obtain D where
    D: "k \<le> n" "cache_inv parse c db D" "cache_set c D = set_after bs U n" "db_set D = set_after bs U k" "n \<le> length bs"
    by (auto simp: at_block_def)
  have "at_block parse bs U (newUtxoCache mem, db) k k"
    using cache_inv_new [OF D(2), of mem] D(4) by (auto simp: at_block_def)
  from reconnectBlocks [OF assms(1,2,7) this, of "n - k"] D(1,5)
  show ?thesis using D(2,3) by (fastforce simp: at_block_def take_drop)
qed

end
