(* ===== verification/Example_Chain.thy ===== *)
theory Example_Chain
  imports Example_Inputs Utxo_Cache
begin

text \<open>
  Concrete inputs for the chain database and the UTXO cache: a public key parser that knows one key,
  a database with one unspent output, and a block that spends it.
\<close>

section \<open>A public key parser\<close>

definition ex_key65 :: bytes where "ex_key65 = 0x04 # replicate 64 1"
definition ex_key33 :: bytes where "ex_key33 = 0x03 # replicate 32 1"

definition ex_parse :: key_parser where
  "ex_parse k = (if k = ex_key65 \<or> k = ex_key33 then Some ex_key65 else None)"

lemma length_ex_keys: "length ex_key65 = 65" "length ex_key33 = 33"
  by (simp_all add: ex_key65_def ex_key33_def)

lemma sound_ex_parse: "sound_parser ex_parse"
  unfolding sound_parser_def
proof (intro allI impI, elim conjE)
  fix k :: bytes
  assume "length k = 65" and "ex_parse k \<noteq> None"
  then have k: "k = ex_key65" using length_ex_keys by (auto simp: ex_parse_def split: if_splits)
  have "k ! 64 = 1" by (simp add: k ex_key65_def nth_Cons')
  then have "(0x02 OR (k ! 64 AND 0x01)) # take 32 (drop 1 k) = ex_key33"
    by (simp add: k ex_key65_def ex_key33_def)
  then show "ex_parse ((0x02 OR (k ! 64 AND 0x01)) # take 32 (drop 1 k)) = Some k"
    by (simp add: ex_parse_def k)
qed

section \<open>A block that spends\<close>

definition ex_prev :: OutPoint where "ex_prev = \<lparr>Hash = 7, Index = 5\<rparr>"

definition ex_coin :: UtxoEntry where
  "ex_coin = \<lparr>amount = 1000, pkScript = [OP_1], blockHeight = 50, packedFlags = 0\<rparr>"

definition ex_spend :: MsgTx where
  "ex_spend = \<lparr>Version = 1,
     TxIn = [\<lparr>PreviousOutPoint = ex_prev, SignatureScript = [], Witness = [], Sequence = 0\<rparr>],
     TxOut = [\<lparr>Value = 0, PkScript = [OP_RETURN]\<rparr>, \<lparr>Value = 900, PkScript = [OP_1]\<rparr>], LockTime = 0\<rparr>"

definition ex_block2 :: Block where
  "ex_block2 = ex_block\<lparr>Transactions := [ex_coinbase, ex_spend]\<rparr>"

definition ex_set :: "OutPoint \<rightharpoonup> UtxoEntry" where "ex_set = [ex_prev \<mapsto> ex_coin]"

definition ex_view2 :: UtxoViewpoint where "ex_view2 = \<lparr>entries = ex_set, bestHash = 0\<rparr>"

lemma ex_spend_simps [simp]:
  "\<not> IsCoinBaseTx ex_spend"
  "TxIn ex_spend = [\<lparr>PreviousOutPoint = ex_prev, SignatureScript = [], Witness = [], Sequence = 0\<rparr>]"
  "TxOut ex_spend = [\<lparr>Value = 0, PkScript = [OP_RETURN]\<rparr>, \<lparr>Value = 900, PkScript = [OP_1]\<rparr>]"
  by (simp_all add: ex_spend_def IsCoinBaseTx_def ex_prev_def)

lemma ex_ops [simp]:
  "out_op ex_coinbase 0 \<noteq> ex_prev" "out_op ex_spend (Suc 0) \<noteq> ex_prev" "out_op ex_spend (Suc 0) \<noteq> out_op ex_coinbase 0"
  "ex_prev \<noteq> out_op ex_coinbase 0" "ex_prev \<noteq> out_op ex_spend (Suc 0)"
  by (simp_all add: out_op_def ex_prev_def)

lemma ex_block2_simps [simp]:
  "Transactions ex_block2 = [ex_coinbase, ex_spend]" "Height ex_block2 = 105" "PrevBlock (Header ex_block2) = 7"
  by (simp_all add: ex_block2_def ex_block_def)

lemma OP_RETURN_unspendable [simp]: "IsUnspendable [OP_RETURN]"
  by (simp add: IsUnspendable_def)

lemma ex_coin_flags [simp]: "\<not> IsSpent ex_coin" "\<not> isModified ex_coin" "\<not> isFresh ex_coin" "\<not> IsCoinBase ex_coin"
  by (simp_all add: ex_coin_def IsSpent_def isModified_def isFresh_def IsCoinBase_def tf_defs)

lemma ex_coin_stored [simp]: "stored ex_coin = ex_coin" "wf_entry ex_coin" "utxo_of ex_coin = (1000, [OP_1], 50, False)"
  by (simp_all add: stored_def utxo_of_def) (simp_all add: ex_coin_def wf_entry_def is_int32_def)

lemma ex_created [simp]: "created ex_coinbase = {out_op ex_coinbase 0}" "created ex_spend = {out_op ex_spend (Suc 0)}"
  by (auto simp: created_enumerate)

lemma ex_set_abs: "overlay ex_set Map.empty = [ex_prev \<mapsto> (1000, [OP_1], 50, False)]" "db_set ex_set = [ex_prev \<mapsto> (1000, [OP_1], 50, False)]"
  by (auto simp: overlay_def ex_set_def db_set_def fun_eq_iff)

lemma ex_connectable: "block_connectable ex_block2 [ex_prev \<mapsto> (1000, [OP_1], 50, False)]"
  by (simp add: block_connectable_def connectable_def spec_connect_def spends_live_def utxo_tx_def utxo_create_def
      journal_def stxo_of_utxo_def)

section \<open>A database with one output\<close>

definition ex_empty_cdb :: chain_db where
  "ex_empty_cdb = \<lparr>spendJournal = [], utxoSet = [], hashIndex = [], heightIndex = [], chainMeta = []\<rparr>"

definition ex_cdb :: chain_db where
  "ex_cdb = (case dbPutUtxoEntry ex_parse ex_prev ex_coin ex_empty_cdb of Inr db \<Rightarrow> db | Inl _ \<Rightarrow> ex_empty_cdb)"

lemma ex_cdb_rep: "utxo_rep ex_parse ex_cdb ex_set"
proof -
  have "utxo_rep ex_parse ex_empty_cdb Map.empty"
    by (simp add: utxo_rep_def ex_empty_cdb_def dbFetchUtxoEntry_def bucket_Get_def)
  from dbPutUtxoEntry_rep [OF sound_ex_parse this ex_coin_stored(2) ex_coin_flags(1), of ex_prev]
  show ?thesis by (auto simp: ex_cdb_def ex_set_def)
qed

lemma ex_cache_inv: "cache_inv ex_parse (newUtxoCache mem) ex_cdb ex_set" "cache_set (newUtxoCache mem) ex_set = db_set ex_set"
proof -
  have "wf_stored ex_set" by (simp add: wf_stored_def ex_set_def)
  then have "cache_inv ex_parse (newUtxoCache mem) ex_cdb ex_set"
    using ex_cdb_rep by (simp add: cache_inv_def newUtxoCache_def wf_ms_def ms_get_def)
  then show "cache_inv ex_parse (newUtxoCache mem) ex_cdb ex_set" "cache_set (newUtxoCache mem) ex_set = db_set ex_set"
    using cache_inv_new(2) by auto
qed

lemma ex_wf_outs: "wf_outs ex_coinbase" "wf_outs ex_spend"
  by (simp_all add: wf_outs_def)

lemma ex_new_to: "new_to ex_block2 ex_set"
  using ex_wf_outs by (simp add: new_to_def ex_set_def is_int32_def)

lemma ex_valid_chain: "valid_chain [ex_block2] (db_set ex_set)"
  using ex_connectable ex_wf_outs by (simp add: valid_chain_def ex_set_abs is_int32_def)

lemma ex_connect_view2:
  "\<exists>view'. connectTransactions ex_block2 (ex_view2, []) = Inr (view', [stxo_of ex_coin])"
  by (simp add: connectTransactions_def connectTransaction_def AddTxOuts_def addTxOut_def spendInput_def ex_view2_def ex_set_def
      out_op_def [symmetric])

lemma ex_wf_stxo: "wf_stxo (stxo_of ex_coin)"
  by (simp add: wf_stxo_def stxo_of_def) (simp add: ex_coin_def is_int32_def)

text \<open>A transaction with two inputs and one output, and a journal whose first entry has no height.\<close>

definition ex_spend2 :: "bytes \<Rightarrow> MsgTx" where
  "ex_spend2 script = \<lparr>Version = 1,
     TxIn = [\<lparr>PreviousOutPoint = \<lparr>Hash = 7, Index = 200000\<rparr>, SignatureScript = [], Witness = [], Sequence = 0\<rparr>,
             \<lparr>PreviousOutPoint = \<lparr>Hash = 7, Index = 200001\<rparr>, SignatureScript = [], Witness = [], Sequence = 0\<rparr>],
     TxOut = [\<lparr>Value = 900, PkScript = script\<rparr>], LockTime = 0\<rparr>"

definition ex_legacy :: "SpentTxOut list" where
  "ex_legacy = [(stxo_of ex_coin)\<lparr>st_Height := 0\<rparr>, stxo_of ex_coin]"

lemma MaxOutputsPerBlock_value: "MaxOutputsPerBlock = 111111"
  by (simp add: MaxOutputsPerBlock_def MaxBlockWeight_def MinTxOutputWeight_def WitnessScaleFactor_def MinTxOutPayload_def)

lemma ex_spend2_outs: "length (TxOut (ex_spend2 script)) \<le> MaxOutputsPerBlock"
  by (simp add: ex_spend2_def MaxOutputsPerBlock_value)

lemma ex_spend2_own: "\<forall>ti \<in> set (TxIn (ex_spend2 script)). not_own (ex_spend2 script) (PreviousOutPoint ti)"
proof -
  have u: "unat (of_nat k :: u32) = k" if "k < MaxOutputsPerBlock" for k
    using that by (simp add: unat_of_nat MaxOutputsPerBlock_value)
  have "(200000 :: u32) \<noteq> of_nat k" "(200001 :: u32) \<noteq> of_nat k" if "k < MaxOutputsPerBlock" for k
    using u [OF that] that by (auto simp: MaxOutputsPerBlock_value dest: arg_cong [of _ _ unat])
  then show ?thesis by (auto simp: not_own_def out_op_def ex_spend2_def)
qed

end
