(* ===== verification/Merkle.thy ===== *)
theory Merkle
  imports Rule_Error Tx_Sanity
begin

text \<open>
  Merkle roots and the witness commitment, \<open>blockchain/merkle.go\<close> and
  \<open>blockchain/rolling_merkle.go\<close>: the tree laid out in one array, the rolling store that keeps only
  the roots of the complete subtrees, and the checks on the commitment in the coinbase.

  Both constructions are compared with \<open>merkle_root\<close>, which builds one layer after the other and
  pairs the last hash of an odd layer with itself.  \<open>None\<close> is a call that does not return: an index
  out of range or an endless loop.  \<open>uint(math.Log2(float64(n)))\<close> is the exact integer logarithm,
  which it is for the number of transactions of a block.
\<close>

unbundle bit_operations_syntax

section \<open>The tree in an array\<close>

fun log2_floor :: "nat \<Rightarrow> nat" where
  "log2_floor n = (if n < 2 then 0 else log2_floor (n div 2) + 1)"

declare log2_floor.simps [simp del]

definition nextPowerOfTwo :: "nat \<Rightarrow> nat" where
  "nextPowerOfTwo n = (if n AND (n - 1) = 0 then n else 2 ^ (log2_floor n + 1))"

definition HashMerkleBranches :: "hash \<Rightarrow> hash \<Rightarrow> hash" where
  "HashMerkleBranches left right = DoubleHashRaw (hash_bytes left @ hash_bytes right)"

text \<open>The leaves: the coinbase counts as zero in the witness tree.\<close>

definition merkle_leaf :: "bool \<Rightarrow> nat \<Rightarrow> MsgTx \<Rightarrow> hash" where
  "merkle_leaf witness i tx =
     (if witness \<and> i = 0 then 0 else if witness then WitnessHash tx else TxHash tx)"

definition merkle_leaves :: "bool \<Rightarrow> MsgTx list \<Rightarrow> hash list" where
  "merkle_leaves witness txs = map (\<lambda>(i, tx). merkle_leaf witness i tx) (enumerate 0 txs)"

text \<open>The parent of two nodes of the array; \<open>None\<close> is a nil pointer.\<close>

fun merkle_parent :: "hash option \<Rightarrow> hash option \<Rightarrow> hash option" where
  "merkle_parent None r = None"
| "merkle_parent (Some l) None = Some (HashMerkleBranches l l)"
| "merkle_parent (Some l) (Some r) = Some (HashMerkleBranches l r)"

definition BuildMerkleTreeStore :: "MsgTx list \<Rightarrow> bool \<Rightarrow> hash option list option" where
  "BuildMerkleTreeStore transactions witness =
     (let nextPoT = nextPowerOfTwo (length transactions) in
      if nextPoT = 0 then None
      else
        let arraySize = nextPoT * 2 - 1;
            leaves = map Some (merkle_leaves witness transactions);
            merkles = leaves @ replicate (arraySize - length leaves) None
        in Some (fold (\<lambda>j ms. ms[nextPoT + j := merkle_parent (ms ! (2 * j)) (ms ! (2 * j + 1))])
                   [0..<nextPoT - 1] merkles))"

section \<open>The rolling store\<close>

record rollingMerkleTreeStore =
  roots :: "hash list"
  numLeaves :: u64

text \<open>The argument only sets the capacity of the slice.\<close>

definition newRollingMerkleTreeStore :: "u64 \<Rightarrow> rollingMerkleTreeStore" where
  "newRollingMerkleTreeStore n = \<lparr>roots = [], numLeaves = 0\<rparr>"

text \<open>The loop of \<open>add\<close>, which merges the new root with the roots of the same size.\<close>

function add_loop :: "u64 \<Rightarrow> nat \<Rightarrow> hash \<Rightarrow> hash list \<Rightarrow> (hash \<times> hash list) option" where
  "add_loop n h newRoot rs =
     (if bit n h then
        if rs = [] then None
        else add_loop n (h + 1) (HashMerkleBranches (last rs) newRoot) (butlast rs)
      else Some (newRoot, rs))"
  by pat_completeness auto
termination
  by (relation "measure (\<lambda>(n, h, _). 64 - h)") (auto dest: bit_imp_le_length)

declare add_loop.simps [simp del]

definition rms_add :: "hash \<Rightarrow> rollingMerkleTreeStore \<Rightarrow> rollingMerkleTreeStore option" where
  "rms_add x s =
     (case add_loop (numLeaves s) 0 x (roots s) of
        None \<Rightarrow> None
      | Some (newRoot, rs) \<Rightarrow> Some \<lparr>roots = rs @ [newRoot], numLeaves = numLeaves s + 1\<rparr>)"

fun rms_adds :: "hash list \<Rightarrow> rollingMerkleTreeStore \<Rightarrow> rollingMerkleTreeStore option" where
  "rms_adds [] s = Some s"
| "rms_adds (x # xs) s = Option.bind (rms_add x s) (rms_adds xs)"

text \<open>The inner loop of \<open>calcMerkleRoot\<close>: halve the number of leaves until it is odd.\<close>

partial_function (option) raise_loop :: "u64 \<Rightarrow> nat \<Rightarrow> u64 \<Rightarrow> u64 option" where
  "raise_loop current h n =
     (if bit current h then Some n else raise_loop current (h + 1) (drop_bit 1 n))"

partial_function (option) fold_roots :: "rollingMerkleTreeStore \<Rightarrow> hash option" where
  "fold_roots s =
     (if length (roots s) > 1 then
        Option.bind (raise_loop (numLeaves s) 0 (numLeaves s)) (\<lambda>n.
        Option.bind (rms_add (last (roots s)) (s\<lparr>numLeaves := n\<rparr>)) fold_roots)
      else if roots s = [] then None else Some (hd (roots s)))"

definition calcMerkleRoot :: "MsgTx list \<Rightarrow> bool \<Rightarrow> rollingMerkleTreeStore \<Rightarrow> hash option" where
  "calcMerkleRoot adds witness s0 =
     Option.bind (rms_adds (merkle_leaves witness adds) s0) (\<lambda>s.
       if numLeaves s = 1 then (if roots s = [] then None else Some (roots s ! 0))
       else Option.bind
         (if adds \<noteq> [] \<and> odd (length adds)
          then rms_add (if witness then WitnessHash (last adds) else TxHash (last adds)) s
          else Some s) fold_roots)"

definition CalcMerkleRoot :: "MsgTx list \<Rightarrow> bool \<Rightarrow> hash option" where
  "CalcMerkleRoot transactions witness =
     calcMerkleRoot transactions witness
       (newRollingMerkleTreeStore (of_nat (length transactions)))"

section \<open>The witness commitment\<close>

definition CoinbaseWitnessDataLen :: nat where "CoinbaseWitnessDataLen = 32"
definition CoinbaseWitnessPkScriptLength :: nat where "CoinbaseWitnessPkScriptLength = 38"

definition WitnessMagicBytes :: bytes where
  "WitnessMagicBytes = [0x6a, 0x24, 0xaa, 0x21, 0xa9, 0xed]"

definition isWitnessCommitmentScript :: "bytes \<Rightarrow> bool" where
  "isWitnessCommitmentScript pkScript \<longleftrightarrow>
     CoinbaseWitnessPkScriptLength \<le> length pkScript
     \<and> take (length WitnessMagicBytes) pkScript = WitnessMagicBytes"

text \<open>The last output that carries a commitment counts.\<close>

definition ExtractWitnessCommitment :: "MsgTx \<Rightarrow> bytes option" where
  "ExtractWitnessCommitment tx =
     (if \<not> IsCoinBaseTx tx then None
      else map_option
        (\<lambda>out. drop (length WitnessMagicBytes) (take CoinbaseWitnessPkScriptLength (PkScript out)))
        (find (\<lambda>out. isWitnessCommitmentScript (PkScript out)) (rev (TxOut tx))))"

definition ValidateWitnessCommitment :: "Block \<Rightarrow> rule_error + unit" where
  "ValidateWitnessCommitment blk =
     (case Transactions blk of
        [] \<Rightarrow> Inl ErrNoTransactions
      | coinbaseTx # _ \<Rightarrow>
          (case TxIn coinbaseTx of
             [] \<Rightarrow> Inl ErrNoTxInputs
           | ti # _ \<Rightarrow>
               (case ExtractWitnessCommitment coinbaseTx of
                  None \<Rightarrow>
                    guard_r (\<not> list_ex HasWitness (Transactions blk)) ErrUnexpectedWitness
                | Some commitment \<Rightarrow>
                    (case Witness ti of
                       [witnessNonce] \<Rightarrow>
                         if length witnessNonce \<noteq> CoinbaseWitnessDataLen
                         then Inl ErrInvalidWitnessCommitment
                         else
                           (case CalcMerkleRoot (Transactions blk) True of
                              None \<Rightarrow> Inl ErrIndexOutOfRange
                            | Some root \<Rightarrow>
                                guard_r
                                  (hash_bytes (DoubleHashRaw (hash_bytes root @ witnessNonce))
                                     = commitment) ErrWitnessCommitmentMismatch)
                     | _ \<Rightarrow> Inl ErrInvalidWitnessCommitment))))"

section \<open>The specification\<close>

fun merkle_layer :: "hash list \<Rightarrow> hash list" where
  "merkle_layer [] = []"
| "merkle_layer [x] = [HashMerkleBranches x x]"
| "merkle_layer (x # y # zs) = HashMerkleBranches x y # merkle_layer zs"

lemma length_merkle_layer [simp]: "length (merkle_layer xs) = (length xs + 1) div 2"
  by (induction xs rule: merkle_layer.induct) auto

function merkle_root :: "hash list \<Rightarrow> hash" where
  "merkle_root xs = (if length xs \<le> 1 then (if xs = [] then 0 else hd xs) else merkle_root (merkle_layer xs))"
  by pat_completeness auto
termination
  by (relation "measure length") auto

declare merkle_root.simps [simp del]

lemma merkle_root_single [simp]: "merkle_root [x] = x"
  by (subst merkle_root.simps) simp

lemma merkle_root_layer: "1 < length xs \<Longrightarrow> merkle_root (merkle_layer xs) = merkle_root xs"
  by (subst (2) merkle_root.simps) simp

section \<open>The rolling store computes the root\<close>

text \<open>The pairs of a layer, without the unpaired hash, and the roots the store keeps.\<close>

fun merkle_pairs :: "hash list \<Rightarrow> hash list" where
  "merkle_pairs (x # y # zs) = HashMerkleBranches x y # merkle_pairs zs"
| "merkle_pairs _ = []"

lemma length_merkle_pairs [simp]: "length (merkle_pairs xs) = length xs div 2"
  by (induction xs rule: merkle_pairs.induct) auto

function subtree_roots :: "hash list \<Rightarrow> hash list" where
  "subtree_roots xs =
     (if xs = [] then []
      else subtree_roots (merkle_pairs xs) @ (if odd (length xs) then [last xs] else []))"
  by pat_completeness auto
termination
  by (relation "measure length") auto

declare subtree_roots.simps [simp del]

lemma subtree_roots_Nil [simp]: "subtree_roots [] = []"
  by (subst subtree_roots.simps) simp

lemma subtree_roots_even: "even (length xs) \<Longrightarrow> subtree_roots xs = subtree_roots (merkle_pairs xs)"
  by (cases "xs = []") (simp, subst subtree_roots.simps, simp)

lemma subtree_roots_odd:
  "odd (length xs) \<Longrightarrow> subtree_roots xs = subtree_roots (merkle_pairs xs) @ [last xs]"
  by (subst subtree_roots.simps) auto

lemma subtree_roots_eq_Nil [simp]: "subtree_roots xs = [] \<longleftrightarrow> xs = []"
proof (induction xs rule: subtree_roots.induct)
  case (1 xs)
  show ?case
  proof (cases "odd (length xs)")
    case True
    then show ?thesis by (auto simp: subtree_roots_odd)
  next
    case False
    then show ?thesis
      using 1 by (cases xs rule: merkle_pairs.cases) (auto simp: subtree_roots_even)
  qed
qed

lemma merkle_pairs_snoc_even [simp]:
  "even (length xs) \<Longrightarrow> merkle_pairs (xs @ [x]) = merkle_pairs xs"
  by (induction xs rule: merkle_pairs.induct) auto

lemma merkle_pairs_snoc_odd:
  "odd (length xs) \<Longrightarrow> merkle_pairs (xs @ [x]) = merkle_pairs xs @ [HashMerkleBranches (last xs) x]"
proof (induction xs rule: merkle_pairs.induct)
  case (1 x y zs)
  then show ?case by (cases zs) auto
qed auto

lemma merkle_layer_even: "even (length xs) \<Longrightarrow> merkle_layer xs = merkle_pairs xs"
  by (induction xs rule: merkle_layer.induct) auto

lemma merkle_layer_odd:
  "odd (length xs) \<Longrightarrow> merkle_layer xs = merkle_layer (xs @ [last xs])"
proof (induction xs rule: merkle_layer.induct)
  case (3 x y zs)
  then show ?case by (cases zs) auto
qed auto

lemma merkle_root_dup_last:
  assumes "odd (length xs)" and "1 < length xs"
  shows "merkle_root (xs @ [last xs]) = merkle_root xs"
  using merkle_root_layer [of xs] merkle_root_layer [of "xs @ [last xs]"] merkle_layer_odd [OF assms(1)]
    assms(2) by (cases "xs = []") auto

lemma merkle_root_pairs:
  assumes "even (length xs)" and "xs \<noteq> []"
  shows "merkle_root (merkle_pairs xs) = merkle_root xs"
proof -
  have "1 < length xs" using assms by (cases xs rule: merkle_pairs.cases) auto
  then show ?thesis using merkle_root_layer [of xs] merkle_layer_even [OF assms(1)] by simp
qed

lemma merkle_root_of_single:
  "subtree_roots xs = [r] \<Longrightarrow> merkle_root xs = r"
proof (induction xs rule: subtree_roots.induct)
  case (1 xs)
  show ?case
  proof (cases "odd (length xs)")
    case True
    with 1(2) have "merkle_pairs xs = []" and "last xs = r" by (auto simp: subtree_roots_odd)
    then show ?thesis using True by (cases xs rule: merkle_pairs.cases) auto
  next
    case False
    with 1(2) have "xs \<noteq> []" and "subtree_roots (merkle_pairs xs) = [r]"
      by (auto simp: subtree_roots_even)
    then show ?thesis using 1(1) merkle_root_pairs [of xs] False by simp
  qed
qed

text \<open>The state of the store after \<open>xs\<close> has been added, and that adding keeps it.\<close>

definition rms_of :: "hash list \<Rightarrow> rollingMerkleTreeStore" where
  "rms_of xs = \<lparr>roots = subtree_roots xs, numLeaves = of_nat (length xs)\<rparr>"

lemma bit_drop_bit_0: "bit n h \<longleftrightarrow> odd (unat (drop_bit h (n :: u64)))"
proof -
  have "bit n h \<longleftrightarrow> bit (unat n) h"
    using bit_imp_le_length [of n h] by (auto simp: bit_unsigned_iff)
  then show ?thesis by (simp add: bit_iff_odd_drop_bit unat_drop_bit_eq)
qed

lemma add_loop_subtree_roots:
  assumes "unat (drop_bit h n) = length ys"
  shows "\<exists>r rs. add_loop n h x (subtree_roots ys) = Some (r, rs) \<and> rs @ [r] = subtree_roots (ys @ [x])"
  using assms
proof (induction ys arbitrary: h x rule: subtree_roots.induct)
  case (1 ys)
  show ?case
  proof (cases "odd (length ys)")
    case False
    then have "\<not> bit n h" using 1(2) by (simp add: bit_drop_bit_0)
    then show ?thesis
      using False by (subst add_loop.simps) (simp add: subtree_roots_odd subtree_roots_even)
  next
    case True
    then have b: "bit n h" and ne: "ys \<noteq> []" using 1(2) by (auto simp: bit_drop_bit_0)
    have d: "unat (drop_bit (h + 1) n) = length (merkle_pairs ys)"
      using 1(2) unfolding unat_drop_bit_eq
      by (metis drop_bit_eq_div div_mult2_eq power_add power_one_right length_merkle_pairs)
    have "add_loop n h x (subtree_roots ys)
            = add_loop n (h + 1) (HashMerkleBranches (last ys) x) (subtree_roots (merkle_pairs ys))"
      using b True by (subst add_loop.simps) (simp add: subtree_roots_odd)
    moreover have "subtree_roots (ys @ [x])
                     = subtree_roots (merkle_pairs ys @ [HashMerkleBranches (last ys) x])"
      using True by (simp add: subtree_roots_even merkle_pairs_snoc_odd)
    ultimately show ?thesis using 1(1) [OF ne d] by simp
  qed
qed

lemma rms_add_of:
  assumes "length xs < 2 ^ 64"
  shows "rms_add x (rms_of xs) = Some (rms_of (xs @ [x]))"
proof -
  have "unat (drop_bit 0 (of_nat (length xs) :: u64)) = length xs"
    using assms by (simp add: unat_of_nat)
  from add_loop_subtree_roots [OF this, of x] show ?thesis
    by (auto simp: rms_add_def rms_of_def)
qed

lemma rms_adds_of:
  "length ys + length xs \<le> 2 ^ 64 \<Longrightarrow> rms_adds xs (rms_of ys) = Some (rms_of (ys @ xs))"
  by (induction xs arbitrary: ys) (auto simp: rms_add_of)

lemma raise_loop_of:
  assumes "drop_bit h current = of_nat (length ys)" and "ys \<noteq> []" and "length ys < 2 ^ 64"
  shows "\<exists>zs. raise_loop current h (drop_bit h current) = Some (of_nat (length zs))
           \<and> odd (length zs) \<and> subtree_roots zs = subtree_roots ys \<and> merkle_root zs = merkle_root ys
           \<and> length zs \<le> length ys \<and> (even (length ys) \<longrightarrow> 2 * length zs \<le> length ys)"
  using assms
proof (induction ys arbitrary: h rule: subtree_roots.induct)
  case (1 ys)
  have u: "unat (drop_bit h current) = length ys" using 1(2,4) by (simp add: unat_of_nat)
  show ?case
  proof (cases "odd (length ys)")
    case True
    then have "bit current h" using u by (simp add: bit_drop_bit_0)
    then have "raise_loop current h (drop_bit h current) = Some (of_nat (length ys))"
      using 1(2) by (subst raise_loop.simps) simp
    then show ?thesis using True by blast
  next
    case False
    then have nb: "\<not> bit current h" using u by (simp add: bit_drop_bit_0)
    have d: "drop_bit (h + 1) current = drop_bit 1 (drop_bit h current)" by simp
    have "unat (drop_bit 1 (of_nat (length ys) :: u64)) = length ys div 2"
      using 1(4) unfolding unat_drop_bit_eq by (simp add: unat_of_nat drop_bit_eq_div)
    then have "drop_bit 1 (of_nat (length ys) :: u64) = of_nat (length ys div 2)"
      by (metis of_nat_unat ucast_id)
    then have e: "drop_bit (h + 1) current = of_nat (length (merkle_pairs ys))"
      using d 1(2) by simp
    have ne: "merkle_pairs ys \<noteq> []" using 1(3) False by (cases ys rule: merkle_pairs.cases) auto
    have "raise_loop current h (drop_bit h current) = raise_loop current (h + 1) (drop_bit (h + 1) current)"
      using nb by (subst raise_loop.simps) simp
    moreover obtain zs where "raise_loop current (h + 1) (drop_bit (h + 1) current) = Some (of_nat (length zs))"
      and "odd (length zs)" "subtree_roots zs = subtree_roots (merkle_pairs ys)"
      and "merkle_root zs = merkle_root (merkle_pairs ys)" "length zs \<le> length ys div 2"
      using 1(1) [OF 1(3) e ne] 1(4) by (auto dest: order.strict_trans1 [OF div_le_dividend])
    ultimately show ?thesis
      using False 1(3) by (intro exI [of _ zs]) (auto simp: subtree_roots_even merkle_root_pairs)
  qed
qed

lemma fold_roots_of:
  "even (length ys) \<Longrightarrow> ys \<noteq> [] \<Longrightarrow> length ys < 2 ^ 64 \<Longrightarrow>
     fold_roots (rms_of ys) = Some (merkle_root ys)"
proof (induction ys rule: length_induct)
  case (1 ys)
  show ?case
  proof (cases "1 < length (subtree_roots ys)")
    case True
    obtain zs where z: "raise_loop (of_nat (length ys)) 0 (of_nat (length ys)) = Some (of_nat (length zs))"
      "odd (length zs)" "subtree_roots zs = subtree_roots ys" "merkle_root zs = merkle_root ys"
      "2 * length zs \<le> length ys"
      using raise_loop_of [of 0 "of_nat (length ys)" ys] 1 by auto
    have "length zs \<noteq> 1"
    proof
      assume "length zs = 1"
      then obtain z where "zs = [z]" by (auto simp: length_Suc_conv)
      then show False using True unfolding z(3) [symmetric] by (simp add: subtree_roots_odd)
    qed
    then have l: "1 < length zs" using z(2) by (cases "length zs") auto
    define ws where "ws = zs @ [last zs]"
    have "last (subtree_roots ys) = last zs"
      unfolding z(3) [symmetric] using z(2) by (simp add: subtree_roots_odd)
    moreover have "(rms_of ys)\<lparr>numLeaves := of_nat (length zs)\<rparr> = rms_of zs"
      using z(3) by (simp add: rms_of_def)
    ultimately have "rms_add (last (subtree_roots ys)) ((rms_of ys)\<lparr>numLeaves := of_nat (length zs)\<rparr>)
        = Some (rms_of ws)"
      using rms_add_of [of zs "last zs"] z(5) 1(4) by (simp add: ws_def)
    then have "fold_roots (rms_of ys) = fold_roots (rms_of ws)"
      using True z(1) by (subst fold_roots.simps) (simp add: rms_of_def)
    moreover have "fold_roots (rms_of ws) = Some (merkle_root ws)"
      using 1(1) [rule_format, of ws] z l 1(4) by (auto simp: ws_def)
    moreover have "merkle_root ws = merkle_root ys"
      using merkle_root_dup_last [OF z(2) l] z(4) by (simp add: ws_def)
    ultimately show ?thesis by simp
  next
    case False
    then obtain r where "subtree_roots ys = [r]"
      using 1(3) by (cases "subtree_roots ys") (auto simp: Suc_lessI)
    then show ?thesis using merkle_root_of_single [of ys] by (subst fold_roots.simps) (simp add: rms_of_def)
  qed
qed

lemma length_merkle_leaves [simp]: "length (merkle_leaves witness txs) = length txs"
  by (simp add: merkle_leaves_def)

lemma merkle_leaves_eq_Nil [simp]: "merkle_leaves witness txs = [] \<longleftrightarrow> txs = []"
  by (simp add: merkle_leaves_def flip: length_0_conv)

lemma last_merkle_leaves:
  assumes "1 < length txs"
  shows "last (merkle_leaves witness txs) = (if witness then WitnessHash (last txs) else TxHash (last txs))"
proof -
  have "last (merkle_leaves witness txs) = merkle_leaf witness (length txs - 1) (last txs)"
    using assms by (subst (1 2) last_conv_nth) (auto simp: merkle_leaves_def nth_enumerate_eq simp flip: length_0_conv)
  then show ?thesis using assms by (simp add: merkle_leaf_def)
qed

lemma CalcMerkleRoot_eq_root:
  assumes "txs \<noteq> []" and "length txs < 2 ^ 63"
  shows "CalcMerkleRoot txs witness = Some (merkle_root (merkle_leaves witness txs))"
proof -
  define ls where "ls = merkle_leaves witness txs"
  have len: "length ls = length txs" by (simp add: ls_def)
  have "rms_adds ls (newRollingMerkleTreeStore n) = Some (rms_of ls)" for n
    using rms_adds_of [of "[]" ls] assms len by (simp add: newRollingMerkleTreeStore_def rms_of_def)
  then have C: "CalcMerkleRoot txs witness =
      (if numLeaves (rms_of ls) = 1 then Some (subtree_roots ls ! 0)
       else Option.bind
         (if odd (length txs) then rms_add (if witness then WitnessHash (last txs) else TxHash (last txs)) (rms_of ls)
          else Some (rms_of ls)) fold_roots)"
    using assms(1) len by (auto simp: CalcMerkleRoot_def calcMerkleRoot_def rms_of_def simp flip: ls_def)
  have one: "numLeaves (rms_of ls) = 1 \<longleftrightarrow> length txs = 1"
    using assms(2) len by (simp add: rms_of_def word_unat_eq_iff unat_of_nat)
  show ?thesis
  proof (cases "length txs = 1")
    case True
    then obtain x where "ls = [x]" using len by (auto simp: length_Suc_conv)
    then show ?thesis using C one True unfolding ls_def [symmetric] by (simp add: subtree_roots_odd)
  next
    case False
    then have l: "1 < length txs" using assms(1) by (cases txs) auto
    show ?thesis
    proof (cases "odd (length txs)")
      case True
      then have "fold_roots (rms_of (ls @ [last ls])) = Some (merkle_root ls)"
        using fold_roots_of [of "ls @ [last ls]"] merkle_root_dup_last [of ls] l len assms(2) by simp
      then show ?thesis
        using C one False True rms_add_of [of ls "last ls"] last_merkle_leaves [OF l, of witness] len assms(2)
        unfolding ls_def [symmetric] by simp
    next
      case even: False
      then show ?thesis
        using C one False fold_roots_of [of ls] len assms unfolding ls_def [symmetric]
        by (cases "ls = []") auto
    qed
  qed
qed

lemma CalcMerkleRoot_Nil [simp]: "CalcMerkleRoot [] witness = None"
  by (simp add: CalcMerkleRoot_def calcMerkleRoot_def newRollingMerkleTreeStore_def merkle_leaves_def
      fold_roots.simps)

section \<open>The array holds the layers\<close>

fun option_layer :: "hash option list \<Rightarrow> hash option list" where
  "option_layer (x # y # zs) = merkle_parent x y # option_layer zs"
| "option_layer _ = []"

lemma length_option_layer [simp]: "length (option_layer xs) = length xs div 2"
  by (induction xs rule: option_layer.induct) auto

lemma nth_option_layer:
  "2 * j + 1 < length xs \<Longrightarrow> option_layer xs ! j = merkle_parent (xs ! (2 * j)) (xs ! (2 * j + 1))"
proof (induction xs arbitrary: j rule: option_layer.induct)
  case (1 x y zs)
  then show ?case by (cases j) auto
qed auto

lemma option_layer_None: "option_layer (replicate (2 * m) None) = replicate m None"
  by (induction m) auto

lemma option_layer_leaves:
  "even (length xs + m) \<Longrightarrow>
     option_layer (map Some xs @ replicate m None) = map Some (merkle_layer xs) @ replicate (m div 2) None"
proof (induction xs rule: merkle_layer.induct)
  case 1
  then show ?case using option_layer_None [of "m div 2"] by (auto elim: evenE)
next
  case (2 x)
  then obtain k where "m = Suc (2 * k)" by (auto elim: oddE)
  then show ?case by (simp add: option_layer_None)
qed auto

text \<open>All layers one after the other, over \<open>2 ^ k\<close> leaves.\<close>

fun all_layers :: "nat \<Rightarrow> hash option list \<Rightarrow> hash option list" where
  "all_layers 0 xs = xs"
| "all_layers (Suc k) xs = xs @ all_layers k (option_layer xs)"

lemma length_all_layers: "length xs = 2 ^ k \<Longrightarrow> length (all_layers k xs) = 2 * 2 ^ k - 1"
  by (induction k arbitrary: xs) (simp_all add: mult_2 Suc_diff_Suc)

lemma take_all_layers: "length xs = 2 ^ k \<Longrightarrow> take (2 ^ k) (all_layers k xs) = xs"
  by (cases k) simp_all

lemma all_layers_not_Nil: "length xs = 2 ^ k \<Longrightarrow> all_layers k xs \<noteq> []"
  using take_all_layers [of xs k] by (cases xs) auto

lemma nth_all_layers:
  assumes "length xs = 2 ^ k" and "j < 2 ^ k - 1"
  shows "all_layers k xs ! (2 ^ k + j)
           = merkle_parent (all_layers k xs ! (2 * j)) (all_layers k xs ! (2 * j + 1))"
  using assms
proof (induction k arbitrary: xs j)
  case (Suc k)
  let ?A = "all_layers k (option_layer xs)"
  have len: "length (option_layer xs) = 2 ^ k" using Suc.prems(1) by simp
  show ?case
  proof (cases "j < 2 ^ k")
    case True
    have "?A ! j = option_layer xs ! j"
      using take_all_layers [OF len] True by (metis nth_take)
    then show ?thesis using Suc.prems True nth_option_layer [of j xs] by (simp add: nth_append)
  next
    case False
    then obtain i where j: "j = 2 ^ k + i" using le_Suc_ex not_less by blast
    have "?A ! (2 ^ k + i) = merkle_parent (?A ! (2 * i)) (?A ! (2 * i + 1))"
      using Suc.IH [OF len] Suc.prems(2) j by simp
    then show ?thesis using Suc.prems j by (simp add: nth_append algebra_simps)
  qed
qed simp

lemma fill_all_layers:
  assumes "length xs = 2 ^ k" and "m \<le> 2 ^ k - 1"
  shows "fold (\<lambda>j ms. ms[2 ^ k + j := merkle_parent (ms ! (2 * j)) (ms ! (2 * j + 1))]) [0..<m]
           (xs @ replicate (2 ^ k - 1) None)
         = take (2 ^ k + m) (all_layers k xs) @ replicate (2 ^ k - 1 - m) None"
  using assms(2)
proof (induction m)
  case 0
  show ?case using take_all_layers [OF assms(1)] by simp
next
  case (Suc m)
  let ?A = "all_layers k xs"
  have l: "2 ^ k + m < length ?A" using Suc.prems length_all_layers [OF assms(1)] by simp
  have P: "merkle_parent (?A ! (2 * m)) (?A ! (2 * m + 1)) = ?A ! (2 ^ k + m)"
    using nth_all_layers [OF assms(1), of m] Suc.prems by simp
  have m: "Suc m < 2 ^ k" using Suc.prems by simp
  then have r: "replicate (2 ^ k - Suc m) (None :: hash option) = None # replicate (2 ^ k - Suc (Suc m)) None"
    by (simp add: Suc_diff_Suc flip: replicate_Suc)
  show ?case
    using Suc l P m take_Suc_conv_app_nth [OF l] by (simp add: nth_append list_update_append r)
qed

lemma last_all_layers:
  "length xs + m = 2 ^ k \<Longrightarrow> 2 ^ k < 2 * length xs \<Longrightarrow>
     last (all_layers k (map Some xs @ replicate m None)) = Some (merkle_root xs)"
proof (induction k arbitrary: xs m)
  case 0
  then have "length xs = 1" and "m = 0" by auto
  then show ?case by (auto simp: length_Suc_conv)
next
  case (Suc k)
  have l: "1 < length xs" using Suc.prems by (cases k) auto
  have e: "even (length xs + m)" using Suc.prems(1) by simp
  have h: "length (merkle_layer xs) + m div 2 = 2 ^ k"
    using Suc.prems(1) by simp
  have "2 ^ k < 2 * length (merkle_layer xs)" using Suc.prems(2) by simp
  then have "last (all_layers k (map Some (merkle_layer xs) @ replicate (m div 2) None))
               = Some (merkle_root (merkle_layer xs))"
    using Suc.IH [OF h] by simp
  moreover have "all_layers k (map Some (merkle_layer xs) @ replicate (m div 2) None) \<noteq> []"
    using all_layers_not_Nil [of "map Some (merkle_layer xs) @ replicate (m div 2) None" k] h by simp
  ultimately show ?case using option_layer_leaves [OF e] merkle_root_layer [OF l] by simp
qed

lemma log2_floor_bounds: "0 < n \<Longrightarrow> 2 ^ log2_floor n \<le> n \<and> n < 2 * 2 ^ log2_floor n"
proof (induction n rule: log2_floor.induct)
  case (1 n)
  show ?case
  proof (cases "n < 2")
    case True
    then show ?thesis using 1(2) by (simp add: log2_floor.simps)
  next
    case False
    then have "2 ^ log2_floor (n div 2) \<le> n div 2" and "n div 2 < 2 * 2 ^ log2_floor (n div 2)"
      using 1 by auto
    then show ?thesis using False by (subst (1 2) log2_floor.simps) auto
  qed
qed

lemma and_pred_power: "(2 ^ j :: nat) AND (2 ^ j - 1) = 0"
proof -
  have "(2 ^ j :: nat) AND (2 ^ j - 1) = take_bit j (2 ^ j)"
    by (simp add: take_bit_eq_mask mask_eq_exp_minus_1)
  then show ?thesis by (simp add: take_bit_eq_mod)
qed

lemma power_of_and_pred: "0 < n \<Longrightarrow> n AND (n - 1) = 0 \<Longrightarrow> \<exists>k. n = 2 ^ k" for n :: nat
proof (induction n rule: less_induct)
  case (less n)
  show ?case
  proof (cases "even n")
    case True
    then obtain m where m: "n = 2 * m" "0 < m" using less.prems(1) by (auto elim: evenE)
    then have "(n - 1) div 2 = m - 1" by presburger
    then have "n AND (n - 1) = 2 * (m AND (m - 1))"
      using m(1) by (subst and_rec) simp
    then obtain k where "m = 2 ^ k" using less.IH [of m] less.prems m by auto
    then show ?thesis using m(1) by (metis power_Suc)
  next
    case False
    then obtain m where m: "n = 2 * m + 1" by (auto elim: oddE)
    then have "n AND (n - 1) = 2 * m" by (subst and_rec) simp
    then have "n = 2 ^ 0" using less.prems(2) m by simp
    then show ?thesis by blast
  qed
qed

lemma nextPowerOfTwo_bounds:
  assumes "0 < n"
  shows "\<exists>k. nextPowerOfTwo n = 2 ^ k \<and> n \<le> 2 ^ k \<and> 2 ^ k < 2 * n"
proof (cases "n AND (n - 1) = 0")
  case True
  then show ?thesis using power_of_and_pred [OF assms] assms by (auto simp: nextPowerOfTwo_def)
next
  case False
  then have "n \<noteq> 2 ^ log2_floor n" using and_pred_power by metis
  then show ?thesis
    using False log2_floor_bounds [OF assms]
    by (intro exI [of _ "log2_floor n + 1"]) (auto simp: nextPowerOfTwo_def)
qed

lemma BuildMerkleTreeStore_root:
  assumes "txs \<noteq> []"
  shows "\<exists>ms. BuildMerkleTreeStore txs witness = Some ms \<and> ms \<noteq> []
           \<and> last ms = Some (merkle_root (merkle_leaves witness txs))"
proof -
  obtain k where k: "nextPowerOfTwo (length txs) = 2 ^ k" "length txs \<le> 2 ^ k" "2 ^ k < 2 * length txs"
    using nextPowerOfTwo_bounds [of "length txs"] assms by auto
  let ?ls = "merkle_leaves witness txs" and ?m = "2 ^ k - length txs"
  let ?xs = "map Some ?ls @ replicate ?m None"
  have len: "length ?xs = 2 ^ k" using k(2) by simp
  have a: "2 ^ k * 2 - 1 - length txs = ?m + (2 ^ k - 1)" using k(2) by simp
  have "BuildMerkleTreeStore txs witness = Some (all_layers k ?xs)"
    using fill_all_layers [OF len order.refl] length_all_layers [OF len] k(1)
    unfolding BuildMerkleTreeStore_def Let_def length_map length_merkle_leaves k(1) a replicate_add
    by (simp add: mult_2)
  moreover have "all_layers k ?xs \<noteq> []" using all_layers_not_Nil [OF len] .
  ultimately show ?thesis using last_all_layers [of ?ls ?m k] k by auto
qed

section \<open>Properties\<close>

text \<open>C32: for every non-empty list of transactions the rolling store returns a root, and it is the
  last node of the tree that \<open>BuildMerkleTreeStore\<close> lays out, which is the root obtained by
  hashing one layer after the other.\<close>

theorem rolling_root_is_array_root:
  assumes "txs \<noteq> []" and "length txs < 2 ^ 63"
  shows "\<exists>ms. BuildMerkleTreeStore txs witness = Some ms \<and> ms \<noteq> []
           \<and> CalcMerkleRoot txs witness = last ms
           \<and> CalcMerkleRoot txs witness = Some (merkle_root (merkle_leaves witness txs))"
  using BuildMerkleTreeStore_root [OF assms(1), of witness] CalcMerkleRoot_eq_root [OF assms, of witness]
  by auto

theorem rolling_root_is_array_root_witness:
  "\<exists>ms. BuildMerkleTreeStore (replicate 3 (NewMsgTx 1)) False = Some ms \<and> ms \<noteq> []
     \<and> CalcMerkleRoot (replicate 3 (NewMsgTx 1)) False = last ms"
  using rolling_root_is_array_root [of "replicate 3 (NewMsgTx 1)" False] by auto

text \<open>The witness commitment of a block of fewer than \<open>2 ^ 63\<close> transactions is accepted
  exactly when the coinbase has an input and either no commitment output and no transaction with a
  witness, or one nonce of 32 bytes with which the witness root hashes to the commitment in the last
  commitment output.\<close>

theorem witness_commitment_exact:
  assumes "length (Transactions blk) < 2 ^ 63"
  shows "ValidateWitnessCommitment blk = Inr () \<longleftrightarrow>
    (\<exists>cb txs ti tis. Transactions blk = cb # txs \<and> TxIn cb = ti # tis
       \<and> (case ExtractWitnessCommitment cb of
            None \<Rightarrow> list_all (\<lambda>tx. \<not> HasWitness tx) (cb # txs)
          | Some commitment \<Rightarrow> (\<exists>nonce. Witness ti = [nonce] \<and> length nonce = 32
              \<and> hash_bytes (DoubleHashRaw (hash_bytes (merkle_root (merkle_leaves True (cb # txs))) @ nonce))
                  = commitment)))"
proof (cases "Transactions blk")
  case (Cons cb txs)
  have "CalcMerkleRoot (cb # txs) True = Some (merkle_root (merkle_leaves True (cb # txs)))"
    using CalcMerkleRoot_eq_root [of "cb # txs" True] assms Cons by simp
  then show ?thesis
    using Cons
    by (auto simp: ValidateWitnessCommitment_def guard_r_eq_Inr CoinbaseWitnessDataLen_def
        list_all_iff list_ex_iff split: list.splits option.splits)
qed (simp add: ValidateWitnessCommitment_def)

theorem witness_commitment_exact_witness:
  "ValidateWitnessCommitment
     \<lparr>Header = \<lparr>BlockVersion = 1, PrevBlock = 0, MerkleRoot = 0, Timestamp = 0, Bits = 0, Nonce = 0\<rparr>,
      Transactions =
        [(NewMsgTx 1)\<lparr>TxIn := [\<lparr>PreviousOutPoint = \<lparr>Hash = 0, Index = 0xffffffff\<rparr>,
            SignatureScript = [], Witness = [], Sequence = 0\<rparr>]\<rparr>],
      Height = 0\<rparr> = Inr ()"
  by (subst witness_commitment_exact)
    (simp_all add: NewMsgTx_def ExtractWitnessCommitment_def HasWitness_def)

end
