(* ===== verification/Work_Math.thy ===== *)
theory Work_Math
  imports Wire_Tx
begin

text \<open>
  Targets and work, \<open>blockchain/internal/workmath/difficulty.go\<close>: the compact form of a target and
  the work a block stands for.  A \<open>big.Int\<close> is an \<open>int\<close>; its \<open>Bytes\<close> are those of the absolute
  value, and \<open>Rsh\<close> shifts arithmetically.
\<close>

unbundle bit_operations_syntax

section \<open>Definitions\<close>

definition HashToBig :: "hash \<Rightarrow> int" where
  "HashToBig h = int (be_val (rev (hash_bytes h)))"

definition CompactToBig :: "u32 \<Rightarrow> int" where
  "CompactToBig compact =
     (let mantissa = compact AND 0x007fffff;
          isNegative = (compact AND 0x00800000 \<noteq> 0);
          exponent = unat (drop_bit 24 compact);
          bn = (if exponent \<le> 3 then int (unat (drop_bit (8 * (3 - exponent)) mantissa))
                else push_bit (8 * (exponent - 3)) (int (unat mantissa)))
      in if isNegative then - bn else bn)"

text \<open>The number of bytes of an absolute value.\<close>

fun byte_len :: "nat \<Rightarrow> nat" where
  "byte_len n = (if n = 0 then 0 else byte_len (n div 256) + 1)"

declare byte_len.simps [simp del]

definition BigToCompact :: "int \<Rightarrow> u32" where
  "BigToCompact n =
     (if n = 0 then 0
      else
        let exponent = byte_len (nat \<bar>n\<bar>);
            mantissa = (if exponent \<le> 3
                        then push_bit (8 * (3 - exponent)) (word_of_int \<bar>n\<bar> :: u32)
                        else word_of_int \<bar>drop_bit (8 * (exponent - 3)) n\<bar>);
            (mantissa', exponent') = (if mantissa AND 0x00800000 \<noteq> 0
                                      then (drop_bit 8 mantissa, exponent + 1)
                                      else (mantissa, exponent));
            compact = push_bit 24 (of_nat exponent') OR mantissa'
        in if n < 0 then compact OR 0x00800000 else compact)"

definition CalcWork :: "u32 \<Rightarrow> int" where
  "CalcWork bits =
     (let difficultyNum = CompactToBig bits in
      if difficultyNum \<le> 0 then 0 else 2 ^ 256 div (difficultyNum + 1))"

section \<open>The compact form\<close>

lemma byte_len_bounds: "0 < n \<Longrightarrow> 256 ^ (byte_len n - 1) \<le> n \<and> n < 256 ^ byte_len n \<and> 0 < byte_len n"
proof (induction n rule: byte_len.induct)
  case (1 n)
  show ?case
  proof (cases "n < 256")
    case True
    then show ?thesis using 1(2) by (simp add: byte_len.simps [of n] byte_len.simps [of 0])
  next
    case False
    define k where "k = byte_len (n div 256)"
    have IH: "256 ^ (k - 1) \<le> n div 256" "n div 256 < 256 ^ k" "0 < k"
      using 1 False by (auto simp: k_def)
    have e: "byte_len n = k + 1" using 1(2) by (subst byte_len.simps) (simp add: k_def)
    have "256 * 256 ^ (k - 1) \<le> n" using IH(1) by (simp add: less_eq_div_iff_mult_less_eq mult.commute)
    moreover have "n < 256 * 256 ^ k" using IH(2) by (simp add: div_less_iff_less_mult mult.commute)
    ultimately show ?thesis using IH(3) by (simp add: e flip: power_Suc)
  qed
qed

text \<open>The mantissa read at an exponent, and the exponent the compact form uses.\<close>

definition mantissa_at :: "nat \<Rightarrow> nat \<Rightarrow> nat" where
  "mantissa_at n x = (if x \<le> 3 then n * 256 ^ (3 - x) else n div 256 ^ (x - 3))"

definition compact_exponent :: "nat \<Rightarrow> nat" where
  "compact_exponent n =
     (let e = byte_len n in if 2 ^ 23 \<le> mantissa_at n e then e + 1 else e)"

lemma mantissa_at_byte_len:
  assumes "0 < n"
  shows "2 ^ 16 \<le> mantissa_at n (byte_len n) \<and> mantissa_at n (byte_len n) < 2 ^ 24"
proof -
  define e where "e = byte_len n"
  have b: "256 ^ (e - 1) \<le> n" "n < 256 ^ e" "0 < e" using byte_len_bounds [OF assms] by (auto simp: e_def)
  show ?thesis
  proof (cases "e \<le> 3")
    case True
    then have "256 ^ (e - 1) * 256 ^ (3 - e) = (256 ^ 2 :: nat)" "256 ^ e * 256 ^ (3 - e) = (256 ^ 3 :: nat)"
      using b(3) by (simp_all flip: power_add)
    moreover have "256 ^ (e - 1) * 256 ^ (3 - e) \<le> n * 256 ^ (3 - e)" "n * 256 ^ (3 - e) < 256 ^ e * 256 ^ (3 - e)"
      using b by simp_all
    ultimately show ?thesis using True by (simp add: mantissa_at_def flip: e_def)
  next
    case False
    then obtain k where "e = 4 + k" by (metis add.commute le_Suc_ex not_less_eq_eq numeral_eq_Suc pred_numeral_simps(2) semiring_norm(26) BitM.simps)
    then have "256 ^ (e - 1) = (256 ^ 2 * 256 ^ (e - 3) :: nat)" "256 ^ e = (256 ^ 3 * 256 ^ (e - 3) :: nat)"
      by (simp_all add: power_add)
    then have "256 ^ 2 \<le> n div 256 ^ (e - 3)" "n div 256 ^ (e - 3) < 256 ^ 3"
      using b by (simp_all add: less_eq_div_iff_mult_less_eq div_less_iff_less_mult)
    then show ?thesis using False by (simp add: mantissa_at_def flip: e_def)
  qed
qed

lemma mantissa_at_Suc: "mantissa_at n (Suc x) = mantissa_at n x div 256"
proof -
  consider "x < 3" | "x = 3" | "3 < x" by linarith
  then show ?thesis
  proof cases
    case 1
    then have "256 ^ (3 - x) = (256 * 256 ^ (3 - Suc x) :: nat)"
      by (simp add: Suc_diff_Suc numeral_3_eq_3 flip: power_Suc)
    then show ?thesis using 1 by (simp add: mantissa_at_def)
  next
    case 3
    then have "Suc x - 3 = Suc (x - 3)" by simp
    then show ?thesis using 3 by (simp add: mantissa_at_def div_mult2_eq mult.commute [of 256])
  qed (simp add: mantissa_at_def)
qed

lemma compact_mantissa_bounds:
  assumes "0 < n"
  shows "2 ^ 15 \<le> mantissa_at n (compact_exponent n) \<and> mantissa_at n (compact_exponent n) < 2 ^ 23"
  using mantissa_at_byte_len [OF assms]
  by (auto simp: compact_exponent_def Let_def mantissa_at_Suc less_eq_div_iff_mult_less_eq)

lemma compact_exponent_ge: "byte_len n \<le> compact_exponent n" "compact_exponent n \<le> byte_len n + 1"
  by (simp_all add: compact_exponent_def Let_def)

lemma and_bit_23: "(c AND 0x00800000 = 0) = (\<not> bit c 23)" for c :: u32
  using and_exp_eq_0_iff_not_bit [of c 23] by simp

lemma unat_drop_bit: "unat (drop_bit k w) = unat w div 2 ^ k" for w :: "'a :: len word"
  unfolding unat_drop_bit_eq by (simp add: drop_bit_eq_div)

lemma bit_unat_iff: "bit w n \<longleftrightarrow> odd (unat w div 2 ^ n)" for w :: "'a :: len word"
proof -
  have "bit w n \<longleftrightarrow> bit (unat w) n" by (auto simp: bit_unsigned_iff dest: bit_imp_le_length)
  then show ?thesis by (simp add: bit_iff_odd)
qed

lemma bit_23_iff: "unat c < 2 ^ 24 \<Longrightarrow> bit c 23 \<longleftrightarrow> 2 ^ 23 \<le> unat c" for c :: u32
proof -
  assume "unat c < 2 ^ 24"
  then have "unat c div 2 ^ 23 < 2" by (simp add: div_less_iff_less_mult)
  then have "unat c div 2 ^ 23 = 0 \<or> unat c div 2 ^ 23 = 1" by linarith
  then show ?thesis unfolding bit_unat_iff by (auto simp: div_eq_0_iff)
qed

lemma CompactToBig_parts:
  assumes "unat c = x * 2 ^ 24 + m" and "m < 2 ^ 23"
  shows "CompactToBig c = int (if x \<le> 3 then m div 256 ^ (3 - x) else m * 256 ^ (x - 3))"
proof -
  have "c AND 0x007fffff = take_bit 23 c" by (simp add: take_bit_eq_mask mask_eq_exp_minus_1)
  then have "unat (c AND 0x007fffff) = take_bit 23 (unat c)" by (simp only: unsigned_take_bit_eq)
  also have "unat c = m + (2 * x) * 2 ^ 23" using assms(1) by simp
  finally have ma: "unat (c AND 0x007fffff) = m"
    unfolding take_bit_eq_mod mod_mult_self1 using assms(2) by simp
  have "(x * 2 ^ 24 + m) div 2 ^ 23 = 2 * x" using assms(2) by simp
  then have nb: "\<not> bit c 23" unfolding bit_unat_iff assms(1) by simp
  have ex: "unat (drop_bit 24 c) = x"
    unfolding unat_drop_bit assms(1) using assms(2) by simp
  show ?thesis
    unfolding CompactToBig_def Let_def and_bit_23 ex unfolding unat_drop_bit ma using nb
    by (simp add: push_bit_eq_mult power_mult)
qed

lemma BigToCompact_parts:
  assumes "0 < n" and "byte_len (nat n) < 255"
  shows "unat (BigToCompact n) = compact_exponent (nat n) * 2 ^ 24 + mantissa_at (nat n) (compact_exponent (nat n))"
proof -
  define k where "k = nat n"
  define e where "e = byte_len k"
  define w :: u32 where "w = (if e \<le> 3 then push_bit (8 * (3 - e)) (word_of_int \<bar>n\<bar>)
                              else word_of_int \<bar>drop_bit (8 * (e - 3)) n\<bar>)"
  have n: "n = int k" "0 < k" using assms(1) by (simp_all add: k_def)
  have ak: "nat \<bar>n\<bar> = k" using n(1) by simp
  have mb: "mantissa_at k e < 2 ^ 24" using mantissa_at_byte_len [OF n(2)] by (simp add: e_def)
  have "int k div 256 ^ (e - 3) = int (k div 256 ^ (e - 3))" by (simp add: zdiv_int)
  then have "w = of_nat (mantissa_at k e)"
    by (simp add: w_def mantissa_at_def n(1) push_bit_eq_mult drop_bit_eq_div power_mult)
  then have w: "unat w = mantissa_at k e" using mb by (simp add: unat_of_nat)
  have hi: "2 ^ 23 \<le> mantissa_at k e \<longleftrightarrow> w AND 0x00800000 \<noteq> 0"
    using bit_23_iff [of w] mb and_bit_23 [of w] by (simp add: w)
  define x where "x = compact_exponent k"
  define v where "v = (if w AND 0x00800000 \<noteq> 0 then drop_bit 8 w else w)"
  have x: "x = (if w AND 0x00800000 \<noteq> 0 then e + 1 else e)"
    using hi by (simp add: x_def compact_exponent_def Let_def flip: e_def)
  have "unat (drop_bit 8 w) = mantissa_at k e div 256" unfolding unat_drop_bit w by simp
  then have v: "unat v = mantissa_at k x" by (simp add: v_def x w mantissa_at_Suc)
  have vb: "unat v < 2 ^ 23" using compact_mantissa_bounds [OF n(2)] by (simp add: v x_def)
  have xb: "x < 256" using compact_exponent_ge(2) [of k] assms(2) by (simp add: x_def k_def)
  have B: "BigToCompact n = push_bit 24 (of_nat x) OR v"
    unfolding BigToCompact_def Let_def ak e_def [symmetric] w_def [symmetric]
    using assms(1) by (simp add: x v_def)
  have "\<not> (bit (push_bit 24 (of_nat x) :: u32) j \<and> bit v j)" for j
  proof (cases "j < 24")
    case False
    have "(2 :: nat) ^ 23 \<le> 2 ^ j" using False by (intro power_increasing) auto
    then have "unat v div 2 ^ j = 0" using vb by (simp add: div_eq_0_iff)
    then show ?thesis by (simp add: bit_unat_iff [of v])
  qed (simp add: bit_push_bit_iff)
  then have "push_bit 24 (of_nat x) AND v = (0 :: u32)" by (intro bit_eqI) (simp add: bit_and_iff)
  then have "BigToCompact n = push_bit 24 (of_nat x) + v" using B by (simp add: disjunctive_add_eq_or)
  also have "\<dots> = of_nat (x * 2 ^ 24 + mantissa_at k x)" by (simp add: push_bit_eq_mult flip: v)
  finally have "BigToCompact n = of_nat (x * 2 ^ 24 + mantissa_at k x)" .
  moreover have "x * 2 ^ 24 + mantissa_at k x < 2 ^ LENGTH(32)" using vb xb v by simp
  ultimately have "unat (BigToCompact n) = x * 2 ^ 24 + mantissa_at k x"
    by (simp only: unat_of_nat mod_less)
  then show ?thesis by (simp only: k_def x_def)
qed

text \<open>Packing a positive target keeps its leading bytes: it rounds down by less than one unit of the
  last byte kept.\<close>

definition compact_unit :: "nat \<Rightarrow> nat" where
  "compact_unit n = 256 ^ (compact_exponent n - 3)"

lemma CompactToBig_BigToCompact:
  assumes "0 < n" and "byte_len (nat n) < 255"
  shows "CompactToBig (BigToCompact n) = n div int (compact_unit (nat n)) * int (compact_unit (nat n))"
proof -
  define k where "k = nat n"
  have n: "n = int k" "0 < k" using assms(1) by (simp_all add: k_def)
  let ?x = "compact_exponent k"
  have "CompactToBig (BigToCompact n) =
      int (if ?x \<le> 3 then mantissa_at k ?x div 256 ^ (3 - ?x) else mantissa_at k ?x * 256 ^ (?x - 3))"
    using CompactToBig_parts [OF BigToCompact_parts [OF assms]] compact_mantissa_bounds [OF n(2)]
    by (simp flip: k_def)
  then show ?thesis
    by (auto simp: mantissa_at_def compact_unit_def zdiv_int simp flip: k_def n(1))
qed

lemma byte_len_mono: "m \<le> n \<Longrightarrow> byte_len m \<le> byte_len n"
proof (induction n arbitrary: m rule: byte_len.induct)
  case (1 n)
  show ?case
  proof (cases "m = 0")
    case False
    then have "byte_len (m div 256) \<le> byte_len (n div 256)" using 1 by (auto intro: div_le_mono)
    then show ?thesis using False 1(2) by (simp add: byte_len.simps [of m] byte_len.simps [of n])
  qed (simp add: byte_len.simps [of 0])
qed

lemma byte_len_less: "n < 256 ^ k \<Longrightarrow> byte_len n \<le> k"
proof (induction k arbitrary: n)
  case (Suc k)
  then have "byte_len (n div 256) \<le> k" by (simp add: div_less_iff_less_mult mult.commute)
  then show ?case by (simp add: byte_len.simps [of n])
qed (simp add: byte_len.simps)

lemma CompactToBig_BigToCompact_bounds:
  assumes "0 < n" and "byte_len (nat n) < 255"
  shows "CompactToBig (BigToCompact n) \<le> n"
    and "n - CompactToBig (BigToCompact n) < int (compact_unit (nat n))"
    and "2 ^ 15 * (n - CompactToBig (BigToCompact n)) \<le> n"
    and "0 < CompactToBig (BigToCompact n)"
proof -
  let ?u = "int (compact_unit (nat n))"
  have u: "0 < ?u" by (simp add: compact_unit_def)
  have d: "n - CompactToBig (BigToCompact n) = n mod ?u"
    unfolding CompactToBig_BigToCompact [OF assms] by (rule minus_div_mult_eq_mod)
  show "CompactToBig (BigToCompact n) \<le> n" using d u pos_mod_sign [of ?u n] by linarith
  show lt: "n - CompactToBig (BigToCompact n) < ?u" using d u by simp
  have "2 ^ 15 \<le> mantissa_at (nat n) (compact_exponent (nat n))"
    using compact_mantissa_bounds [of "nat n"] assms(1) by simp
  then have big: "2 ^ 15 * ?u \<le> n \<or> ?u = 1"
    using assms(1) by (auto simp: mantissa_at_def compact_unit_def less_eq_div_iff_mult_less_eq
        le_nat_iff mult.commute split: if_splits)
  then show "2 ^ 15 * (n - CompactToBig (BigToCompact n)) \<le> n"
    using lt d assms(1) by auto
  then show "0 < CompactToBig (BigToCompact n)"
    using assms(1) lt by auto
qed

lemma byte_len_shift: "0 < m \<Longrightarrow> byte_len (m * 256 ^ k) = byte_len m + k"
proof (induction k)
  case (Suc k)
  have "byte_len (256 * (m * 256 ^ k)) = byte_len (m * 256 ^ k) + 1"
    using Suc.prems by (subst byte_len.simps) simp
  then show ?case using Suc by (simp add: mult.left_commute)
qed simp

lemma compact_exponent_shift:
  assumes "2 ^ 15 \<le> m" and "m < 2 ^ 23"
  shows "compact_exponent (m * 256 ^ Suc k) = k + 4"
proof -
  have l: "byte_len m = (if m < 2 ^ 16 then 2 else 3)"
    using assms by (simp add: byte_len.simps [of m] byte_len.simps [of "m div 256"]
        byte_len.simps [of "m div 65536"] byte_len.simps [of 0] div_eq_0_iff flip: div_mult2_eq)
  have b: "byte_len (m * 256 ^ Suc k) = byte_len m + Suc k"
    using assms(1) by (intro byte_len_shift) simp
  have hi: "mantissa_at (m * 256 ^ Suc k) (k + 4) = m" by (simp add: mantissa_at_def)
  have lo: "mantissa_at (m * 256 ^ Suc k) (k + 3) = m * 256" by (simp add: mantissa_at_def)
  show ?thesis
  proof (cases "m < 2 ^ 16")
    case True
    then have "byte_len (m * 256 ^ Suc k) = k + 3" using b l by simp
    then show ?thesis unfolding compact_exponent_def Let_def using lo assms(1) by simp
  next
    case False
    then have "byte_len (m * 256 ^ Suc k) = k + 4" using b l by simp
    then show ?thesis unfolding compact_exponent_def Let_def using hi assms(2) by simp
  qed
qed

lemma BigToCompact_idem:
  assumes "0 < n" and "byte_len (nat n) < 255"
  shows "BigToCompact (CompactToBig (BigToCompact n)) = BigToCompact n"
proof (cases "compact_exponent (nat n) \<le> 3")
  case True
  then have "CompactToBig (BigToCompact n) = n"
    using CompactToBig_BigToCompact [OF assms] by (simp add: compact_unit_def)
  then show ?thesis by simp
next
  case False
  define k where "k = nat n"
  define x where "x = compact_exponent k"
  define m where "m = mantissa_at k x"
  have n: "n = int k" "0 < k" using assms(1) by (simp_all add: k_def)
  have mb: "2 ^ 15 \<le> m" "m < 2 ^ 23" using compact_mantissa_bounds [OF n(2)] by (simp_all add: m_def x_def)
  obtain j where j: "x = j + 4" using False by (auto simp: x_def k_def dest!: less_imp_Suc_add simp: not_le)
  have c: "CompactToBig (BigToCompact n) = int (m * 256 ^ Suc j)"
    using CompactToBig_parts [OF BigToCompact_parts [OF assms]] mb j
    by (simp add: m_def flip: k_def x_def)
  have "int (m * 256 ^ Suc j) \<le> int k"
    using CompactToBig_BigToCompact_bounds(1) [OF assms] c n(1) by simp
  then have "m * 256 ^ Suc j \<le> k" by (simp only: of_nat_le_iff)
  then have s: "byte_len (m * 256 ^ Suc j) < 255"
    using byte_len_mono [of "m * 256 ^ Suc j" k] assms(2) unfolding k_def by linarith
  have "mantissa_at (m * 256 ^ Suc j) x = m" using j by (simp add: mantissa_at_def)
  moreover have "compact_exponent (m * 256 ^ Suc j) = x" using compact_exponent_shift [OF mb] j by simp
  moreover have "0 < int (m * 256 ^ Suc j)" using mb by simp
  ultimately have "unat (BigToCompact (int (m * 256 ^ Suc j))) = x * 2 ^ 24 + m"
    using BigToCompact_parts [of "int (m * 256 ^ Suc j)"] s by (simp only: nat_int)
  moreover have "unat (BigToCompact n) = x * 2 ^ 24 + m"
    using BigToCompact_parts [OF assms] by (simp only: m_def x_def k_def)
  ultimately show ?thesis unfolding c by (simp add: word_unat_eq_iff)
qed

lemma multiple_le_div_mult:
  fixes v k n :: int
  assumes "0 < v" and "v dvd k" and "k \<le> n"
  shows "k \<le> n div v * v"
proof -
  obtain c where c: "k = v * c" using assms(2) by (elim dvdE)
  then have "c \<le> n div v" using assms by (simp add: zdiv_mono1 [of "v * c" n v, simplified])
  then show ?thesis using c assms(1) by (simp add: mult.commute)
qed

lemma less_of_mantissa:
  assumes "0 < m"
  shows "m < 2 ^ 15 * 256 ^ Suc (compact_exponent m - 3)"
proof (cases "compact_exponent m \<le> 3")
  case True
  have "m * 1 \<le> m * 256 ^ (3 - compact_exponent m)" by (intro mult_le_mono2) simp
  also have "\<dots> < 2 ^ 23" using compact_mantissa_bounds [OF assms] True by (simp add: mantissa_at_def)
  finally show ?thesis using True by simp
next
  case False
  then show ?thesis
    using compact_mantissa_bounds [OF assms] by (simp add: mantissa_at_def div_less_iff_less_mult)
qed

lemma CompactToBig_BigToCompact_mono:
  assumes "0 < m" and "m \<le> n" and "byte_len (nat n) < 255"
  shows "CompactToBig (BigToCompact m) \<le> CompactToBig (BigToCompact n)"
proof -
  have n: "0 < n" using assms by simp
  have bm: "byte_len (nat m) < 255" using byte_len_mono [OF nat_mono [OF assms(2)]] assms(3) by simp
  let ?x = "compact_exponent (nat m)" and ?y = "compact_exponent (nat n)"
  have le: "CompactToBig (BigToCompact m) \<le> n"
    using CompactToBig_BigToCompact_bounds(1) [OF assms(1) bm] assms(2) by simp
  show ?thesis
  proof (cases "?y - 3 \<le> ?x - 3")
    case True
    then have "int (compact_unit (nat n)) dvd CompactToBig (BigToCompact m)"
      unfolding CompactToBig_BigToCompact [OF assms(1) bm]
      by (intro dvd_mult) (simp add: compact_unit_def le_imp_power_dvd)
    then show ?thesis
      unfolding CompactToBig_BigToCompact [OF n assms(3)] using le
      by (intro multiple_le_div_mult) (simp_all add: compact_unit_def)
  next
    case False
    then have e: "Suc (?x - 3) \<le> ?y - 3" by simp
    have "nat m < 2 ^ 15 * 256 ^ Suc (?x - 3)" using less_of_mantissa [of "nat m"] assms(1) by simp
    also have "\<dots> \<le> 2 ^ 15 * 256 ^ (?y - 3)" using e by (intro mult_le_mono2 power_increasing) auto
    also have "\<dots> \<le> nat n div compact_unit (nat n) * compact_unit (nat n)"
      using compact_mantissa_bounds [of "nat n"] n e
      by (auto simp: mantissa_at_def compact_unit_def split: if_splits)
    finally have "int (nat m) \<le> int (nat n div compact_unit (nat n) * compact_unit (nat n))"
      by (simp only: of_nat_le_iff less_imp_le_nat)
    also have "\<dots> = CompactToBig (BigToCompact n)"
      unfolding CompactToBig_BigToCompact [OF n assms(3)] using n by (simp add: zdiv_int)
    finally show ?thesis
      using CompactToBig_BigToCompact_bounds(1) [OF assms(1) bm] assms(1) by simp
  qed
qed

end
