(* ===== verification/Block_Index.thy ===== *)
theory Block_Index
  imports Work_Math "HOL-Library.Multiset"
begin

text \<open>
  Block nodes and the block index (\<open>blockchain/blockindex.go\<close>): the tree of headers, the skip
  pointers over it, the past median time, and the index by hash with the status of each node.

  A node is immutable but for its status, so it is a datatype over its parent and its skip pointer,
  and a pointer to a node is the node.  The status, and which nodes still have to be written, are
  kept in the index by the hash of the node.
\<close>

unbundle bit_operations_syntax

section \<open>Nodes\<close>

datatype blockNode = BlockNode
  (parent: "blockNode option")
  (ancestor: "blockNode option")
  (node_hash: hash)
  (workSum: int)
  (node_height: int32)
  (node_version: int32)
  (node_bits: u32)
  (node_nonce: u32)
  (node_timestamp: int64)
  (node_merkleRoot: hash)

definition invertLowestOne :: "int32 \<Rightarrow> int32" where
  "invertLowestOne n = n AND wrap32 (n - 1)"

definition getAncestorHeight :: "int32 \<Rightarrow> int32" where
  "getAncestorHeight h = invertLowestOne (invertLowestOne h)"

lemma size_parent: "parent n = Some p \<Longrightarrow> size p < size n"
  by (cases n) auto

lemma size_ancestor: "ancestor n = Some a \<Longrightarrow> size a < size n"
  by (cases n) auto

text \<open>The loop of \<open>Ancestor\<close>: follow the skip pointer when it does not go too far.\<close>

function Ancestor_loop :: "blockNode option \<Rightarrow> int32 \<Rightarrow> blockNode option" where
  "Ancestor_loop None h = None"
| "Ancestor_loop (Some n) h =
     (if node_height n = h then Some n
      else if ancestor n \<noteq> None \<and> h \<le> getAncestorHeight (node_height n)
      then Ancestor_loop (ancestor n) h
      else Ancestor_loop (parent n) h)"
  by pat_completeness auto
termination
proof (relation "measure (\<lambda>(n, _). case n of None \<Rightarrow> 0 | Some m \<Rightarrow> Suc (size m))")
  fix n :: blockNode and h
  show "((ancestor n, h), (Some n, h)) \<in> measure (\<lambda>(n, _). case n of None \<Rightarrow> 0 | Some m \<Rightarrow> Suc (size m))"
    by (cases "ancestor n") (auto dest: size_ancestor)
  show "((parent n, h), (Some n, h)) \<in> measure (\<lambda>(n, _). case n of None \<Rightarrow> 0 | Some m \<Rightarrow> Suc (size m))"
    by (cases "parent n") (auto dest: size_parent)
qed simp

declare Ancestor_loop.simps(2) [simp del]

definition Ancestor :: "blockNode \<Rightarrow> int32 \<Rightarrow> blockNode option" where
  "Ancestor node h = (if h < 0 \<or> node_height node < h then None else Ancestor_loop (Some node) h)"

definition RelativeAncestor :: "blockNode \<Rightarrow> int32 \<Rightarrow> blockNode option" where
  "RelativeAncestor node distance = Ancestor node (wrap32 (node_height node - distance))"

definition HeaderHash :: "BlockHeader \<Rightarrow> hash" where
  "HeaderHash header = DoubleHashRaw (writeBlockHeader header)"

text \<open>\<open>initBlockNode\<close> with \<open>buildAncestor\<close>, and \<open>newBlockNode\<close>.\<close>

definition buildAncestor :: "blockNode option \<Rightarrow> int32 \<Rightarrow> blockNode option" where
  "buildAncestor p h = Option.bind p (\<lambda>q. Ancestor q (getAncestorHeight h))"

definition newBlockNode :: "BlockHeader \<Rightarrow> blockNode option \<Rightarrow> blockNode" where
  "newBlockNode header p =
     (case p of
        None \<Rightarrow>
          BlockNode None None (HeaderHash header) (CalcWork (Bits header)) 0 (BlockVersion header)
            (Bits header) (Nonce header) (int (unat (Timestamp header))) (MerkleRoot header)
      | Some q \<Rightarrow>
          let h = wrap32 (node_height q + 1) in
          BlockNode p (buildAncestor p h) (HeaderHash header) (workSum q + CalcWork (Bits header)) h
            (BlockVersion header) (Bits header) (Nonce header) (int (unat (Timestamp header)))
            (MerkleRoot header))"

definition node_Header :: "blockNode \<Rightarrow> BlockHeader" where
  "node_Header node =
     \<lparr>BlockVersion = node_version node,
      PrevBlock = (case parent node of None \<Rightarrow> 0 | Some p \<Rightarrow> node_hash p),
      MerkleRoot = node_merkleRoot node, Timestamp = word_of_int (node_timestamp node),
      Bits = node_bits node, Nonce = node_nonce node\<rparr>"

section \<open>The past median time\<close>

definition medianTimeBlocks :: nat where "medianTimeBlocks = 11"

fun past_timestamps :: "nat \<Rightarrow> blockNode option \<Rightarrow> int64 list" where
  "past_timestamps 0 n = []"
| "past_timestamps (Suc i) None = []"
| "past_timestamps (Suc i) (Some n) = node_timestamp n # past_timestamps i (parent n)"

definition CalcPastMedianTime :: "blockNode \<Rightarrow> int64" where
  "CalcPastMedianTime node =
     (let timestamps = sort (past_timestamps medianTimeBlocks (Some node))
      in timestamps ! (length timestamps div 2))"

section \<open>The index\<close>

type_synonym blockStatus = byte

definition statusDataStored :: blockStatus where "statusDataStored = 1"
definition statusValid :: blockStatus where "statusValid = 2"
definition statusValidateFailed :: blockStatus where "statusValidateFailed = 4"
definition statusInvalidAncestor :: blockStatus where "statusInvalidAncestor = 8"
definition statusNone :: blockStatus where "statusNone = 0"

definition HaveData :: "blockStatus \<Rightarrow> bool" where
  "HaveData status \<longleftrightarrow> status AND statusDataStored \<noteq> 0"

definition KnownValid :: "blockStatus \<Rightarrow> bool" where
  "KnownValid status \<longleftrightarrow> status AND statusValid \<noteq> 0"

definition KnownInvalid :: "blockStatus \<Rightarrow> bool" where
  "KnownInvalid status \<longleftrightarrow> status AND (statusValidateFailed OR statusInvalidAncestor) \<noteq> 0"

record blockIndex =
  bi_index :: "hash \<rightharpoonup> blockNode"
  bi_status :: "hash \<Rightarrow> blockStatus"
  bi_dirty :: "blockNode list"

definition newBlockIndex :: blockIndex where
  "newBlockIndex = \<lparr>bi_index = Map.empty, bi_status = (\<lambda>_. statusNone), bi_dirty = []\<rparr>"

definition bi_HaveBlock :: "blockIndex \<Rightarrow> hash \<Rightarrow> bool" where
  "bi_HaveBlock bi h \<longleftrightarrow> bi_index bi h \<noteq> None"

definition LookupNode :: "blockIndex \<Rightarrow> hash \<Rightarrow> blockNode option" where
  "LookupNode bi h = bi_index bi h"

definition addNode :: "blockNode \<Rightarrow> blockIndex \<Rightarrow> blockIndex" where
  "addNode node bi = bi\<lparr>bi_index := (bi_index bi)(node_hash node \<mapsto> node)\<rparr>"

definition mark_dirty :: "blockNode \<Rightarrow> blockIndex \<Rightarrow> blockIndex" where
  "mark_dirty node bi = bi\<lparr>bi_dirty := List.insert node (bi_dirty bi)\<rparr>"

definition AddNode :: "blockNode \<Rightarrow> blockIndex \<Rightarrow> blockIndex" where
  "AddNode node bi = mark_dirty node (addNode node bi)"

definition NodeStatus :: "blockIndex \<Rightarrow> blockNode \<Rightarrow> blockStatus" where
  "NodeStatus bi node = bi_status bi (node_hash node)"

definition SetStatusFlags :: "blockNode \<Rightarrow> blockStatus \<Rightarrow> blockIndex \<Rightarrow> blockIndex" where
  "SetStatusFlags node flags bi =
     mark_dirty node (bi\<lparr>bi_status := (bi_status bi)(node_hash node := NodeStatus bi node OR flags)\<rparr>)"

definition UnsetStatusFlags :: "blockNode \<Rightarrow> blockStatus \<Rightarrow> blockIndex \<Rightarrow> blockIndex" where
  "UnsetStatusFlags node flags bi =
     mark_dirty node
       (bi\<lparr>bi_status := (bi_status bi)(node_hash node := NodeStatus bi node AND NOT flags)\<rparr>)"

text \<open>\<open>Equals\<close> compares every field but the pointers; the status is that of the hash.\<close>

definition node_Equals :: "blockIndex \<Rightarrow> blockNode \<Rightarrow> blockNode \<Rightarrow> bool" where
  "node_Equals bi node other \<longleftrightarrow>
     node_hash node = node_hash other \<and> workSum node = workSum other
     \<and> node_height node = node_height other \<and> node_version node = node_version other
     \<and> node_bits node = node_bits other \<and> node_nonce node = node_nonce other
     \<and> node_timestamp node = node_timestamp other \<and> node_merkleRoot node = node_merkleRoot other
     \<and> NodeStatus bi node = NodeStatus bi other"

definition IsAncestor :: "blockIndex \<Rightarrow> blockNode \<Rightarrow> blockNode option \<Rightarrow> bool" where
  "IsAncestor bi node otherNode =
     (case otherNode of
        None \<Rightarrow> False
      | Some other \<Rightarrow>
          (case Ancestor node (node_height other) of
             None \<Rightarrow> False
           | Some a \<Rightarrow> node_height node \<noteq> node_height a \<and> node_Equals bi a other))"

section \<open>The chain of a node\<close>

text \<open>The nodes from a node back to its root, and the nodes that \<open>newBlockNode\<close> builds below the
  largest height.\<close>

function chain_of :: "blockNode \<Rightarrow> blockNode list" where
  "chain_of n = n # (case parent n of None \<Rightarrow> [] | Some p \<Rightarrow> chain_of p)"
  by pat_completeness auto
termination
  by (relation "measure size") (auto dest: size_parent)

declare chain_of.simps [simp del]

inductive is_node :: "blockNode \<Rightarrow> bool" where
  genesis: "is_node (newBlockNode header None)"
| child: "is_node p \<Longrightarrow> node_height p < 2 ^ 31 - 1 \<Longrightarrow> is_node (newBlockNode header (Some p))"

lemma chain_of_child:
  assumes "parent n = Some p"
  shows "chain_of n = n # chain_of p"
  using assms by (subst chain_of.simps) simp

lemma chain_of_root: "parent n = None \<Longrightarrow> chain_of n = [n]"
  by (subst chain_of.simps) simp

lemma invertLowestOne_bounds:
  assumes "0 < n" and "n < 2 ^ 31"
  shows "0 \<le> invertLowestOne n \<and> invertLowestOne n < n"
proof -
  have "wrap32 (n - 1) = n - 1" using assms by (intro wrap32_id) (simp add: is_int32_def)
  then have "invertLowestOne n = n AND (n - 1)" by (simp add: invertLowestOne_def)
  moreover have "n AND (n - 1) \<le> n - 1" using assms by (intro AND_upper2) simp
  moreover have "0 \<le> n AND (n - 1)" using assms by simp
  ultimately show ?thesis by simp
qed

lemma getAncestorHeight_bounds:
  assumes "0 < h" and "h < 2 ^ 31"
  shows "0 \<le> getAncestorHeight h \<and> getAncestorHeight h < h"
proof (cases "invertLowestOne h = 0")
  case True
  then show ?thesis using assms by (simp add: getAncestorHeight_def invertLowestOne_def)
next
  case False
  then show ?thesis
    using invertLowestOne_bounds [OF assms] invertLowestOne_bounds [of "invertLowestOne h"] assms
    by (auto simp: getAncestorHeight_def)
qed

lemma newBlockNode_simps [simp]:
  "parent (newBlockNode header p) = p"
  "node_hash (newBlockNode header p) = HeaderHash header"
  "node_height (newBlockNode header None) = 0"
  "node_height (newBlockNode header (Some q)) = wrap32 (node_height q + 1)"
  "node_timestamp (newBlockNode header p) = int (unat (Timestamp header))"
  "node_bits (newBlockNode header p) = Bits header"
  "node_version (newBlockNode header p) = BlockVersion header"
  "ancestor (newBlockNode header None) = None"
  "ancestor (newBlockNode header (Some q)) = Ancestor q (getAncestorHeight (wrap32 (node_height q + 1)))"
  "workSum (newBlockNode header None) = CalcWork (Bits header)"
  "workSum (newBlockNode header (Some q)) = workSum q + CalcWork (Bits header)"
  by (simp_all add: newBlockNode_def Let_def buildAncestor_def split: option.split)

lemma is_node_height: "is_node n \<Longrightarrow> 0 \<le> node_height n \<and> node_height n < 2 ^ 31"
  by (induction rule: is_node.induct) (auto simp: wrap32_id is_int32_def)

lemma is_node_child_height:
  assumes "is_node p" and "node_height p < 2 ^ 31 - 1"
  shows "node_height (newBlockNode header (Some p)) = node_height p + 1"
  using is_node_height [OF assms(1)] assms(2) by (simp add: wrap32_id is_int32_def)

lemma is_node_parent:
  assumes "is_node n" and "parent n = Some p"
  shows "is_node p" and "node_height n = node_height p + 1"
    and "ancestor n = Ancestor p (getAncestorHeight (node_height n))"
proof -
  obtain header where n: "n = newBlockNode header (Some p)" and p: "is_node p" "node_height p < 2 ^ 31 - 1"
    using assms by (cases rule: is_node.cases) auto
  show "is_node p" by (rule p)
  show "node_height n = node_height p + 1" unfolding n by (rule is_node_child_height [OF p])
  show "ancestor n = Ancestor p (getAncestorHeight (node_height n))" by (simp add: n)
qed

lemma is_node_parent_None:
  assumes "is_node n"
  shows "parent n = None \<longleftrightarrow> node_height n = 0"
proof (cases "parent n")
  case None
  from assms None show ?thesis by (cases rule: is_node.cases) auto
next
  case (Some p)
  then show ?thesis
    using is_node_parent [OF assms Some] is_node_height [of p] by simp
qed

lemma length_chain_of: "is_node n \<Longrightarrow> length (chain_of n) = Suc (nat (node_height n))"
proof (induction rule: is_node.induct)
  case (genesis header)
  then show ?case by (simp add: chain_of_root)
next
  case (child p header)
  then show ?case
    using is_node_height [of p] is_node_child_height [OF child(1,2)]
    by (simp add: chain_of_child [of _ p] nat_add_distrib del: newBlockNode_simps(4))
qed

lemma chain_of_nth_0 [simp]: "chain_of n ! 0 = n"
  by (subst chain_of.simps) simp

lemma chain_of_nth:
  assumes "is_node n" and "i < length (chain_of n)"
  shows "is_node (chain_of n ! i) \<and> node_height (chain_of n ! i) = node_height n - int i
           \<and> chain_of (chain_of n ! i) = drop i (chain_of n)"
  using assms
proof (induction i arbitrary: n)
  case (Suc i)
  then obtain p where p: "parent n = Some p"
    by (cases "parent n") (simp_all add: chain_of_root)
  note n = is_node_parent [OF Suc.prems(1) p]
  show ?case using Suc.IH [OF n(1)] Suc.prems(2) n(2) by (simp add: chain_of_child [OF p])
qed simp

text \<open>What \<open>Ancestor\<close> is meant to return: the node of the chain at the height.\<close>

definition ancestor_at :: "blockNode \<Rightarrow> int32 \<Rightarrow> blockNode" where
  "ancestor_at n h = chain_of n ! nat (node_height n - h)"

lemma ancestor_at_height:
  assumes "is_node n" and "0 \<le> h" and "h \<le> node_height n"
  shows "is_node (ancestor_at n h)" and "node_height (ancestor_at n h) = h"
  using chain_of_nth [OF assms(1), of "nat (node_height n - h)"] length_chain_of [OF assms(1)] assms
  by (auto simp: ancestor_at_def nat_less_eq_zless)

lemma ancestor_at_trans:
  assumes "is_node n" and "0 \<le> h" and "h \<le> k" and "k \<le> node_height n"
  shows "ancestor_at (ancestor_at n k) h = ancestor_at n h"
proof -
  have l: "nat (node_height n - k) < length (chain_of n)"
    using length_chain_of [OF assms(1)] assms by (simp add: nat_less_eq_zless)
  have "chain_of (ancestor_at n k) = drop (nat (node_height n - k)) (chain_of n)"
    and "node_height (ancestor_at n k) = k"
    using chain_of_nth [OF assms(1) l] assms by (simp_all add: ancestor_at_def)
  then show ?thesis
    using assms l by (simp add: ancestor_at_def [of _ h] flip: nat_add_distrib)
qed

lemma ancestor_at_parent:
  assumes "is_node n" and "parent n = Some p" and "h < node_height n"
  shows "ancestor_at n h = ancestor_at p h"
proof -
  have "nat (node_height n - h) = Suc (nat (node_height p - h))"
    using is_node_parent(2) [OF assms(1,2)] assms(3) by simp
  then show ?thesis using chain_of_child [OF assms(2)] by (simp add: ancestor_at_def)
qed

lemma Ancestor_loop_eq:
  "is_node n \<Longrightarrow> 0 \<le> h \<Longrightarrow> h \<le> node_height n \<Longrightarrow> Ancestor_loop (Some n) h = Some (ancestor_at n h)"
proof (induction "nat (node_height n)" arbitrary: n h rule: less_induct)
  case less
  show ?case
  proof (cases "node_height n = h")
    case True
    then show ?thesis by (simp add: ancestor_at_def Ancestor_loop.simps(2))
  next
    case False
    then have pos: "0 < node_height n" "h < node_height n" using less.prems by auto
    then obtain p where p: "parent n = Some p"
      using is_node_parent_None [OF less.prems(1)] by (cases "parent n") auto
    note n = is_node_parent [OF less.prems(1) p]
    define g where "g = getAncestorHeight (node_height n)"
    have g: "0 \<le> g" "g < node_height n"
      using getAncestorHeight_bounds [OF pos(1)] is_node_height [OF less.prems(1)] by (auto simp: g_def)
    have "Ancestor_loop (Some p) g = Some (ancestor_at p g)"
      using less.hyps [of p g] n g pos by simp
    then have a: "ancestor n = Some (ancestor_at p g)"
      using n g by (simp add: Ancestor_def g_def)
    have pa: "ancestor_at n h = ancestor_at p h" using ancestor_at_parent [OF less.prems(1) p pos(2)] .
    show ?thesis
    proof (cases "h \<le> g")
      case True
      have "Ancestor_loop (Some (ancestor_at p g)) h = Some (ancestor_at (ancestor_at p g) h)"
        using less.hyps [of "ancestor_at p g" h] ancestor_at_height [OF n(1), of g] True g n(2) less.prems pos
        by simp
      then show ?thesis
        using True False a ancestor_at_trans [OF n(1) less.prems(2) True] g n(2) pa
        unfolding Ancestor_loop.simps(2) [of n] g_def [symmetric] by simp
    next
      case gh: False
      have "Ancestor_loop (Some p) h = Some (ancestor_at p h)"
        using less.hyps [of p h] n pos less.prems by simp
      then show ?thesis using gh False a p pa
        unfolding Ancestor_loop.simps(2) [of n] g_def [symmetric] by simp
    qed
  qed
qed

lemma Ancestor_eq:
  assumes "is_node n"
  shows "Ancestor n h = (if h < 0 \<or> node_height n < h then None else Some (ancestor_at n h))"
  using Ancestor_loop_eq [OF assms] by (simp add: Ancestor_def)

section \<open>The index holds whole chains\<close>

definition index_ok :: "blockIndex \<Rightarrow> bool" where
  "index_ok bi \<longleftrightarrow> (\<forall>h n. bi_index bi h = Some n \<longrightarrow>
     node_hash n = h \<and> is_node n \<and> (\<forall>p. parent n = Some p \<longrightarrow> bi_index bi (node_hash p) = Some p))"

definition indexed :: "blockIndex \<Rightarrow> blockNode \<Rightarrow> bool" where
  "indexed bi n \<longleftrightarrow> bi_index bi (node_hash n) = Some n"

lemma index_ok_new: "index_ok newBlockIndex"
  by (simp add: index_ok_def newBlockIndex_def)

lemma index_ok_status [simp]:
  "index_ok (SetStatusFlags node flags bi) = index_ok bi"
  "index_ok (UnsetStatusFlags node flags bi) = index_ok bi"
  by (simp_all add: index_ok_def SetStatusFlags_def UnsetStatusFlags_def mark_dirty_def)

lemma index_ok_AddNode:
  assumes "index_ok bi" and "is_node n" and "bi_index bi (node_hash n) = None"
    and "\<And>p. parent n = Some p \<Longrightarrow> indexed bi p"
  shows "index_ok (AddNode n bi)"
  using assms by (fastforce simp: index_ok_def AddNode_def mark_dirty_def addNode_def indexed_def)

lemma indexed_chain:
  assumes "index_ok bi" and "indexed bi n" and "m \<in> set (chain_of n)"
  shows "indexed bi m"
  using assms(2,3)
proof (induction n rule: chain_of.induct)
  case (1 n)
  show ?case
  proof (cases "parent n")
    case None
    then show ?thesis using 1 by (simp add: chain_of_root)
  next
    case (Some p)
    then have "indexed bi p" using assms(1) 1(2) by (auto simp: index_ok_def indexed_def)
    then show ?thesis using 1 Some by (auto simp: chain_of_child)
  qed
qed

lemma indexed_node: "index_ok bi \<Longrightarrow> indexed bi n \<Longrightarrow> is_node n"
  by (auto simp: index_ok_def indexed_def)

section \<open>The median time does not go back\<close>

lemma past_timestamps_eq: "past_timestamps k (Some n) = take k (map node_timestamp (chain_of n))"
proof (induction k arbitrary: n)
  case (Suc k)
  show ?case
  proof (cases "parent n")
    case None
    then show ?thesis by (cases k) (simp_all add: chain_of_root)
  next
    case (Some p)
    then show ?thesis using Suc by (simp add: chain_of_child)
  qed
qed simp

lemma length_filter_sort:
  "length (filter P xs) = card {j. j < length (sort xs) \<and> P (sort xs ! j)}"
  using length_filter_conv_card [of P "sort xs"] by (simp add: filter_sort)

lemma count_below_nth_sort:
  assumes "i < length xs"
  shows "length (filter (\<lambda>x. x < sort xs ! i) xs) \<le> i"
proof -
  have "j < i" if "j < length (sort xs)" and "sort xs ! j < sort xs ! i" for j
    using sorted_nth_mono [OF sorted_sort, of i j xs] that by (cases "i \<le> j") auto
  then have "{j. j < length (sort xs) \<and> sort xs ! j < sort xs ! i} \<subseteq> {..<i}" by auto
  from card_mono [OF _ this]
  have "card {j. j < length (sort xs) \<and> sort xs ! j < sort xs ! i} \<le> i" by simp
  then show ?thesis by (simp only: length_filter_sort)
qed

lemma nth_sort_ge:
  assumes "i < length xs" and "length (filter (\<lambda>x. x < m) xs) \<le> i"
  shows "m \<le> sort xs ! i"
proof (rule ccontr)
  assume "\<not> m \<le> sort xs ! i"
  then have "sort xs ! j < m" if "j \<le> i" for j
    using assms(1) sorted_nth_mono [OF sorted_sort, of j i xs] that by simp
  then have "{..i} \<subseteq> {j. j < length (sort xs) \<and> sort xs ! j < m}" using assms(1) by auto
  then have "Suc i \<le> card {j. j < length (sort xs) \<and> sort xs ! j < m}"
    using card_mono [of "{j. j < length (sort xs) \<and> sort xs ! j < m}" "{..i}"] by simp
  also have "\<dots> = length (filter (\<lambda>x. x < m) xs)"
    by (rule length_filter_sort [symmetric])
  finally show False using assms(2) by simp
qed

lemma median_window_mono:
  fixes t :: int
  assumes "xs \<noteq> []" and "0 < k" and "sort (take (Suc k) xs) ! (length (take (Suc k) xs) div 2) \<le> t"
  shows "sort (take (Suc k) xs) ! (length (take (Suc k) xs) div 2)
           \<le> sort (take (Suc k) (t # xs)) ! (length (take (Suc k) (t # xs)) div 2)"
proof (rule nth_sort_ge)
  define m where "m = sort (take (Suc k) xs) ! (length (take (Suc k) xs) div 2)"
  have "length (filter (\<lambda>x. x < m) (take k xs)) \<le> length (filter (\<lambda>x. x < m) (take (Suc k) xs))"
    by (cases "k < length xs") (simp_all add: take_Suc_conv_app_nth)
  moreover have "length (filter (\<lambda>x. x < m) (take (Suc k) xs)) \<le> length (take (Suc k) xs) div 2"
    unfolding m_def using assms(1) by (intro count_below_nth_sort) (cases xs, auto)
  moreover have "length (take (Suc k) xs) div 2 \<le> length (take (Suc k) (t # xs)) div 2"
    by (intro div_le_mono) simp
  ultimately show "length (filter (\<lambda>x. x < sort (take (Suc k) xs) ! (length (take (Suc k) xs) div 2))
      (take (Suc k) (t # xs))) \<le> length (take (Suc k) (t # xs)) div 2"
    using assms(3) by (simp add: m_def)
qed simp

lemma CalcPastMedianTime_mono:
  assumes "CalcPastMedianTime p \<le> int (unat (Timestamp header))"
  shows "CalcPastMedianTime p \<le> CalcPastMedianTime (newBlockNode header (Some p))"
proof -
  let ?xs = "map node_timestamp (chain_of p)"
  have "chain_of p \<noteq> []" by (subst chain_of.simps) simp
  then show ?thesis
    using assms median_window_mono [of ?xs 10 "int (unat (Timestamp header))"]
    by (simp add: CalcPastMedianTime_def Let_def past_timestamps_eq medianTimeBlocks_def
        chain_of_child [of "newBlockNode header (Some p)" p])
qed

end
