(* ===== verification/Difficulty.thy ===== *)
theory Difficulty
  imports Block_Index Chaincfg_Obtc Rule_Error
begin

text \<open>
  The required difficulty of a block (\<open>blockchain/difficulty.go\<close>): the exponential schedule the fork
  uses from its first block on (ASERT, anchored at a block and driven by the distance from the ideal
  time), the retargeting every 2016 blocks it inherits for the blocks before, and the easiest
  difficulty a number of seconds allows.  Times are Unix seconds, durations nanoseconds.  The chain
  context of the sources is the parameters of the network, from which \<open>New\<close> of
  \<open>blockchain/chain.go\<close> computes the retarget constants.
\<close>

unbundle bit_operations_syntax

section \<open>The exponential schedule\<close>

definition asertRadix :: int64 where "asertRadix = 65536"

definition asert_factor :: "u64 \<Rightarrow> u64" where
  "asert_factor frac =
     word_of_int asertRadix
     + drop_bit 48 (195766423245049 * frac + 971821376 * frac * frac + 5127 * frac * frac * frac
                    + push_bit 47 1)"

definition asert_exponent :: "blockNode \<Rightarrow> int32 \<Rightarrow> int64 \<Rightarrow> int64 \<Rightarrow> int64 \<Rightarrow> int64" where
  "asert_exponent anchor nextHeight newBlockTime targetSpacingSeconds halfLifeSeconds =
     (let timeDiff = wrap64 (newBlockTime - node_timestamp anchor);
          heightDiff = wrap32 (nextHeight - node_height anchor)
      in go_quot (wrap64 (wrap64 (timeDiff - wrap64 (heightDiff * targetSpacingSeconds)) * asertRadix))
           halfLifeSeconds)"

definition asert_target :: "int \<Rightarrow> int64 \<Rightarrow> int" where
  "asert_target anchorTarget exponent =
     (let shifts = drop_bit 16 exponent;
          frac = word_of_int (exponent - shifts * asertRadix) :: u64;
          newTarget = anchorTarget * int (unat (asert_factor frac));
          newTarget = (if shifts < 0 then drop_bit (nat (- shifts)) newTarget
                       else push_bit (nat shifts) newTarget);
          newTarget = drop_bit 16 newTarget
      in if newTarget \<le> 0 then 1 else newTarget)"

definition calcASERTRequiredDifficulty ::
  "blockNode option \<Rightarrow> int32 \<Rightarrow> int64 \<Rightarrow> int64 \<Rightarrow> int64 \<Rightarrow> int \<Rightarrow> rule_error + u32" where
  "calcASERTRequiredDifficulty anchor nextHeight newBlockTime targetSpacing halfLife powLimit =
     (case anchor of
        None \<Rightarrow> Inl ErrAssert
      | Some a \<Rightarrow>
          if halfLife \<le> 0 \<or> targetSpacing \<le> 0 then Inl ErrAssert
          else
            let targetSpacingSeconds = go_quot targetSpacing Second;
                halfLifeSeconds = go_quot halfLife Second
            in if halfLifeSeconds = 0 then Inl ErrIndexOutOfRange
               else
                 let newTarget = asert_target (CompactToBig (node_bits a))
                       (asert_exponent a nextHeight newBlockTime targetSpacingSeconds halfLifeSeconds)
                 in Inr (BigToCompact (if powLimit < newTarget then powLimit else newTarget)))"

text \<open>\<open>None\<close> means that the schedule of the fork does not apply.\<close>

definition calcOBTCForkNextRequiredDifficulty ::
  "blockNode \<Rightarrow> int64 \<Rightarrow> 'a Params_scheme \<Rightarrow> rule_error + u32 option" where
  "calcOBTCForkNextRequiredDifficulty lastNode newBlockTime params =
     (if ForkDAAStartHeight params \<le> 0 \<or> ForkDAAForkResetBits params = 0 then Inr None
      else
        let nextHeight = wrap32 (node_height lastNode + 1) in
        if nextHeight < ForkDAAStartHeight params then Inr None
        else if nextHeight = ForkDAAStartHeight params then Inr (Some (ForkDAAForkResetBits params))
        else
          let (anchorHeight, halfLife) =
                (if ForkDAAStartHeight params \<le> ForkDAABootstrapEndHeight params
                    \<and> ForkDAABootstrapEndHeight params < nextHeight
                 then (ForkDAABootstrapEndHeight params, ForkDAANormalHalfLife params)
                 else (ForkDAAStartHeight params, ForkDAABootstrapHalfLife params));
              distance = wrap32 (node_height lastNode - anchorHeight)
          in if distance < 0 then Inl ErrAssert
             else bind_r
               (calcASERTRequiredDifficulty (RelativeAncestor lastNode distance) nextHeight newBlockTime
                  (TargetTimePerBlock params) halfLife (PowLimit params))
               (\<lambda>bits. Inr (Some bits)))"

section \<open>Retargeting\<close>

definition targetTimespanSeconds :: "'a Params_scheme \<Rightarrow> int64" where
  "targetTimespanSeconds params = go_quot (TargetTimespan params) Second"

definition BlocksPerRetarget :: "'a Params_scheme \<Rightarrow> int32" where
  "BlocksPerRetarget params =
     wrap32 (go_quot (targetTimespanSeconds params) (go_quot (TargetTimePerBlock params) Second))"

definition MinRetargetTimespan :: "'a Params_scheme \<Rightarrow> int64" where
  "MinRetargetTimespan params =
     go_quot (targetTimespanSeconds params) (RetargetAdjustmentFactor params)"

definition MaxRetargetTimespan :: "'a Params_scheme \<Rightarrow> int64" where
  "MaxRetargetTimespan params =
     wrap64 (targetTimespanSeconds params * RetargetAdjustmentFactor params)"

text \<open>Go's remainder has the sign of the dividend.\<close>

definition go_rem :: "int \<Rightarrow> int \<Rightarrow> int" where
  "go_rem a b = a - b * go_quot a b"

function findPrevTestNetDifficulty :: "blockNode option \<Rightarrow> 'a Params_scheme \<Rightarrow> u32" where
  "findPrevTestNetDifficulty None params = PowLimitBits params"
| "findPrevTestNetDifficulty (Some n) params =
     (if go_rem (node_height n) (BlocksPerRetarget params) \<noteq> 0 \<and> node_bits n = PowLimitBits params
      then findPrevTestNetDifficulty (parent n) params
      else node_bits n)"
  by pat_completeness auto
termination
proof (relation "measure (\<lambda>(n, _). case n of None \<Rightarrow> 0 | Some m \<Rightarrow> Suc (size m))")
  fix n :: blockNode and params :: "'a Params_scheme"
  show "((parent n, params), (Some n, params))
          \<in> measure (\<lambda>(n, _). case n of None \<Rightarrow> 0 | Some m \<Rightarrow> Suc (size m))"
    by (cases "parent n") (auto dest: size_parent)
qed simp

declare findPrevTestNetDifficulty.simps(2) [simp del]

definition clamp_timespan :: "'a Params_scheme \<Rightarrow> int64 \<Rightarrow> int64" where
  "clamp_timespan params actualTimespan =
     (if actualTimespan < MinRetargetTimespan params then MinRetargetTimespan params
      else if MaxRetargetTimespan params < actualTimespan then MaxRetargetTimespan params
      else actualTimespan)"

text \<open>\<open>big.Int.Div\<close> rounds down for the positive divisors here.\<close>

definition retarget :: "'a Params_scheme \<Rightarrow> blockNode \<Rightarrow> blockNode \<Rightarrow> u32" where
  "retarget params firstNode lastNode =
     (let adjustedTimespan =
            clamp_timespan params (wrap64 (node_timestamp lastNode - node_timestamp firstNode));
          oldTarget = CompactToBig (node_bits (if EnforceBIP94 params then firstNode else lastNode));
          newTarget = oldTarget * adjustedTimespan div targetTimespanSeconds params
      in BigToCompact (if PowLimit params < newTarget then PowLimit params else newTarget))"

definition calcNextRequiredDifficulty ::
  "blockNode option \<Rightarrow> int64 \<Rightarrow> 'a Params_scheme \<Rightarrow> rule_error + u32" where
  "calcNextRequiredDifficulty lastNode newBlockTime params =
     (if PoWNoRetargeting params then Inr (PowLimitBits params)
      else
        case lastNode of
          None \<Rightarrow> Inr (PowLimitBits params)
        | Some n \<Rightarrow>
            bind_r (calcOBTCForkNextRequiredDifficulty n newBlockTime params)
              (\<lambda>fork. case fork of
                 Some bits \<Rightarrow> Inr bits
               | None \<Rightarrow>
                   if go_rem (wrap32 (node_height n + 1)) (BlocksPerRetarget params) \<noteq> 0 then
                     if ReduceMinDifficulty params then
                       if wrap64 (node_timestamp n + go_quot (MinDiffReductionTime params) Second)
                            < newBlockTime
                       then Inr (PowLimitBits params)
                       else Inr (findPrevTestNetDifficulty (Some n) params)
                     else Inr (node_bits n)
                   else
                     (case RelativeAncestor n (wrap32 (BlocksPerRetarget params - 1)) of
                        None \<Rightarrow> Inl ErrAssert
                      | Some firstNode \<Rightarrow> Inr (retarget params firstNode n))))"

section \<open>The easiest difficulty\<close>

partial_function (option) easiest_loop :: "int64 \<Rightarrow> int64 \<Rightarrow> int \<Rightarrow> int64 \<Rightarrow> int \<Rightarrow> int option" where
  "easiest_loop factor maxTimespan limit durationVal newTarget =
     (if 0 < durationVal \<and> newTarget < limit
      then easiest_loop factor maxTimespan limit (wrap64 (durationVal - maxTimespan)) (newTarget * factor)
      else Some newTarget)"

definition calcEasiestDifficulty :: "'a Params_scheme \<Rightarrow> u32 \<Rightarrow> int64 \<Rightarrow> u32 option" where
  "calcEasiestDifficulty params bits duration =
     (let durationVal = go_quot duration Second in
      if ReduceMinDifficulty params \<and> go_quot (MinDiffReductionTime params) Second < durationVal
      then Some (PowLimitBits params)
      else
        map_option
          (\<lambda>newTarget. BigToCompact (if PowLimit params < newTarget then PowLimit params else newTarget))
          (easiest_loop (RetargetAdjustmentFactor params) (MaxRetargetTimespan params) (PowLimit params)
             durationVal (CompactToBig bits)))"

section \<open>The exponential schedule\<close>

definition asert_poly :: "nat \<Rightarrow> nat" where
  "asert_poly f = 195766423245049 * f + 971821376 * f * f + 5127 * f * f * f + 2 ^ 47"

lemma asert_poly_mono: "f \<le> g \<Longrightarrow> asert_poly f \<le> asert_poly g"
  by (simp add: asert_poly_def add_mono mult_le_mono)

text \<open>The polynomial stays below 64 bits, so the factor is exact.\<close>

lemma asert_factor_eq:
  assumes "f < 65536"
  shows "unat (asert_factor (of_nat f)) = 65536 + asert_poly f div 2 ^ 48"
proof -
  have "asert_poly f \<le> asert_poly 65535" using assms by (intro asert_poly_mono) simp
  also have "asert_poly 65535 < 2 ^ 64" by (simp add: asert_poly_def)
  finally have b: "asert_poly f < 2 ^ 64" .
  have "195766423245049 * of_nat f + 971821376 * of_nat f * of_nat f
          + 5127 * of_nat f * of_nat f * of_nat f + push_bit 47 1 = (of_nat (asert_poly f) :: u64)"
    by (simp add: asert_poly_def push_bit_eq_mult)
  then have e: "asert_factor (of_nat f) = word_of_int 65536 + drop_bit 48 (of_nat (asert_poly f))"
    by (simp only: asert_factor_def asertRadix_def)
  define d where "d = drop_bit 48 (of_nat (asert_poly f) :: u64)"
  have d: "unat d = asert_poly f div 2 ^ 48"
    unfolding d_def unat_drop_bit using b by (simp add: unat_of_nat)
  have "asert_factor (of_nat f) = of_nat (65536 + unat d)" using e by (simp add: d_def)
  moreover have "unat d < 2 ^ 16" unfolding d using b by (simp add: div_less_iff_less_mult)
  ultimately have "unat (asert_factor (of_nat f)) = 65536 + unat d"
    by (simp only: unat_of_nat) simp
  then show ?thesis by (simp only: d)
qed

lemma asert_factor_bounds:
  assumes "f < 65536"
  shows "65536 \<le> unat (asert_factor (of_nat f))" and "unat (asert_factor (of_nat f)) \<le> 131072"
proof -
  have "asert_poly f \<le> asert_poly 65535" using assms by (intro asert_poly_mono) simp
  then have "asert_poly f div 2 ^ 48 \<le> asert_poly 65535 div 2 ^ 48" by (rule div_le_mono)
  then show "65536 \<le> unat (asert_factor (of_nat f))" "unat (asert_factor (of_nat f)) \<le> 131072"
    using asert_factor_eq [OF assms] by (simp_all add: asert_poly_def)
qed

lemma asert_factor_0: "unat (asert_factor 0) = 65536"
  using asert_factor_eq [of 0] by (simp add: asert_poly_def)

text \<open>The target as one division: the exponent splits into whole half-lives and a fraction.\<close>

definition asert_raw :: "int \<Rightarrow> int \<Rightarrow> int" where
  "asert_raw T e =
     (let s = e div 65536; F = int (unat (asert_factor (of_nat (nat (e mod 65536)))))
      in if s < 0 then (T * F) div 2 ^ (nat (- s) + 16) else (T * F * 2 ^ nat s) div 2 ^ 16)"

lemma asert_target_eq: "asert_target T e = max 1 (asert_raw T e)"
proof -
  have s: "drop_bit 16 e = e div 65536" by (simp add: drop_bit_eq_div)
  have "e - e div 65536 * 65536 = e mod 65536" by (rule minus_div_mult_eq_mod)
  then have f: "word_of_int (e - e div 65536 * 65536) = (of_nat (nat (e mod 65536)) :: u64)" by simp
  have "drop_bit 16 (drop_bit k x) = x div 2 ^ (k + 16)" for k and x :: int
    by (simp add: drop_bit_eq_div zdiv_zmult2_eq power_add)
  then show ?thesis
    unfolding asert_target_def asert_raw_def Let_def s asertRadix_def f
    by (auto simp: push_bit_eq_mult drop_bit_eq_div max_def)
qed

lemma asert_raw_Suc:
  assumes "0 \<le> T"
  shows "asert_raw T e \<le> asert_raw T (e + 1)"
proof -
  define s where "s = e div 65536"
  define f where "f = nat (e mod 65536)"
  have f: "f < 65536" by (simp add: f_def nat_less_iff)
  have e: "e = s * 65536 + int f" by (simp add: s_def f_def)
  let ?F = "\<lambda>f. int (unat (asert_factor (of_nat f)))"
  have raw: "asert_raw T (t * 65536 + int g)
               = (if t < 0 then (T * ?F g) div 2 ^ (nat (- t) + 16) else (T * ?F g * 2 ^ nat t) div 2 ^ 16)"
    if "g < 65536" for t g
    using that by (simp add: asert_raw_def Let_def)
  show ?thesis
  proof (cases "f = 65535")
    case False
    then have g: "Suc f < 65536" using f by simp
    have "asert_poly f div 2 ^ 48 \<le> asert_poly (Suc f) div 2 ^ 48"
      by (intro div_le_mono asert_poly_mono) simp
    then have "?F f \<le> ?F (Suc f)" using asert_factor_eq [OF f] asert_factor_eq [OF g] by simp
    then have m: "T * ?F f \<le> T * ?F (Suc f)" using assms by (rule mult_left_mono)
    have "asert_raw T (s * 65536 + int f) \<le> asert_raw T (s * 65536 + int (Suc f))"
      unfolding raw [OF f] raw [OF g] using m
      by (auto intro!: zdiv_mono1 mult_right_mono)
    then show ?thesis by (simp add: e algebra_simps)
  next
    case True
    have "?F f \<le> 131072" using asert_factor_bounds(2) [OF f] by linarith
    then have "T * ?F f \<le> T * 131072" using assms by (rule mult_left_mono)
    then have m: "T * ?F f \<le> 2 * (T * 65536)" by simp
    have F0: "?F 0 = 65536" using asert_factor_0 by simp
    have "asert_raw T (s * 65536 + int f) \<le> asert_raw T ((s + 1) * 65536 + int 0)"
    proof -
      consider "0 \<le> s" | "s = -1" | "s < -1" by linarith
      then show ?thesis
      proof cases
        case 1
        then have n: "nat (s + 1) = Suc (nat s)" by simp
        have "T * ?F f * 2 ^ nat s \<le> 2 * (T * 65536) * 2 ^ nat s" using m by (intro mult_right_mono) auto
        then have "T * ?F f * 2 ^ nat s div 2 ^ 16 \<le> 2 * (T * 65536) * 2 ^ nat s div 2 ^ 16"
          by (intro zdiv_mono1) auto
        moreover have "asert_raw T ((s + 1) * 65536 + int 0) = 2 * (T * 65536) * 2 ^ nat s div 2 ^ 16"
          using raw [of 0 "s + 1"] 1 F0 n by (simp add: mult.commute mult.left_commute)
        ultimately show ?thesis unfolding raw [OF f] using 1 by simp
      next
        case 2
        have "T * ?F f div 2 ^ 17 \<le> 2 * (T * 65536) div 2 ^ 17" using m by (intro zdiv_mono1) auto
        moreover have "asert_raw T ((s + 1) * 65536 + int 0) = T"
          using raw [of 0 0] 2 F0 by simp
        ultimately show ?thesis unfolding raw [OF f] using 2 by simp
      next
        case 3
        define k where "k = nat (- (s + 1))"
        have k: "nat (- s) = Suc k" using 3 by (simp add: k_def)
        have q: "(2 :: int) ^ (nat (- s) + 16) = 2 * 2 ^ (k + 16)" unfolding k by (simp add: power_add)
        have "T * ?F f div (2 * 2 ^ (k + 16)) \<le> 2 * (T * 65536) div (2 * 2 ^ (k + 16))"
          by (intro zdiv_mono1 m) simp
        also have "\<dots> = T * 65536 div 2 ^ (k + 16)" by (rule div_mult_mult1) simp
        also have "\<dots> = asert_raw T ((s + 1) * 65536 + int 0)"
          using raw [of 0 "s + 1"] 3 F0 by (simp add: k_def)
        finally show ?thesis unfolding raw [OF f] q using 3 by simp
      qed
    qed
    then show ?thesis by (simp add: e True algebra_simps)
  qed
qed

lemma asert_raw_mono: "e \<le> e' \<Longrightarrow> 0 \<le> T \<Longrightarrow> asert_raw T e \<le> asert_raw T e'"
  by (induction e' rule: int_ge_induct) (auto intro: order.trans asert_raw_Suc)

lemma asert_raw_nonpos: "T \<le> 0 \<Longrightarrow> asert_raw T e \<le> 0"
  by (auto simp: asert_raw_def Let_def mult_nonpos_nonneg div_nonpos_pos_le0)

lemma asert_target_mono: "e \<le> e' \<Longrightarrow> asert_target T e \<le> asert_target T e'"
  using asert_raw_mono [of e e' T] asert_raw_nonpos [of T e]
  by (cases "0 \<le> T") (auto simp: asert_target_eq)

lemma asert_target_pos: "0 < asert_target T e"
  by (simp add: asert_target_eq)

section \<open>The exponent\<close>

lemma is_node_timestamp: "is_node n \<Longrightarrow> 0 \<le> node_timestamp n \<and> node_timestamp n < 2 ^ 32"
proof (induction rule: is_node.induct)
  case (genesis header)
  then show ?case using unsigned_less [of "Timestamp header", where ?'a = int] by simp
next
  case (child p header)
  then show ?case using unsigned_less [of "Timestamp header", where ?'a = int] by simp
qed

text \<open>On the times and heights of a chain nothing overflows, for a spacing of up to nine hours.\<close>

definition schedule_offset :: "blockNode \<Rightarrow> int32 \<Rightarrow> int64 \<Rightarrow> int64 \<Rightarrow> int" where
  "schedule_offset anchor nextHeight newBlockTime spacing =
     newBlockTime - node_timestamp anchor - (nextHeight - node_height anchor) * spacing"

lemma asert_exponent_eq:
  assumes "is_node a" and "node_height a \<le> h" and "h < 2 ^ 31" and "0 \<le> t" and "t < 2 ^ 32"
    and "0 \<le> sp" and "sp \<le> 2 ^ 15"
  shows "asert_exponent a h t sp hl = go_quot (schedule_offset a h t sp * 65536) hl"
proof -
  note ts = is_node_timestamp [OF assms(1)]
  have ht: "0 \<le> node_height a" using is_node_height [OF assms(1)] by simp
  have 1: "wrap64 (t - node_timestamp a) = t - node_timestamp a"
    using assms ts by (intro wrap64_id) (simp add: is_int64_def)
  have 2: "wrap32 (h - node_height a) = h - node_height a"
    using assms ht by (intro wrap32_id) (simp add: is_int32_def)
  define P where "P = (h - node_height a) * sp"
  have "P \<le> 2 ^ 31 * 2 ^ 15" unfolding P_def using assms ht by (intro mult_mono) auto
  then have p: "0 \<le> P" "P \<le> 2 ^ 46" using assms by (simp_all add: P_def)
  have 3: "wrap64 P = P" using p by (intro wrap64_id) (simp add: is_int64_def)
  have off: "schedule_offset a h t sp = t - node_timestamp a - P" by (simp add: schedule_offset_def P_def)
  have 4: "wrap64 (t - node_timestamp a - P) = schedule_offset a h t sp"
    unfolding off using p assms(4,5) ts by (intro wrap64_id) (simp add: is_int64_def)
  have 5: "wrap64 (schedule_offset a h t sp * 65536) = schedule_offset a h t sp * 65536"
    unfolding off using p assms(4,5) ts by (intro wrap64_id) (simp add: is_int64_def)
  show ?thesis unfolding asert_exponent_def Let_def asertRadix_def 1 2 P_def [symmetric] 3 4 5 ..
qed

lemma go_quot_mono:
  assumes "x \<le> y" and "0 < h"
  shows "go_quot x h \<le> go_quot y h"
proof -
  have pos: "0 \<le> go_quot z h" if "0 \<le> z" for z using that assms(2) by (simp add: pos_imp_zdiv_nonneg_iff)
  have neg: "go_quot z h = - ((- z) div h)" if "z < 0" for z
    using that assms(2) by (simp add: go_quot_def sgn_if)
  have neg_le: "go_quot z h \<le> 0" if "z < 0" for z
    using that neg [OF that] assms(2) by (simp add: pos_imp_zdiv_nonneg_iff)
  consider "0 \<le> x" | "x < 0" "0 \<le> y" | "y < 0" using assms(1) by linarith
  then show ?thesis
  proof cases
    case 1
    then show ?thesis using assms by (simp add: zdiv_mono1)
  next
    case 2
    then show ?thesis using neg_le [of x] pos [of y] by simp
  next
    case 3
    then have "(- y) div h \<le> (- x) div h" using assms by (intro zdiv_mono1) auto
    then show ?thesis using neg [of x] neg [of y] 3 assms(1) by simp
  qed
qed

section \<open>The bits the schedule requires\<close>

lemma byte_len_limit: "0 < n \<Longrightarrow> n \<le> limit \<Longrightarrow> limit < 2 ^ 256 \<Longrightarrow> byte_len (nat n) < 255"
proof -
  assume "0 < n" "n \<le> limit" "limit < 2 ^ 256"
  then have "nat n < 256 ^ 32" by (simp add: nat_less_iff)
  then show ?thesis using byte_len_less [of "nat n" 32] by simp
qed

definition capped :: "int \<Rightarrow> int \<Rightarrow> int" where
  "capped limit target = (if limit < target then limit else target)"

lemma CompactToBig_capped:
  assumes "0 < limit" and "limit < 2 ^ 256" and "0 < m" and "m \<le> n"
  shows "0 < CompactToBig (BigToCompact (capped limit m))"
    and "CompactToBig (BigToCompact (capped limit m)) \<le> CompactToBig (BigToCompact (capped limit n))"
    and "CompactToBig (BigToCompact (capped limit m)) \<le> limit"
proof -
  have c: "0 < capped limit m" "capped limit m \<le> capped limit n" "capped limit n \<le> limit"
    "capped limit m \<le> limit"
    using assms by (auto simp: capped_def)
  note b = byte_len_limit [OF c(1,4) assms(2)]
  have "0 < capped limit n" using c by simp
  note b' = byte_len_limit [OF this c(3) assms(2)]
  show "0 < CompactToBig (BigToCompact (capped limit m))"
    using CompactToBig_BigToCompact_bounds(4) [OF c(1) b] .
  show "CompactToBig (BigToCompact (capped limit m)) \<le> limit"
    using CompactToBig_BigToCompact_bounds(1) [OF c(1) b] c(4) by simp
  show "CompactToBig (BigToCompact (capped limit m)) \<le> CompactToBig (BigToCompact (capped limit n))"
    using CompactToBig_BigToCompact_mono [OF c(1,2) b'] .
qed

lemma calcASERTRequiredDifficulty_eq:
  assumes "0 < go_quot halfLife Second" and "0 < go_quot spacing Second"
  shows "calcASERTRequiredDifficulty (Some a) h t spacing halfLife limit =
    Inr (BigToCompact (capped limit (asert_target (CompactToBig (node_bits a))
      (asert_exponent a h t (go_quot spacing Second) (go_quot halfLife Second)))))"
proof -
  have pos: "0 < x" if "0 < go_quot x Second" for x
  proof (rule ccontr)
    assume "\<not> 0 < x"
    then have "go_quot x Second = - ((- x) div Second) \<or> go_quot x Second = 0"
      by (auto simp: go_quot_def Second_def sgn_if)
    moreover have "0 \<le> (- x) div Second"
      using \<open>\<not> 0 < x\<close> by (simp add: Second_def pos_imp_zdiv_nonneg_iff)
    ultimately show False using that by linarith
  qed
  have "\<not> halfLife \<le> 0" "\<not> spacing \<le> 0" "go_quot halfLife Second \<noteq> 0"
    using pos [OF assms(1)] pos [OF assms(2)] assms(1) by auto
  then show ?thesis by (simp add: calcASERTRequiredDifficulty_def Let_def capped_def)
qed

lemma asert_within_limit:
  assumes "0 < go_quot halfLife Second" and "0 < go_quot spacing Second"
    and "0 < limit" and "limit < 2 ^ 256"
  shows "\<exists>b. calcASERTRequiredDifficulty (Some a) h t spacing halfLife limit = Inr b
           \<and> 0 < CompactToBig b \<and> CompactToBig b \<le> limit"
  using calcASERTRequiredDifficulty_eq [OF assms(1,2)]
    CompactToBig_capped(1,3) [OF assms(3,4) asert_target_pos order.refl] by blast

section \<open>Exact powers of the half-life\<close>

lemma asert_raw_half_lives: "0 \<le> k \<Longrightarrow> asert_raw T (k * 65536) = T * 2 ^ nat k"
  using asert_factor_0 by (simp add: asert_raw_def)

lemma asert_raw_half_lives_ahead:
  assumes "0 \<le> k"
  shows "asert_raw T (- k * 65536) = T div 2 ^ nat k"
proof (cases "k = 0")
  case True
  then show ?thesis using asert_raw_half_lives [of 0 T] by simp
next
  case False
  have "- k * 65536 div 65536 = - k" and "- k * 65536 mod 65536 = 0" by simp_all
  moreover have "T * 65536 div 2 ^ (nat k + 16) = T div 2 ^ nat k"
    by (simp add: power_add flip: mult.commute [of 65536])
  ultimately show ?thesis using assms False asert_factor_0 unfolding asert_raw_def Let_def by simp
qed

lemma go_quot_mult_self: "0 < h \<Longrightarrow> go_quot (x * h) h = x"
  by (cases x "0 :: int" rule: linorder_cases)
    (auto simp: go_quot_def sgn_mult abs_mult simp flip: mult_minus_left)

section \<open>The schedule of the main network\<close>

lemma mainnet_durations:
  "go_quot (10 * Minute) Second = 600" "go_quot Hour Second = 3600" "go_quot (48 * Hour) Second = 172800"
  "go_quot (14 * 24 * Hour) Second = 1209600" "go_quot 1209600 600 = 2016"
  by (simp_all add: duration_defs go_quot_def)

text \<open>The block whose difficulty the schedule starts from, for a block at a height.\<close>

definition mainnet_anchor :: "int32 \<Rightarrow> int32" where
  "mainnet_anchor h = (if ObtcMainNetActivationHeight < h then ObtcMainNetActivationHeight
                       else ObtcMainNetFirstBlockHeight)"

definition mainnet_half_life :: "int32 \<Rightarrow> int64" where
  "mainnet_half_life h = (if ObtcMainNetActivationHeight < h then 48 * Hour else Hour)"

lemma mainnet_fork_params:
  "ForkDAAStartHeight ObtcMainNetParams = ObtcMainNetFirstBlockHeight"
  "ForkDAABootstrapEndHeight ObtcMainNetParams = ObtcMainNetActivationHeight"
  "ForkDAAForkResetBits ObtcMainNetParams = 0x1d00ffff"
  "ForkDAABootstrapHalfLife ObtcMainNetParams = Hour"
  "ForkDAANormalHalfLife ObtcMainNetParams = 48 * Hour"
  "TargetTimePerBlock ObtcMainNetParams = 10 * Minute"
  "PowLimit ObtcMainNetParams = obtcPowLimit"
  "\<not> PoWNoRetargeting ObtcMainNetParams"
  by (simp_all add: ObtcMainNetParams_def)

lemma mainnet_fork_difficulty:
  assumes "is_node n" and "node_height n < 2 ^ 31 - 1" and "ObtcMainNetFirstBlockHeight \<le> node_height n"
  shows "calcOBTCForkNextRequiredDifficulty n t ObtcMainNetParams =
    bind_r (calcASERTRequiredDifficulty (Some (ancestor_at n (mainnet_anchor (node_height n + 1))))
      (node_height n + 1) t (10 * Minute) (mainnet_half_life (node_height n + 1)) obtcPowLimit)
      (\<lambda>bits. Inr (Some bits))"
proof -
  have h: "wrap32 (node_height n + 1) = node_height n + 1"
    using is_node_height [OF assms(1)] assms(2) by (intro wrap32_id) (simp add: is_int32_def)
  define A where "A = mainnet_anchor (node_height n + 1)"
  have A: "0 \<le> A" "A \<le> node_height n"
    using assms(3) by (auto simp: A_def mainnet_anchor_def ObtcMainNetFirstBlockHeight_def
        ObtcMainNetForkHeight_def ObtcMainNetActivationHeight_def)
  have d: "wrap32 (node_height n - A) = node_height n - A"
    using is_node_height [OF assms(1)] A by (intro wrap32_id) (simp add: is_int32_def)
  have ra: "RelativeAncestor n (wrap32 (node_height n - A)) = Some (ancestor_at n A)"
    unfolding RelativeAncestor_def d
    using A is_node_height [OF assms(1)] by (simp add: Ancestor_eq [OF assms(1)] wrap32_id is_int32_def)
  have pair: "(if ObtcMainNetFirstBlockHeight \<le> ObtcMainNetActivationHeight
        \<and> ObtcMainNetActivationHeight < node_height n + 1
      then (ObtcMainNetActivationHeight, 48 * Hour) else (ObtcMainNetFirstBlockHeight, Hour))
      = (A, mainnet_half_life (node_height n + 1))"
    by (simp add: A_def mainnet_anchor_def mainnet_half_life_def ObtcMainNetFirstBlockHeight_def
        ObtcMainNetForkHeight_def ObtcMainNetActivationHeight_def)
  have "0 < ObtcMainNetFirstBlockHeight"
    by (simp add: ObtcMainNetFirstBlockHeight_def ObtcMainNetForkHeight_def)
  then show ?thesis
    unfolding calcOBTCForkNextRequiredDifficulty_def Let_def h mainnet_fork_params pair prod.case
    using ra A assms(3) d by (simp flip: A_def)
qed

text \<open>A chain of equal headers, to reach the heights of the fork.\<close>

definition ex_header :: BlockHeader where
  "ex_header = \<lparr>BlockVersion = 4, PrevBlock = 0, MerkleRoot = 0, Timestamp = 1000, Bits = 0x1c00ffff,
     Nonce = 0\<rparr>"

fun ex_nodes :: "nat \<Rightarrow> blockNode" where
  "ex_nodes 0 = newBlockNode ex_header None"
| "ex_nodes (Suc k) = newBlockNode ex_header (Some (ex_nodes k))"

lemma ex_nodes_ok: "int k < 2 ^ 31 \<Longrightarrow> is_node (ex_nodes k) \<and> node_height (ex_nodes k) = int k"
proof (induction k)
  case (Suc k)
  then have "is_node (ex_nodes k)" and "node_height (ex_nodes k) = int k" by simp_all
  then show ?case
    using is_node_child_height [of "ex_nodes k" ex_header] Suc.prems by (auto intro: is_node.child)
qed (simp add: is_node.genesis)

section \<open>Properties\<close>

text \<open>C33: the exponential schedule stays between one and the limit and follows the clock.  For a
  later block time the required target is at least as high, whatever bits the anchor has; the result
  is always positive and never above the limit.\<close>

theorem asert_bounded_and_monotone:
  assumes "is_node a" and "node_height a \<le> h" and "h < 2 ^ 31"
    and "0 \<le> t" and "t \<le> t'" and "t' < 2 ^ 32"
    and "0 < go_quot spacing Second" and "go_quot spacing Second \<le> 2 ^ 15"
    and "0 < go_quot halfLife Second" and "0 < limit" and "limit < 2 ^ 256"
  shows "\<exists>b b'. calcASERTRequiredDifficulty (Some a) h t spacing halfLife limit = Inr b
    \<and> calcASERTRequiredDifficulty (Some a) h t' spacing halfLife limit = Inr b'
    \<and> 0 < CompactToBig b \<and> CompactToBig b \<le> CompactToBig b' \<and> CompactToBig b' \<le> limit"
proof -
  let ?sp = "go_quot spacing Second" and ?hl = "go_quot halfLife Second"
  let ?e = "asert_exponent a h t ?sp ?hl" and ?e' = "asert_exponent a h t' ?sp ?hl"
  let ?T = "CompactToBig (node_bits a)"
  have "?e = go_quot (schedule_offset a h t ?sp * 65536) ?hl"
    and "?e' = go_quot (schedule_offset a h t' ?sp * 65536) ?hl"
    using assms by (auto intro!: asert_exponent_eq)
  then have "?e \<le> ?e'" using assms by (auto intro!: go_quot_mono simp: schedule_offset_def)
  then have m: "asert_target ?T ?e \<le> asert_target ?T ?e'" by (rule asert_target_mono)
  show ?thesis
    using calcASERTRequiredDifficulty_eq [OF assms(9,7), of a h t limit]
      calcASERTRequiredDifficulty_eq [OF assms(9,7), of a h t' limit]
      CompactToBig_capped [OF assms(10,11) asert_target_pos m]
      CompactToBig_capped(3) [OF assms(10,11) asert_target_pos order.refl, of ?T ?e'] by blast
qed

theorem asert_bounded_and_monotone_witness:
  "\<exists>b b'. calcASERTRequiredDifficulty
       (Some (ex_nodes 0)) 1 1000 (10 * Minute) Hour obtcPowLimit = Inr b
    \<and> calcASERTRequiredDifficulty
       (Some (ex_nodes 0)) 1 8200 (10 * Minute) Hour obtcPowLimit = Inr b'
    \<and> 0 < CompactToBig b \<and> CompactToBig b \<le> CompactToBig b' \<and> CompactToBig b' \<le> obtcPowLimit"
  by (rule asert_bounded_and_monotone)
    (simp_all add: is_node.genesis mainnet_durations obtcPowLimit_def ex_header_def)

text \<open>The schedule is exact at whole half-lives.  A block whose time is \<open>k\<close> half-lives behind
  the ideal time requires the target of the anchor doubled \<open>k\<close> times, one that is \<open>k\<close> half-lives
  ahead requires it halved \<open>k\<close> times; exactly on time, the target of the anchor.\<close>

theorem asert_exact_at_half_lives:
  assumes "is_node a" and "node_height a \<le> h" and "h < 2 ^ 31" and "0 \<le> t" and "t < 2 ^ 32"
    and "0 < go_quot spacing Second" and "go_quot spacing Second \<le> 2 ^ 15"
    and "0 < go_quot halfLife Second"
    and "schedule_offset a h t (go_quot spacing Second) = k * go_quot halfLife Second"
  shows "calcASERTRequiredDifficulty (Some a) h t spacing halfLife limit =
    Inr (BigToCompact (min limit (max 1
      (if 0 \<le> k then CompactToBig (node_bits a) * 2 ^ nat k
       else CompactToBig (node_bits a) div 2 ^ nat (- k)))))"
proof -
  have "asert_exponent a h t (go_quot spacing Second) (go_quot halfLife Second) = k * 65536"
    using asert_exponent_eq [OF assms(1-5) less_imp_le [OF assms(6)] assms(7)] assms(8,9)
      go_quot_mult_self [OF assms(8), of "k * 65536"] by (simp add: mult_ac)
  then show ?thesis
    using calcASERTRequiredDifficulty_eq [OF assms(8,6)] asert_raw_half_lives [of k]
      asert_raw_half_lives_ahead [of "- k"]
    by (simp add: asert_target_eq capped_def min_def)
qed

theorem asert_exact_at_half_lives_witness:
  "calcASERTRequiredDifficulty
     (Some (ex_nodes 0)) 1 8800 (10 * Minute) Hour obtcPowLimit
   = Inr (BigToCompact (min obtcPowLimit (max 1 (CompactToBig 0x1c00ffff * 4))))"
  using asert_exact_at_half_lives
    [of "ex_nodes 0" 1 8800 "10 * Minute" Hour 2 obtcPowLimit]
  by (simp add: is_node.genesis mainnet_durations schedule_offset_def ex_header_def)

text \<open>C34: on the main network the fork's schedule never fails.  The first block of the fork
  requires the reset difficulty; every later one requires what the schedule gives from its anchor,
  the first block of the fork up to the activation height and the block at the activation height
  after it, and the result is a positive target within the limit.\<close>

theorem mainnet_schedule_total:
  assumes "is_node n" and "node_height n < 2 ^ 31 - 1" and "ObtcMainNetFirstBlockHeight \<le> node_height n + 1"
  shows "\<exists>b. calcNextRequiredDifficulty (Some n) t ObtcMainNetParams = Inr b
    \<and> 0 < CompactToBig b \<and> CompactToBig b \<le> obtcPowLimit
    \<and> (if node_height n + 1 = ObtcMainNetFirstBlockHeight then b = 0x1d00ffff
       else calcASERTRequiredDifficulty (Some (ancestor_at n (mainnet_anchor (node_height n + 1))))
              (node_height n + 1) t (10 * Minute) (mainnet_half_life (node_height n + 1)) obtcPowLimit
            = Inr b)"
proof (cases "node_height n + 1 = ObtcMainNetFirstBlockHeight")
  case True
  have "wrap32 (node_height n + 1) = node_height n + 1"
    using is_node_height [OF assms(1)] assms(2) by (intro wrap32_id) (simp add: is_int32_def)
  then have "calcNextRequiredDifficulty (Some n) t ObtcMainNetParams = Inr 0x1d00ffff"
    using True by (simp add: calcNextRequiredDifficulty_def calcOBTCForkNextRequiredDifficulty_def Let_def
        ObtcMainNetParams_def ObtcMainNetFirstBlockHeight_def ObtcMainNetForkHeight_def)
  moreover have "CompactToBig 0x1d00ffff = 0xffff * 256 ^ 26"
    using CompactToBig_parts [of "0x1d00ffff" 29 "0xffff"] by simp
  ultimately show ?thesis using True by (simp add: obtcPowLimit_def)
next
  case False
  let ?A = "mainnet_anchor (node_height n + 1)"
  have h: "ObtcMainNetFirstBlockHeight \<le> node_height n" using assms(3) False by simp
  have hl: "0 < go_quot (mainnet_half_life x) Second" for x
    by (simp add: mainnet_half_life_def mainnet_durations)
  have lim: "0 < obtcPowLimit" "obtcPowLimit < 2 ^ 256" by (simp_all add: obtcPowLimit_def)
  obtain b where b: "calcASERTRequiredDifficulty (Some (ancestor_at n ?A)) (node_height n + 1) t
      (10 * Minute) (mainnet_half_life (node_height n + 1)) obtcPowLimit = Inr b"
    "0 < CompactToBig b" "CompactToBig b \<le> obtcPowLimit"
    using asert_within_limit [of "mainnet_half_life (node_height n + 1)" "10 * Minute" obtcPowLimit
        "ancestor_at n ?A" "node_height n + 1" t] hl lim by (auto simp: mainnet_durations)
  have "calcNextRequiredDifficulty (Some n) t ObtcMainNetParams = Inr b"
    using mainnet_fork_difficulty [OF assms(1,2) h, of t] b(1)
    by (simp add: calcNextRequiredDifficulty_def mainnet_fork_params)
  then show ?thesis using b False by auto
qed

theorem mainnet_schedule_total_witness:
  "\<exists>b. calcNextRequiredDifficulty (Some (ex_nodes 1000100)) 2000 ObtcMainNetParams = Inr b
     \<and> 0 < CompactToBig b \<and> CompactToBig b \<le> obtcPowLimit"
proof -
  have "is_node (ex_nodes 1000100)" "node_height (ex_nodes 1000100) = 1000100"
    using ex_nodes_ok [of 1000100] by simp_all
  then show ?thesis
    using mainnet_schedule_total [of "ex_nodes 1000100" 2000]
    by (auto simp: ObtcMainNetFirstBlockHeight_def ObtcMainNetForkHeight_def)
qed

end
