(* ===== verification/Chain_View.thy ===== *)
theory Chain_View
  imports Block_Index
begin

text \<open>
  The view of one branch of the block tree (\<open>blockchain/chainview.go\<close>): a slice of nodes by height
  that is moved from tip to tip, the fork point with another branch, and block locators.  The exported
  methods take the lock and call these.  A view is that of the chain of a node, or empty;
  \<open>None\<close> in the slice is a nil pointer.
\<close>

unbundle bit_operations_syntax

section \<open>Operations\<close>

type_synonym chainView = "blockNode option list"

definition cv_genesis :: "chainView \<Rightarrow> blockNode option" where
  "cv_genesis c = (if c = [] then None else c ! 0)"

definition cv_tip :: "chainView \<Rightarrow> blockNode option" where
  "cv_tip c = (if c = [] then None else last c)"

text \<open>Cut or extend the slice to the height of the new tip.\<close>

definition resize_view :: "nat \<Rightarrow> chainView \<Rightarrow> chainView" where
  "resize_view needed c = take needed c @ replicate (needed - length c) None"

function setTip_loop :: "blockNode option \<Rightarrow> chainView \<Rightarrow> chainView" where
  "setTip_loop None c = c"
| "setTip_loop (Some n) c =
     (if c ! nat (node_height n) = Some n then c
      else setTip_loop (parent n) (c[nat (node_height n) := Some n]))"
  by pat_completeness auto
termination
proof (relation "measure (\<lambda>(n, _). case n of None \<Rightarrow> 0 | Some m \<Rightarrow> Suc (size m))")
  fix n :: blockNode and c :: chainView
  show "((parent n, c[nat (node_height n) := Some n]), (Some n, c))
          \<in> measure (\<lambda>(n, _). case n of None \<Rightarrow> 0 | Some m \<Rightarrow> Suc (size m))"
    by (cases "parent n") (auto dest: size_parent)
qed simp

declare setTip_loop.simps(2) [simp del]

definition setTip :: "blockNode option \<Rightarrow> chainView \<Rightarrow> chainView" where
  "setTip node c =
     (case node of
        None \<Rightarrow> []
      | Some n \<Rightarrow> setTip_loop node (resize_view (nat (node_height n + 1)) c))"

definition newChainView :: "blockNode option \<Rightarrow> chainView" where
  "newChainView node = setTip node []"

definition cv_height :: "chainView \<Rightarrow> int32" where
  "cv_height c = wrap32 (int (length c) - 1)"

definition nodeByHeight :: "chainView \<Rightarrow> int32 \<Rightarrow> blockNode option" where
  "nodeByHeight c h = (if h < 0 \<or> wrap32 (int (length c)) \<le> h then None else c ! nat h)"

definition contains :: "chainView \<Rightarrow> blockNode \<Rightarrow> bool" where
  "contains c node \<longleftrightarrow> nodeByHeight c (node_height node) = Some node"

definition cv_next :: "chainView \<Rightarrow> blockNode option \<Rightarrow> blockNode option" where
  "cv_next c node =
     (case node of
        None \<Rightarrow> None
      | Some n \<Rightarrow> if contains c n then nodeByHeight c (wrap32 (node_height n + 1)) else None)"

function findFork_loop :: "chainView \<Rightarrow> blockNode option \<Rightarrow> blockNode option" where
  "findFork_loop c None = None"
| "findFork_loop c (Some n) = (if contains c n then Some n else findFork_loop c (parent n))"
  by pat_completeness auto
termination
proof (relation "measure (\<lambda>(_, n). case n of None \<Rightarrow> 0 | Some m \<Rightarrow> Suc (size m))")
  fix n :: blockNode and c :: chainView
  show "((c, parent n), (c, Some n))
          \<in> measure (\<lambda>(_, n). case n of None \<Rightarrow> 0 | Some m \<Rightarrow> Suc (size m))"
    by (cases "parent n") (auto dest: size_parent)
qed simp

declare findFork_loop.simps(2) [simp del]

definition findFork :: "chainView \<Rightarrow> blockNode option \<Rightarrow> blockNode option" where
  "findFork c node =
     (case node of
        None \<Rightarrow> None
      | Some n \<Rightarrow>
          findFork_loop c
            (if cv_height c < node_height n then Ancestor n (cv_height c) else node))"

text \<open>The loop of \<open>blockLocator\<close>; \<open>None\<close> is a call that does not return.\<close>

partial_function (option) locator_loop ::
  "chainView \<Rightarrow> blockNode option \<Rightarrow> int32 \<Rightarrow> hash list \<Rightarrow> hash list option" where
  "locator_loop c node step locator =
     (case node of
        None \<Rightarrow> Some locator
      | Some n \<Rightarrow>
          let locator = locator @ [node_hash n] in
          if node_height n = 0 then Some locator
          else
            let h = wrap32 (node_height n - step);
                h = (if h < 0 then 0 else h)
            in if contains c n \<and> int (length c) \<le> h then None
               else locator_loop c (if contains c n then c ! nat h else Ancestor n h)
                      (if 10 < length locator then wrap32 (step * 2) else step) locator)"

definition blockLocator :: "chainView \<Rightarrow> blockNode option \<Rightarrow> hash list option" where
  "blockLocator c node =
     (case (case node of None \<Rightarrow> cv_tip c | Some n \<Rightarrow> node) of
        None \<Rightarrow> Some []
      | Some n \<Rightarrow> locator_loop c (Some n) 1 [])"

section \<open>The views that occur\<close>

definition view_of :: "blockNode \<Rightarrow> chainView" where
  "view_of n = map Some (rev (chain_of n))"

definition wf_view :: "chainView \<Rightarrow> bool" where
  "wf_view c \<longleftrightarrow> c = [] \<or> (\<exists>n. is_node n \<and> c = view_of n)"

lemma length_view_of: "is_node n \<Longrightarrow> length (view_of n) = Suc (nat (node_height n))"
  by (simp add: view_of_def length_chain_of)

lemma view_of_nth:
  assumes "is_node n" and "0 \<le> h" and "h \<le> node_height n"
  shows "view_of n ! nat h = Some (ancestor_at n h)"
proof -
  have "nat h < length (chain_of n)"
    using length_chain_of [OF assms(1)] assms by (simp add: nat_le_eq_zle)
  then have "view_of n ! nat h = Some (chain_of n ! (length (chain_of n) - Suc (nat h)))"
    by (simp add: view_of_def rev_nth)
  moreover have "length (chain_of n) - Suc (nat h) = nat (node_height n - h)"
    using length_chain_of [OF assms(1)] assms by simp
  ultimately show ?thesis by (simp add: ancestor_at_def)
qed

lemma take_view_of:
  assumes "is_node n" and "0 \<le> h" and "h \<le> node_height n"
  shows "take (Suc (nat h)) (view_of n) = view_of (ancestor_at n h)"
proof -
  let ?i = "nat (node_height n - h)"
  have l: "?i < length (chain_of n)" using length_chain_of [OF assms(1)] assms by simp
  have "chain_of (ancestor_at n h) = drop ?i (chain_of n)"
    using chain_of_nth [OF assms(1) l] by (simp add: ancestor_at_def)
  moreover have "length (chain_of n) - Suc (nat h) = ?i"
    using length_chain_of [OF assms(1)] assms by simp
  ultimately show ?thesis
    by (simp add: view_of_def take_map take_rev)
qed

lemma view_of_child: "parent n = Some p \<Longrightarrow> view_of n = view_of p @ [Some n]"
  by (simp add: view_of_def chain_of_child)

lemma view_of_root: "parent n = None \<Longrightarrow> view_of n = [Some n]"
  by (simp add: view_of_def chain_of_root)

section \<open>Moving the tip\<close>

text \<open>Up to a height, every node of the slice stands on its own chain.\<close>

definition closed_below :: "chainView \<Rightarrow> nat \<Rightarrow> bool" where
  "closed_below c k \<longleftrightarrow> (\<forall>i x. i < k \<longrightarrow> c ! i = Some x \<longrightarrow> take (Suc i) c = view_of x)"

lemma setTip_loop_view:
  "is_node n \<Longrightarrow> nat (node_height n) < length c \<Longrightarrow> closed_below c (Suc (nat (node_height n))) \<Longrightarrow>
     setTip_loop (Some n) c = view_of n @ drop (Suc (nat (node_height n))) c"
proof (induction "nat (node_height n)" arbitrary: n c rule: less_induct)
  case less
  let ?h = "nat (node_height n)"
  show ?case
  proof (cases "c ! ?h = Some n")
    case True
    then have "take (Suc ?h) c = view_of n" using less.prems(3) by (auto simp: closed_below_def)
    then show ?thesis using True by (metis append_take_drop_id setTip_loop.simps(2))
  next
    case False
    let ?c = "c[?h := Some n]"
    have u: "setTip_loop (Some n) c = setTip_loop (parent n) ?c"
      using False by (simp add: setTip_loop.simps(2))
    show ?thesis
    proof (cases "parent n")
      case None
      then have "node_height n = 0" using is_node_parent_None [OF less.prems(1)] by simp
      then show ?thesis
        using u None less.prems(2) by (cases c) (auto simp: view_of_root)
    next
      case (Some p)
      note p = is_node_parent [OF less.prems(1) Some]
      have hp: "0 \<le> node_height p" using is_node_height [OF p(1)] by simp
      have h: "?h = Suc (nat (node_height p))" using p(2) hp by simp
      have "closed_below ?c (Suc (nat (node_height p)))"
        using less.prems(3) h by (auto simp: closed_below_def take_update_cancel)
      then have "setTip_loop (Some p) ?c = view_of p @ drop (Suc (nat (node_height p))) ?c"
        using less.hyps [of p ?c] less.prems(2) p h by simp
      also have "drop (Suc (nat (node_height p))) ?c = Some n # drop (Suc ?h) c"
        using less.prems(2) h by (simp add: Cons_nth_drop_Suc [symmetric] drop_update_cancel)
      finally show ?thesis using u Some by (simp add: view_of_child)
    qed
  qed
qed

lemma nth_resize_view:
  "i < k \<Longrightarrow> resize_view k c ! i = (if i < length c then c ! i else None)"
  by (simp add: resize_view_def nth_append)

lemma closed_resize_view:
  assumes "wf_view c"
  shows "closed_below (resize_view k c) k"
proof (unfold closed_below_def, intro allI impI)
  fix i x
  assume i: "i < k" and x: "resize_view k c ! i = Some x"
  then have l: "i < length c" "c ! i = Some x" by (auto simp: nth_resize_view split: if_splits)
  then obtain n where n: "is_node n" "c = view_of n" using assms by (auto simp: wf_view_def)
  then have h: "0 \<le> int i" "int i \<le> node_height n"
    using l(1) length_view_of [OF n(1)] is_node_height [OF n(1)] by auto
  have "ancestor_at n (int i) = x" using view_of_nth [OF n(1) h] l(2) n(2) by simp
  moreover have "take (Suc i) c = view_of (ancestor_at n (int i))"
    using take_view_of [OF n(1) h] n(2) by simp
  moreover have "take (Suc i) (resize_view k c) = take (Suc i) c"
    using i l(1) by (simp add: resize_view_def)
  ultimately show "take (Suc i) (resize_view k c) = view_of x" by simp
qed

lemma setTip_view:
  assumes "wf_view c" and "is_node n"
  shows "setTip (Some n) c = view_of n"
proof -
  have h: "nat (node_height n + 1) = Suc (nat (node_height n))"
    using is_node_height [OF assms(2)] by (simp add: nat_add_distrib)
  have l: "length (resize_view (Suc (nat (node_height n))) c) = Suc (nat (node_height n))"
    by (simp add: resize_view_def)
  show ?thesis
    using setTip_loop_view [OF assms(2) _ closed_resize_view [OF assms(1)]] l by (simp add: setTip_def h)
qed

lemma wf_view_setTip: "wf_view c \<Longrightarrow> (\<And>n. node = Some n \<Longrightarrow> is_node n) \<Longrightarrow> wf_view (setTip node c)"
  by (cases node) (auto simp: setTip_view wf_view_def setTip_def [of None])

section \<open>Looking up\<close>

lemma nodeByHeight_view:
  assumes "is_node t" and "node_height t < 2 ^ 31 - 1"
  shows "nodeByHeight (view_of t) h = (if h < 0 \<or> node_height t < h then None else Some (ancestor_at t h))"
proof -
  have l: "int (length (view_of t)) = node_height t + 1"
    using length_view_of [OF assms(1)] is_node_height [OF assms(1)] by simp
  moreover have "wrap32 (node_height t + 1) = node_height t + 1"
    using is_node_height [OF assms(1)] assms(2) by (intro wrap32_id) (simp add: is_int32_def)
  ultimately show ?thesis using view_of_nth [OF assms(1)] by (auto simp: nodeByHeight_def)
qed

lemma cv_height_view: "is_node t \<Longrightarrow> cv_height (view_of t) = node_height t"
  using is_node_height [of t] by (simp add: cv_height_def length_view_of wrap32_id is_int32_def)

lemma ancestor_at_in_chain:
  assumes "is_node t" and "0 \<le> h" and "h \<le> node_height t"
  shows "ancestor_at t h \<in> set (chain_of t)"
  using length_chain_of [OF assms(1)] assms by (simp add: ancestor_at_def)

lemma in_chain_ancestor_at:
  assumes "is_node t" and "n \<in> set (chain_of t)"
  shows "ancestor_at t (node_height n) = n" and "0 \<le> node_height n" and "node_height n \<le> node_height t"
    and "is_node n"
proof -
  obtain i where i: "i < length (chain_of t)" "chain_of t ! i = n"
    using assms(2) by (auto simp: in_set_conv_nth)
  note c = chain_of_nth [OF assms(1) i(1)]
  show "is_node n" "node_height n \<le> node_height t" using c i by auto
  then show "0 \<le> node_height n" using is_node_height by blast
  show "ancestor_at t (node_height n) = n" using c i by (simp add: ancestor_at_def)
qed

lemma contains_view:
  assumes "is_node t" and "node_height t < 2 ^ 31 - 1"
  shows "contains (view_of t) n \<longleftrightarrow> n \<in> set (chain_of t)"
proof
  assume "contains (view_of t) n"
  then show "n \<in> set (chain_of t)"
    using ancestor_at_in_chain [OF assms(1), of "node_height n"]
    by (auto simp: contains_def nodeByHeight_view [OF assms] split: if_splits)
next
  assume "n \<in> set (chain_of t)"
  from in_chain_ancestor_at [OF assms(1) this] show "contains (view_of t) n"
    by (simp add: contains_def nodeByHeight_view [OF assms])
qed

lemma cv_next_view:
  assumes "is_node t" and "node_height t < 2 ^ 31 - 1" and "n \<in> set (chain_of t)" and "n \<noteq> t"
  shows "\<exists>m. cv_next (view_of t) (Some n) = Some m \<and> parent m = Some n \<and> m \<in> set (chain_of t)"
proof -
  note n = in_chain_ancestor_at [OF assms(1,3)]
  have lt: "node_height n < node_height t"
    using n assms(4) by (cases "node_height n = node_height t") (auto simp: ancestor_at_def)
  let ?m = "ancestor_at t (node_height n + 1)"
  have w: "wrap32 (node_height n + 1) = node_height n + 1"
    using n lt is_node_height [OF assms(1)] by (intro wrap32_id) (simp add: is_int32_def)
  note m = ancestor_at_height [OF assms(1), of "node_height n + 1"]
  have "parent ?m \<noteq> None" using is_node_parent_None [of ?m] m n lt by auto
  then obtain q where q: "parent ?m = Some q" by auto
  have "ancestor_at ?m (node_height n) = ancestor_at q (node_height n)"
    using ancestor_at_parent [OF _ q] m n lt by simp
  moreover have "ancestor_at ?m (node_height n) = n"
    using ancestor_at_trans [OF assms(1) n(2), of "node_height n + 1"] n lt by simp
  moreover have "node_height q = node_height n" using is_node_parent(2) [OF _ q] m n lt by simp
  ultimately have "q = n" by (simp add: ancestor_at_def)
  then show ?thesis
    using q w n lt assms ancestor_at_in_chain [OF assms(1), of "node_height n + 1"]
    by (auto simp: cv_next_def contains_view [OF assms(1,2)] nodeByHeight_view [OF assms(1,2)])
qed

section \<open>The fork point\<close>

lemma findFork_loop_find: "findFork_loop c (Some n) = find (contains c) (chain_of n)"
proof (induction n rule: chain_of.induct)
  case (1 n)
  then show ?case
    by (cases "parent n") (simp_all add: findFork_loop.simps(2) chain_of_root chain_of_child)
qed

lemma find_drop:
  assumes "\<And>x. x \<in> set (take i xs) \<Longrightarrow> \<not> P x"
  shows "find P (drop i xs) = find P xs"
  using assms
proof (induction i arbitrary: xs)
  case (Suc i)
  then show ?case by (cases xs) auto
qed simp

lemma findFork_view:
  assumes "is_node t" and "node_height t < 2 ^ 31 - 1" and "is_node n"
  shows "findFork (view_of t) (Some n) = find (\<lambda>x. x \<in> set (chain_of t)) (chain_of n)"
proof -
  have c: "contains (view_of t) = (\<lambda>x. x \<in> set (chain_of t))" using contains_view [OF assms(1,2)] by auto
  show ?thesis
  proof (cases "node_height t < node_height n")
    case False
    then show ?thesis by (simp add: findFork_def cv_height_view assms findFork_loop_find c)
  next
    case True
    let ?i = "nat (node_height n - node_height t)"
    have h: "0 \<le> node_height t" using is_node_height [OF assms(1)] by simp
    have l: "?i < length (chain_of n)" using length_chain_of [OF assms(3)] True h by simp
    have d: "chain_of (ancestor_at n (node_height t)) = drop ?i (chain_of n)"
      using chain_of_nth [OF assms(3) l] by (simp add: ancestor_at_def)
    have "\<not> x \<in> set (chain_of t)" if x: "x \<in> set (take ?i (chain_of n))" for x
    proof
      assume "x \<in> set (chain_of t)"
      then have "node_height x \<le> node_height t" using in_chain_ancestor_at [OF assms(1)] by simp
      moreover obtain j where "j < ?i" "x = chain_of n ! j"
        using x by (auto simp: in_set_conv_nth)
      ultimately show False using chain_of_nth [OF assms(3), of j] l by simp
    qed
    from find_drop [of ?i "chain_of n", OF this] show ?thesis
      using True h by (simp add: findFork_def cv_height_view assms findFork_loop_find c Ancestor_eq d)
  qed
qed

section \<open>Block locators\<close>

text \<open>The heights a locator lists: ten steps of one, then steps that double, and the root.\<close>

function locator_heights :: "nat \<Rightarrow> int \<Rightarrow> int \<Rightarrow> int list" where
  "locator_heights k step h =
     (if h \<le> 0 \<or> step \<le> 0 then [h]
      else h # locator_heights (k + 1) (if 10 < k + 1 then step * 2 else step) (max 0 (h - step)))"
  by pat_completeness auto
termination
  by (relation "measure (\<lambda>(_, _, h). nat h)") auto

declare locator_heights.simps [simp del]

lemma locator_heights_0 [simp]: "locator_heights k step 0 = [0]"
  by (subst locator_heights.simps) simp

lemma locator_heights_Cons:
  "0 < h \<Longrightarrow> 0 < step \<Longrightarrow> locator_heights k step h =
     h # locator_heights (k + 1) (if 10 < k + 1 then step * 2 else step) (max 0 (h - step))"
  by (subst locator_heights.simps) simp

lemma locator_heights_props:
  assumes "0 \<le> h" and "0 < step"
  shows "hd (locator_heights k step h) = h" and "last (locator_heights k step h) = 0"
    and "sorted_wrt (>) (locator_heights k step h)" and "set (locator_heights k step h) \<subseteq> {0..h}"
proof -
  have "hd (locator_heights k step h) = h \<and> last (locator_heights k step h) = 0
      \<and> sorted_wrt (>) (locator_heights k step h) \<and> set (locator_heights k step h) \<subseteq> {0..h}
      \<and> locator_heights k step h \<noteq> []"
    using assms
  proof (induction k step h rule: locator_heights.induct)
    case (1 k step h)
    show ?case
    proof (cases "h = 0")
      case False
      then have pos: "0 < h" using 1(2) by simp
      define xs where "xs = locator_heights (k + 1) (if 10 < k + 1 then step * 2 else step) (max 0 (h - step))"
      have IH: "last xs = 0" "sorted_wrt (>) xs" "set xs \<subseteq> {0..max 0 (h - step)}" "xs \<noteq> []"
        using 1(1) pos 1(3) by (auto simp: xs_def)
      have eq: "locator_heights k step h = h # xs" unfolding xs_def by (rule locator_heights_Cons [OF pos 1(3)])
      have "\<forall>x\<in>set xs. x < h" using IH(3) pos 1(3) by fastforce
      moreover have "set xs \<subseteq> {0..h}" using IH(3) 1(3) pos by fastforce
      ultimately show ?thesis
        unfolding eq using IH pos by simp
    qed simp
  qed
  then show "hd (locator_heights k step h) = h" "last (locator_heights k step h) = 0"
    "sorted_wrt (>) (locator_heights k step h)" "set (locator_heights k step h) \<subseteq> {0..h}" by auto
qed

lemma locator_heights_doubling:
  assumes "10 \<le> k" and "0 < h" and "0 < step" and "h + step \<le> 2 ^ 31"
  shows "\<exists>j. length (locator_heights k step h) = j + 2 \<and> step * 2 ^ j < 2 ^ 31"
  using assms
proof (induction k step h rule: locator_heights.induct)
  case (1 k step h)
  note eq = locator_heights_Cons [OF 1(3,4), of k]
  show ?case
  proof (cases "h \<le> step")
    case True
    then show ?thesis using eq 1(3,5) by (intro exI [of _ 0]) simp
  next
    case False
    then have "\<exists>j. length (locator_heights (k + 1) (step * 2) (h - step)) = j + 2 \<and> step * 2 * 2 ^ j < 2 ^ 31"
      using 1 by simp
    then obtain j where "length (locator_heights (k + 1) (step * 2) (h - step)) = j + 2"
      and "step * 2 * 2 ^ j < 2 ^ 31" by blast
    then show ?thesis using eq 1(2) False by (intro exI [of _ "Suc j"]) simp
  qed
qed

lemma locator_heights_length:
  assumes "0 \<le> h" and "h < 2 ^ 31" and "k \<le> 10"
  shows "length (locator_heights k 1 h) \<le> 42 - k"
  using assms
proof (induction "10 - k" arbitrary: k h)
  case 0
  then have k: "k = 10" by simp
  show ?case
  proof (cases "h = 0")
    case False
    then obtain j where j: "length (locator_heights k 1 h) = j + 2" "(2 :: int) ^ j < 2 ^ 31"
      using locator_heights_doubling [of k h 1] 0 k by auto
    then have "j < 31" using power_less_imp_less_exp [of "2 :: int" j 31] by simp
    then show ?thesis using j k by simp
  qed (simp add: k)
next
  case (Suc d)
  show ?case
  proof (cases "h = 0")
    case True
    then show ?thesis using Suc by simp
  next
    case False
    have "length (locator_heights (k + 1) 1 (max 0 (h - 1))) \<le> 42 - (k + 1)"
      using Suc.hyps(1) [of "k + 1" "max 0 (h - 1)"] Suc.hyps(2) Suc.prems by simp
    moreover have "k < 10" using Suc.hyps(2) by simp
    then have "length (locator_heights k 1 h) = Suc (length (locator_heights (k + 1) 1 (max 0 (h - 1))))"
      using Suc.prems Suc.hyps(2) False locator_heights_Cons [of h 1 k] by simp
    ultimately show ?thesis using Suc.hyps(2) by arith
  qed
qed

text \<open>A step never overflows: while the height is positive, height and step add up to at most
  \<open>2 ^ 31\<close>, and a step that is doubled keeps the sum.\<close>

lemma locator_loop_eq:
  assumes "is_node n" and "0 < step" and "0 < node_height n \<longrightarrow> node_height n + step \<le> 2 ^ 31"
    and "c = [] \<or> is_node t \<and> node_height t < 2 ^ 31 - 1 \<and> c = view_of t"
  shows "locator_loop c (Some n) step loc =
    Some (loc @ map (\<lambda>h. node_hash (ancestor_at n h)) (locator_heights (length loc) step (node_height n)))"
  using assms(1-3)
proof (induction "nat (node_height n)" arbitrary: n step loc rule: less_induct)
  case less
  show ?case
  proof (cases "node_height n = 0")
    case True
    then show ?thesis by (subst locator_loop.simps) (simp add: ancestor_at_def)
  next
    case False
    note nh = is_node_height [OF less.prems(1)]
    have pos: "0 < node_height n" using False nh by simp
    define h where "h = max 0 (node_height n - step)"
    have w: "(if wrap32 (node_height n - step) < 0 then 0 else wrap32 (node_height n - step)) = h"
      using pos less.prems(2,3) nh by (simp add: h_def wrap32_id is_int32_def)
    have h: "0 \<le> h" "h < node_height n" using pos less.prems(2) by (auto simp: h_def)
    define m where "m = ancestor_at n h"
    have m: "is_node m" "node_height m = h" using ancestor_at_height [OF less.prems(1) h(1)] h by (simp_all add: m_def)
    have view: "nat h < length c \<and> c ! nat h = Some m" if "contains c n"
    proof -
      from that have "c \<noteq> []" by (auto simp: contains_def nodeByHeight_def wrap32_id is_int32_def split: if_splits)
      then have t: "is_node t" "node_height t < 2 ^ 31 - 1" "c = view_of t" using assms(4) by auto
      have "n \<in> set (chain_of t)" using that contains_view [OF t(1,2)] t(3) by simp
      note n = in_chain_ancestor_at [OF t(1) this]
      have "ancestor_at t h = m"
        using ancestor_at_trans [OF t(1) h(1), of "node_height n"] n h by (simp add: m_def)
      then show ?thesis using view_of_nth [OF t(1) h(1)] length_view_of [OF t(1)] n h t(3) by simp
    qed
    have nxt: "(if contains c n then c ! nat h else Ancestor n h) = Some m"
      using view h by (simp add: Ancestor_eq [OF less.prems(1)] m_def)
    have L: "locator_loop c (Some n) step loc =
        locator_loop c (Some m)
          (if 10 < length (loc @ [node_hash n]) then wrap32 (step * 2) else step) (loc @ [node_hash n])"
      using False view h nxt unfolding locator_loop.simps [of c "Some n"] option.case Let_def w by auto
    have n0: "ancestor_at n (node_height n) = n" by (simp add: ancestor_at_def)
    show ?thesis
    proof (cases "h = 0")
      case True
      then have "locator_loop c (Some m) s ls = Some (ls @ [node_hash m])" for s ls
        using m(2) by (subst locator_loop.simps) simp
      then show ?thesis
        using L True n0 by (simp add: locator_heights_Cons [OF pos less.prems(2)] flip: h_def m_def)
          (simp add: m_def)
    next
      case hpos: False
      have e: "h + step = node_height n" using hpos h by (auto simp: h_def)
      have sum: "h + step * 2 \<le> 2 ^ 31" using e pos less.prems(3) by simp
      have w2: "wrap32 (step * 2) = step * 2"
        using sum hpos h(1) less.prems(2) by (intro wrap32_id) (simp add: is_int32_def)
      let ?s = "if 10 < length loc + 1 then step * 2 else step"
      have "locator_loop c (Some m) ?s (loc @ [node_hash n]) =
          Some ((loc @ [node_hash n]) @ map (\<lambda>k. node_hash (ancestor_at m k))
            (locator_heights (length (loc @ [node_hash n])) ?s (node_height m)))"
        using less.prems(2) m h sum e by (intro less.hyps) auto
      moreover have "ancestor_at m k = ancestor_at n k" if "k \<in> set (locator_heights (Suc (length loc)) ?s h)" for k
      proof -
        have "0 < ?s" using less.prems(2) by simp
        from locator_heights_props(4) [OF h(1) this] that have "k \<in> {0..h}" by blast
        then show ?thesis using ancestor_at_trans [OF less.prems(1), of k h] h by (simp add: m_def)
      qed
      then have "map (\<lambda>k. node_hash (ancestor_at m k)) (locator_heights (Suc (length loc)) ?s h)
          = map (\<lambda>k. node_hash (ancestor_at n k)) (locator_heights (Suc (length loc)) ?s h)" by simp
      ultimately show ?thesis
        using L w2 m(2) n0 unfolding locator_heights_Cons [OF pos less.prems(2)] h_def [symmetric] by auto
    qed
  qed
qed

section \<open>Properties\<close>

text \<open>C37: a block locator is complete and short.  For a node of any branch below the largest height,
  and the view of any chain, \<open>blockLocator\<close> returns, and what it returns are the hashes of ancestors
  of the node at strictly decreasing heights, from the node itself down to the root, at most 42 of
  them.\<close>

theorem block_locator_exact:
  assumes "is_node n" and "node_height n < 2 ^ 31 - 1"
    and "c = [] \<or> is_node t \<and> node_height t < 2 ^ 31 - 1 \<and> c = view_of t"
  shows "\<exists>hs. blockLocator c (Some n) = Some (map (\<lambda>h. node_hash (ancestor_at n h)) hs)
    \<and> hd hs = node_height n \<and> last hs = 0 \<and> sorted_wrt (>) hs \<and> length hs \<le> 42"
proof -
  let ?hs = "locator_heights 0 1 (node_height n)"
  have h: "0 \<le> node_height n" using is_node_height [OF assms(1)] by simp
  have "blockLocator c (Some n) = Some (map (\<lambda>h. node_hash (ancestor_at n h)) ?hs)"
    using locator_loop_eq [OF assms(1) _ _ assms(3), of 1 "[]"] assms(2) by (simp add: blockLocator_def)
  moreover have "length ?hs \<le> 42" using locator_heights_length [OF h, of 0] assms(2) by simp
  ultimately show ?thesis using locator_heights_props [OF h, of 1 0] by (intro exI [of _ ?hs]) auto
qed

theorem block_locator_exact_witness:
  "\<exists>hs. blockLocator [] (Some (newBlockNode \<lparr>BlockVersion = 1, PrevBlock = 0, MerkleRoot = 0,
       Timestamp = 0, Bits = 0, Nonce = 0\<rparr> None)) =
     Some (map (\<lambda>h. node_hash (ancestor_at (newBlockNode \<lparr>BlockVersion = 1, PrevBlock = 0,
       MerkleRoot = 0, Timestamp = 0, Bits = 0, Nonce = 0\<rparr> None) h)) hs)
     \<and> hd hs = 0 \<and> last hs = 0 \<and> length hs \<le> 42"
  using block_locator_exact [of "newBlockNode \<lparr>BlockVersion = 1, PrevBlock = 0,
       MerkleRoot = 0, Timestamp = 0, Bits = 0, Nonce = 0\<rparr> None" "[]"]
  by (auto simp: is_node.genesis)

end
