(* ===== verification/Version_Bits.thy ===== *)
theory Version_Bits
  imports Block_Index Chaincfg_Obtc Rule_Error
begin

text \<open>
  Votes on rule changes (\<open>blockchain/thresholdstate.go\<close>, \<open>blockchain/versionbits.go\<close>,
  \<open>chaincfg/deployment_time_frame.go\<close>): the state machine of a deployment, its evaluation over the
  chain with a cache per deployment, and the version the next block is expected to have.

  A condition checker is a record of its methods.  The cache is returned with the result, also when
  the result is an error; the outer \<open>None\<close> is an endless loop.  The clock of a deployment is always set
  when the chain is running.  The checker for unknown version bits only feeds log warnings and is left
  out.
\<close>

unbundle bit_operations_syntax

section \<open>The state machine\<close>

datatype ThresholdState =
  ThresholdDefined | ThresholdStarted | ThresholdLockedIn | ThresholdActive | ThresholdFailed

record thresholdConditionChecker =
  HasStarted :: "blockNode \<Rightarrow> bool"
  HasEnded :: "blockNode \<Rightarrow> bool"
  ActivationThreshold :: u32
  ConfirmationWindow :: u32
  EligibleToActivate :: "blockNode \<Rightarrow> bool"
  IsSpeedy :: bool
  Condition :: "blockNode \<Rightarrow> rule_error + bool"
  ForceActive :: "blockNode option \<Rightarrow> bool"

text \<open>The votes in the window that ends at a node; a chain that is too short is a nil dereference.\<close>

fun count_votes :: "thresholdConditionChecker \<Rightarrow> nat \<Rightarrow> blockNode option \<Rightarrow> u32 \<Rightarrow> rule_error + u32" where
  "count_votes checker 0 node cnt = Inr cnt"
| "count_votes checker (Suc i) None cnt = Inl ErrIndexOutOfRange"
| "count_votes checker (Suc i) (Some n) cnt =
     bind_r (Condition checker n)
       (\<lambda>condition. count_votes checker i (parent n) (if condition then cnt + 1 else cnt))"

definition thresholdStateTransition ::
  "ThresholdState \<Rightarrow> blockNode \<Rightarrow> thresholdConditionChecker \<Rightarrow> int32 \<Rightarrow> rule_error + ThresholdState" where
  "thresholdStateTransition state prevNode checker confirmationWindow =
     (case state of
        ThresholdDefined \<Rightarrow>
          if \<not> IsSpeedy checker \<and> HasEnded checker prevNode then Inr ThresholdFailed
          else if HasStarted checker prevNode then Inr ThresholdStarted
          else Inr ThresholdDefined
      | ThresholdStarted \<Rightarrow>
          if \<not> IsSpeedy checker \<and> HasEnded checker prevNode then Inr ThresholdFailed
          else bind_r (count_votes checker (nat confirmationWindow) (Some prevNode) 0)
            (\<lambda>cnt.
               if ActivationThreshold checker \<le> cnt then Inr ThresholdLockedIn
               else if IsSpeedy checker \<and> HasEnded checker prevNode then Inr ThresholdFailed
               else Inr ThresholdStarted)
      | ThresholdLockedIn \<Rightarrow>
          if \<not> EligibleToActivate checker prevNode then Inr ThresholdLockedIn
          else Inr ThresholdActive
      | ThresholdActive \<Rightarrow> Inr ThresholdActive
      | ThresholdFailed \<Rightarrow> Inr ThresholdFailed)"

section \<open>Evaluation with the cache\<close>

type_synonym thresholdStateCache = "hash \<rightharpoonup> ThresholdState"

text \<open>Walk back by windows to a node whose state is cached, or before the start.\<close>

partial_function (option) needed_loop ::
  "thresholdConditionChecker \<Rightarrow> int32 \<Rightarrow> blockNode option \<Rightarrow> thresholdStateCache \<Rightarrow> blockNode list \<Rightarrow>
     (blockNode option \<times> thresholdStateCache \<times> blockNode list) option" where
  "needed_loop checker window prevNode cache neededStates =
     (case prevNode of
        None \<Rightarrow> Some (None, cache, neededStates)
      | Some n \<Rightarrow>
          if cache (node_hash n) \<noteq> None then Some (Some n, cache, neededStates)
          else if \<not> HasStarted checker n
          then Some (Some n, cache(node_hash n \<mapsto> ThresholdDefined), neededStates)
          else needed_loop checker window (RelativeAncestor n window) cache (neededStates @ [n]))"

fun apply_transitions ::
  "thresholdConditionChecker \<Rightarrow> int32 \<Rightarrow> blockNode list \<Rightarrow> ThresholdState \<Rightarrow> thresholdStateCache \<Rightarrow>
     (rule_error + ThresholdState) \<times> thresholdStateCache" where
  "apply_transitions checker window [] state cache = (Inr state, cache)"
| "apply_transitions checker window (n # ns) state cache =
     (case thresholdStateTransition state n checker window of
        Inl e \<Rightarrow> (Inl e, cache)
      | Inr state' \<Rightarrow> apply_transitions checker window ns state' (cache(node_hash n \<mapsto> state')))"

definition thresholdState ::
  "blockNode option \<Rightarrow> thresholdConditionChecker \<Rightarrow> thresholdStateCache \<Rightarrow>
     ((rule_error + ThresholdState) \<times> thresholdStateCache) option" where
  "thresholdState prevNode checker cache =
     (if ForceActive checker prevNode then Some (Inr ThresholdActive, cache)
      else
        let window = sint (ConfirmationWindow checker) in
        case prevNode of
          None \<Rightarrow> Some (Inr ThresholdDefined, cache)
        | Some n \<Rightarrow>
            if wrap32 (node_height n + 1) < window then Some (Inr ThresholdDefined, cache)
            else if window = 0 then Some (Inl ErrIndexOutOfRange, cache)
            else
              case needed_loop checker window
                     (Ancestor n (wrap32 (node_height n
                        - (wrap32 (node_height n + 1)
                           - window * go_quot (wrap32 (node_height n + 1)) window)))) cache [] of
                None \<Rightarrow> None
              | Some (found, cache', neededStates) \<Rightarrow>
                  (case found of
                     None \<Rightarrow> Some (apply_transitions checker window (rev neededStates) ThresholdDefined cache')
                   | Some m \<Rightarrow>
                       (case cache' (node_hash m) of
                          None \<Rightarrow> Some (Inl ErrAssert, cache')
                        | Some state \<Rightarrow>
                            Some (apply_transitions checker window (rev neededStates) state cache'))))"

section \<open>Deployments\<close>

definition PastMedianTime :: "blockIndex \<Rightarrow> BlockHeader \<Rightarrow> int64 option" where
  "PastMedianTime bi blockHeader =
     (case LookupNode bi (PrevBlock blockHeader) of
        None \<Rightarrow> None
      | Some prevNode \<Rightarrow> Some (CalcPastMedianTime (newBlockNode blockHeader (Some prevNode))))"

text \<open>An error of the clock counts as not started and not ended.\<close>

definition starter_HasStarted :: "blockIndex \<Rightarrow> int64 option \<Rightarrow> BlockHeader \<Rightarrow> bool" where
  "starter_HasStarted bi startTime blkHeader =
     (case startTime of
        None \<Rightarrow> True
      | Some start \<Rightarrow>
          (case PastMedianTime bi blkHeader of None \<Rightarrow> False | Some medianTime \<Rightarrow> start \<le> medianTime))"

definition ender_HasEnded :: "blockIndex \<Rightarrow> int64 option \<Rightarrow> BlockHeader \<Rightarrow> bool" where
  "ender_HasEnded bi endTime blkHeader =
     (case endTime of
        None \<Rightarrow> False
      | Some end_time \<Rightarrow>
          (case PastMedianTime bi blkHeader of None \<Rightarrow> False | Some medianTime \<Rightarrow> end_time \<le> medianTime))"

definition EffectiveAlwaysActiveHeight :: "ConsensusDeployment \<Rightarrow> u32" where
  "EffectiveAlwaysActiveHeight d = (if AlwaysActiveHeight d = 0 then -1 else AlwaysActiveHeight d)"

definition vbTopBits :: u32 where "vbTopBits = 0x20000000"
definition vbTopMask :: u32 where "vbTopMask = 0xe0000000"

definition deploymentChecker ::
  "blockIndex \<Rightarrow> 'a Params_scheme \<Rightarrow> ConsensusDeployment \<Rightarrow> thresholdConditionChecker" where
  "deploymentChecker bi params d =
     \<lparr>HasStarted = (\<lambda>blkNode. starter_HasStarted bi (DeploymentStarter d) (node_Header blkNode)),
      HasEnded = (\<lambda>blkNode. ender_HasEnded bi (DeploymentEnder d) (node_Header blkNode)),
      ActivationThreshold = (if CustomActivationThreshold d \<noteq> 0 then CustomActivationThreshold d
                             else RuleChangeActivationThreshold params),
      ConfirmationWindow = MinerConfirmationWindow params,
      EligibleToActivate = (\<lambda>blkNode. MinActivationHeight d = 0
                              \<or> MinActivationHeight d \<le> word_of_int (node_height blkNode) + 1),
      IsSpeedy = (MinActivationHeight d \<noteq> 0 \<or> CustomActivationThreshold d \<noteq> 0),
      Condition = (\<lambda>node. let conditionMask = push_bit (unat (BitNumber d)) 1 :: u32;
                             version = word_of_int (node_version node) :: u32
                         in Inr (version AND vbTopMask = vbTopBits \<and> version AND conditionMask \<noteq> 0)),
      ForceActive = (\<lambda>node. case node of
                       None \<Rightarrow> False
                     | Some n \<Rightarrow> EffectiveAlwaysActiveHeight d \<le> word_of_int (node_height n) + 1)\<rparr>"

definition threshold_of ::
  "blockIndex \<Rightarrow> 'a Params_scheme \<Rightarrow> blockNode option \<Rightarrow> nat \<Rightarrow> thresholdStateCache list \<Rightarrow>
     ((rule_error + ThresholdState) \<times> thresholdStateCache list) option" where
  "threshold_of bi params prevNode i caches =
     (if length (Deployments params) \<le> i \<or> length caches \<le> i then Some (Inl ErrIndexOutOfRange, caches)
      else map_option (\<lambda>(r, cache). (r, caches[i := cache]))
        (thresholdState prevNode (deploymentChecker bi params (Deployments params ! i)) (caches ! i)))"

text \<open>The guard lets the identifier just past the last deployment through, which is an index out of
  range.\<close>

definition deploymentState ::
  "blockIndex \<Rightarrow> 'a Params_scheme \<Rightarrow> blockNode option \<Rightarrow> nat \<Rightarrow> thresholdStateCache list \<Rightarrow>
     ((rule_error + ThresholdState) \<times> thresholdStateCache list) option" where
  "deploymentState bi params prevNode deploymentID caches =
     (if length (Deployments params) < deploymentID then Some (Inl (ErrDeployment deploymentID), caches)
      else threshold_of bi params prevNode deploymentID caches)"

text \<open>The loop of \<open>calcNextBlockVersion\<close> over the deployments that are left.\<close>

fun version_loop ::
  "blockIndex \<Rightarrow> 'a Params_scheme \<Rightarrow> blockNode option \<Rightarrow> nat list \<Rightarrow> u32 \<Rightarrow> thresholdStateCache list \<Rightarrow>
     ((rule_error + u32) \<times> thresholdStateCache list) option" where
  "version_loop bi params prevNode [] expectedVersion caches = Some (Inr expectedVersion, caches)"
| "version_loop bi params prevNode (i # ids) expectedVersion caches =
     (case threshold_of bi params prevNode i caches of
        None \<Rightarrow> None
      | Some (Inl e, caches') \<Rightarrow> Some (Inl e, caches')
      | Some (Inr state, caches') \<Rightarrow>
          version_loop bi params prevNode ids
            (if state = ThresholdStarted \<or> state = ThresholdLockedIn
             then expectedVersion OR push_bit (unat (BitNumber (Deployments params ! i))) 1
             else expectedVersion) caches')"

definition calcNextBlockVersion ::
  "blockIndex \<Rightarrow> 'a Params_scheme \<Rightarrow> blockNode option \<Rightarrow> thresholdStateCache list \<Rightarrow>
     ((rule_error + int32) \<times> thresholdStateCache list) option" where
  "calcNextBlockVersion bi params prevNode caches =
     map_option (\<lambda>(r, caches'). (bind_r r (\<lambda>v. Inr (sint v)), caches'))
       (version_loop bi params prevNode [0..<length (Deployments params)] vbTopBits caches)"

section \<open>The state without a cache\<close>

text \<open>The state at the end of a window, from the chain of its last node: before the start it is
  defined, otherwise it follows from the state one window earlier.\<close>

function window_state :: "thresholdConditionChecker \<Rightarrow> nat \<Rightarrow> blockNode list \<Rightarrow> rule_error + ThresholdState" where
  "window_state checker w [] = Inr ThresholdDefined"
| "window_state checker w (n # ns) =
     (if \<not> HasStarted checker n then Inr ThresholdDefined
      else bind_r (window_state checker w (drop (w - 1) ns))
        (\<lambda>s. thresholdStateTransition s n checker (int w)))"
  by pat_completeness auto
termination
  by (relation "measure (\<lambda>(_, _, ns). length ns)") auto

declare window_state.simps(2) [simp del]

definition state_spec :: "thresholdConditionChecker \<Rightarrow> blockNode option \<Rightarrow> rule_error + ThresholdState" where
  "state_spec checker node =
     (if ForceActive checker node then Inr ThresholdActive
      else
        let w = sint (ConfirmationWindow checker) in
        case node of
          None \<Rightarrow> Inr ThresholdDefined
        | Some n \<Rightarrow>
            if node_height n + 1 < w then Inr ThresholdDefined
            else window_state checker (nat w)
                   (chain_of (ancestor_at n (node_height n - (node_height n + 1) mod w))))"

definition coherent :: "blockIndex \<Rightarrow> thresholdConditionChecker \<Rightarrow> thresholdStateCache \<Rightarrow> bool" where
  "coherent bi checker cache \<longleftrightarrow>
     (\<forall>m s. indexed bi m \<longrightarrow> cache (node_hash m) = Some s \<longrightarrow>
        window_state checker (nat (sint (ConfirmationWindow checker))) (chain_of m) = Inr s)"

lemma coherent_empty [simp]: "coherent bi checker Map.empty"
  by (simp add: coherent_def)

lemma coherent_update:
  assumes "coherent bi checker cache" and "indexed bi n"
    and "window_state checker (nat (sint (ConfirmationWindow checker))) (chain_of n) = Inr s"
  shows "coherent bi checker (cache(node_hash n \<mapsto> s))"
  unfolding coherent_def
proof (intro allI impI)
  fix m t
  assume m: "indexed bi m" and t: "(cache(node_hash n \<mapsto> s)) (node_hash m) = Some t"
  show "window_state checker (nat (sint (ConfirmationWindow checker))) (chain_of m) = Inr t"
  proof (cases "node_hash m = node_hash n")
    case True
    then have "m = n" using m assms(2) by (simp add: indexed_def)
    then show ?thesis using t assms(3) by simp
  next
    case False
    then show ?thesis using m t assms(1) unfolding coherent_def by simp
  qed
qed

lemma chain_of_Cons: "chain_of n = n # tl (chain_of n)"
  by (metis chain_of.simps list.sel(3))

lemma apply_transitions_append:
  "apply_transitions checker w (xs @ ys) s cache =
     (case apply_transitions checker w xs s cache of
        (Inl e, cache') \<Rightarrow> (Inl e, cache')
      | (Inr s', cache') \<Rightarrow> apply_transitions checker w ys s' cache')"
  by (induction xs arbitrary: s cache) (auto split: sum.split)

definition start_state :: "blockNode option \<Rightarrow> thresholdStateCache \<Rightarrow> ThresholdState option" where
  "start_state found cache = (case found of None \<Rightarrow> Some ThresholdDefined | Some m \<Rightarrow> cache (node_hash m))"

lemma RelativeAncestor_eq:
  assumes "is_node n" and "0 < w" and "w < 2 ^ 31"
  shows "RelativeAncestor n w = (if node_height n < w then None else Some (ancestor_at n (node_height n - w)))"
proof -
  have "wrap32 (node_height n - w) = node_height n - w"
    using is_node_height [OF assms(1)] assms by (intro wrap32_id) (simp add: is_int32_def)
  then show ?thesis using assms(2) by (simp add: RelativeAncestor_def Ancestor_eq [OF assms(1)])
qed

lemma window_state_node:
  assumes "is_node n" and "0 < w" and "w < 2 ^ 31" and "HasStarted checker n"
  shows "window_state checker (nat w) (chain_of n) =
    bind_r (case RelativeAncestor n w of None \<Rightarrow> Inr ThresholdDefined
            | Some m \<Rightarrow> window_state checker (nat w) (chain_of m))
      (\<lambda>s. thresholdStateTransition s n checker w)"
proof -
  have "window_state checker (nat w) (chain_of n) =
      bind_r (window_state checker (nat w) (drop (nat w - 1) (tl (chain_of n))))
        (\<lambda>s. thresholdStateTransition s n checker w)"
    using assms(2,4) by (subst chain_of_Cons) (simp add: window_state.simps(2))
  also have "drop (nat w - 1) (tl (chain_of n)) = drop (nat w) (chain_of n)"
    using assms(2) by (simp flip: drop_Suc)
  also have "window_state checker (nat w) (drop (nat w) (chain_of n)) =
      (case RelativeAncestor n w of None \<Rightarrow> Inr ThresholdDefined
       | Some m \<Rightarrow> window_state checker (nat w) (chain_of m))"
    using chain_of_nth [OF assms(1), of "nat w"] length_chain_of [OF assms(1)] is_node_height [OF assms(1)]
      assms(2) RelativeAncestor_eq [OF assms(1-3)]
    by (auto simp: ancestor_at_def nat_less_eq_zless)
  finally show ?thesis .
qed

lemma needed_loop_ok:
  assumes "index_ok bi" and "0 < w" and "w < 2 ^ 31" and "w = sint (ConfirmationWindow checker)"
    and "coherent bi checker cache" and "indexed bi n"
  shows "\<exists>found cache' es s c2. needed_loop checker w (Some n) cache ns = Some (found, cache', ns @ es)
    \<and> start_state found cache' = Some s
    \<and> apply_transitions checker w (rev es) s cache' = (window_state checker (nat w) (chain_of n), c2)
    \<and> coherent bi checker c2"
  using assms(6)
proof (induction "nat (node_height n)" arbitrary: n ns rule: less_induct)
  case less
  note n = indexed_node [OF assms(1) less.prems]
  consider (cached) s where "cache (node_hash n) = Some s"
    | (fresh) "cache (node_hash n) = None" "\<not> HasStarted checker n"
    | (step) "cache (node_hash n) = None" "HasStarted checker n" by auto
  then show ?case
  proof cases
    case cached
    then have "window_state checker (nat w) (chain_of n) = Inr s"
      using assms(4,5) less.prems by (auto simp: coherent_def)
    then show ?thesis
      using cached assms(5)
      by (intro exI [of _ "Some n"] exI [of _ cache] exI [of _ "[]"] exI [of _ s])
        (simp add: needed_loop.simps start_state_def)
  next
    case fresh
    have ws: "window_state checker (nat w) (chain_of n) = Inr ThresholdDefined"
      using fresh(2) by (subst chain_of_Cons) (simp add: window_state.simps(2))
    then show ?thesis
      using fresh coherent_update [OF assms(5) less.prems, of ThresholdDefined] assms(4)
      by (intro exI [of _ "Some n"] exI [of _ "cache(node_hash n \<mapsto> ThresholdDefined)"] exI [of _ "[]"]
          exI [of _ ThresholdDefined]) (simp add: needed_loop.simps start_state_def)
  next
    case step
    let ?p = "RelativeAncestor n w"
    have L: "needed_loop checker w (Some n) cache ns = needed_loop checker w ?p cache (ns @ [n])"
      using step by (subst needed_loop.simps) simp
    define r where "r = (case ?p of None \<Rightarrow> Inr ThresholdDefined
                          | Some m \<Rightarrow> window_state checker (nat w) (chain_of m))"
    have ws: "window_state checker (nat w) (chain_of n) =
        bind_r r (\<lambda>s. thresholdStateTransition s n checker w)"
      unfolding r_def by (rule window_state_node [OF n assms(2,3) step(2)])
    have "\<exists>found cache' es s c2. needed_loop checker w ?p cache (ns @ [n]) = Some (found, cache', (ns @ [n]) @ es)
      \<and> start_state found cache' = Some s
      \<and> apply_transitions checker w (rev es) s cache' = (r, c2) \<and> coherent bi checker c2"
    proof (cases ?p)
      case None
      then show ?thesis
        using assms(5) by (auto simp: needed_loop.simps start_state_def r_def)
    next
      case (Some m)
      then have h: "w \<le> node_height n" "m = ancestor_at n (node_height n - w)"
        using RelativeAncestor_eq [OF n assms(2,3)] by (auto split: if_splits)
      then have "m \<in> set (chain_of n)" and "node_height m = node_height n - w"
        using length_chain_of [OF n] ancestor_at_height [OF n, of "node_height n - w"] assms(2)
        by (auto simp: ancestor_at_def)
      then have "indexed bi m" and "nat (node_height m) < nat (node_height n)"
        using indexed_chain [OF assms(1) less.prems] h assms(2) by auto
      then show ?thesis using less.hyps [of m "ns @ [n]"] Some by (simp add: r_def)
    qed
    then obtain found cache' es s c2 where
      e: "needed_loop checker w ?p cache (ns @ [n]) = Some (found, cache', (ns @ [n]) @ es)"
      "start_state found cache' = Some s"
      "apply_transitions checker w (rev es) s cache' = (r, c2)" "coherent bi checker c2" by blast
    have "\<exists>c3. apply_transitions checker w (rev (n # es)) s cache'
              = (window_state checker (nat w) (chain_of n), c3) \<and> coherent bi checker c3"
    proof (cases "window_state checker (nat w) (chain_of n)")
      case (Inl err)
      then show ?thesis
        using e ws by (auto simp: apply_transitions_append bind_r_eq_Inl split: sum.split)
    next
      case (Inr s')
      then obtain s'' where "r = Inr s''" "thresholdStateTransition s'' n checker w = Inr s'"
        using ws by (auto simp: bind_r_eq_Inr)
      then show ?thesis
        using e Inr coherent_update [OF e(4) less.prems] assms(4) by (simp add: apply_transitions_append)
    qed
    then show ?thesis using L e by (intro exI [of _ found] exI [of _ cache'] exI [of _ "n # es"]) auto
  qed
qed

lemma thresholdState_spec:
  assumes "index_ok bi" and "0 < sint (ConfirmationWindow checker)"
    and "coherent bi checker cache" and "\<And>n. node = Some n \<Longrightarrow> indexed bi n \<and> node_height n < 2 ^ 31 - 1"
  shows "\<exists>cache'. thresholdState node checker cache = Some (state_spec checker node, cache')
           \<and> coherent bi checker cache'"
proof (cases "ForceActive checker node \<or> node = None")
  case True
  then show ?thesis using assms(3) by (auto simp: thresholdState_def state_spec_def Let_def)
next
  case False
  then obtain n where node: "node = Some n" and nf: "\<not> ForceActive checker (Some n)" by auto
  define w where "w = sint (ConfirmationWindow checker)"
  have w: "0 < w" "w < 2 ^ 31"
    using assms(2) sint_less [of "ConfirmationWindow checker"] by (simp_all add: w_def)
  have i: "indexed bi n" and nh: "node_height n < 2 ^ 31 - 1" using assms(4) node by auto
  note n = indexed_node [OF assms(1) i]
  have h: "0 \<le> node_height n" using is_node_height [OF n] by simp
  have w1: "wrap32 (node_height n + 1) = node_height n + 1"
    using h nh by (intro wrap32_id) (simp add: is_int32_def)
  show ?thesis
  proof (cases "node_height n + 1 < w")
    case True
    then show ?thesis using assms(3) nf node w1 by (simp add: thresholdState_def state_spec_def Let_def flip: w_def)
  next
    case False
    define k where "k = (node_height n + 1) mod w"
    have k: "0 \<le> k" "k < w" using w by (simp_all add: k_def)
    have q: "node_height n + 1 - w * go_quot (node_height n + 1) w = k"
      using h w by (simp add: k_def minus_mult_div_eq_mod)
    have hk: "0 \<le> node_height n - k" "node_height n - k \<le> node_height n" using False k by auto
    have w2: "wrap32 (node_height n - k) = node_height n - k"
      using hk nh by (intro wrap32_id) (simp add: is_int32_def)
    define b where "b = ancestor_at n (node_height n - k)"
    have A: "Ancestor n (node_height n - k) = Some b" using hk by (simp add: Ancestor_eq [OF n] b_def)
    have "b \<in> set (chain_of n)" using length_chain_of [OF n] hk by (simp add: b_def ancestor_at_def)
    then have "indexed bi b" by (rule indexed_chain [OF assms(1) i])
    from needed_loop_ok [OF assms(1) w w_def assms(3) this, of "[]"]
    obtain found cache' es s c2 where e:
      "needed_loop checker w (Some b) cache [] = Some (found, cache', es)"
      "start_state found cache' = Some s"
      "apply_transitions checker w (rev es) s cache' = (window_state checker (nat w) (chain_of b), c2)"
      "coherent bi checker c2" by auto
    have "thresholdState node checker cache = Some (window_state checker (nat w) (chain_of b), c2)"
      unfolding thresholdState_def Let_def node w_def [symmetric] option.case w1 q w2 A
      using nf False w(1) e by (auto simp: start_state_def split: option.splits)
    moreover have "state_spec checker node = window_state checker (nat w) (chain_of b)"
      unfolding state_spec_def Let_def node w_def [symmetric] option.case k_def [symmetric] b_def [symmetric]
      using nf False by simp
    ultimately show ?thesis using e(4) by auto
  qed
qed

section \<open>Properties\<close>

text \<open>C35: the cache of threshold states is transparent.  For a node of the block index and a cache that
  agrees with the chain, \<open>thresholdState\<close> returns exactly the state that follows from the windows of
  the chain alone, and leaves a cache that agrees with the chain; so no order of queries changes an
  answer.\<close>

theorem threshold_cache_transparent:
  assumes "index_ok bi" and "indexed bi n" and "node_height n < 2 ^ 31 - 1"
    and "0 < sint (ConfirmationWindow checker)" and "coherent bi checker cache"
  shows "\<exists>cache'. thresholdState (Some n) checker cache = Some (state_spec checker (Some n), cache')
           \<and> coherent bi checker cache'"
  using thresholdState_spec [OF assms(1,4,5), of "Some n"] assms(2,3) by simp

definition ex_root :: blockNode where
  "ex_root = newBlockNode \<lparr>BlockVersion = 1, PrevBlock = 0, MerkleRoot = 0, Timestamp = 0, Bits = 0,
     Nonce = 0\<rparr> None"

lemma ex_root_ok: "is_node ex_root" "node_height ex_root = 0" "parent ex_root = None"
  by (simp_all add: ex_root_def is_node.genesis)

lemma ex_root_index: "index_ok (AddNode ex_root newBlockIndex)" "indexed (AddNode ex_root newBlockIndex) ex_root"
proof -
  show "index_ok (AddNode ex_root newBlockIndex)"
    by (rule index_ok_AddNode [OF index_ok_new ex_root_ok(1)])
      (simp_all add: newBlockIndex_def ex_root_ok)
  show "indexed (AddNode ex_root newBlockIndex) ex_root"
    by (simp add: indexed_def AddNode_def mark_dirty_def addNode_def)
qed

theorem threshold_cache_transparent_witness:
  "\<exists>cache'. thresholdState (Some ex_root)
       (deploymentChecker (AddNode ex_root newBlockIndex) ObtcMainNetParams (obtcDeployment 28 0)) Map.empty
     = Some (state_spec (deploymentChecker (AddNode ex_root newBlockIndex) ObtcMainNetParams
         (obtcDeployment 28 0)) (Some ex_root), cache')
     \<and> coherent (AddNode ex_root newBlockIndex)
         (deploymentChecker (AddNode ex_root newBlockIndex) ObtcMainNetParams (obtcDeployment 28 0)) cache'"
  by (rule threshold_cache_transparent)
    (simp_all add: ex_root_ok ex_root_index deploymentChecker_def ObtcMainNetParams_def)

lemma obtc_deployment_forced:
  assumes "is_node n" and "d \<in> {obtcDeployment 0 1, obtcDeployment 1 1, obtcDeployment 2 1}"
  shows "ForceActive (deploymentChecker bi params d) (Some n)"
proof -
  have "word_of_int (node_height n) + (1 :: u32) = of_nat (nat (node_height n) + 1)"
    using is_node_height [OF assms(1)] by (simp add: add.commute)
  moreover have "nat (node_height n) + 1 < 2 ^ LENGTH(32)"
    using is_node_height [OF assms(1)] by (simp add: nat_less_iff)
  then have "unat (of_nat (nat (node_height n) + 1) :: u32) = nat (node_height n) + 1"
    by (simp only: unat_of_nat mod_less)
  ultimately have "(1 :: u32) \<le> word_of_int (node_height n) + 1"
    by (simp add: word_le_nat_alt add.commute)
  then show ?thesis
    using assms(2) by (auto simp: deploymentChecker_def obtcDeployment_def EffectiveAlwaysActiveHeight_def)
qed

text \<open>C36: on the three OBTC networks the rules of CSV, segregated witness and taproot are active for
  every block after the root, whatever its ancestors voted and whatever the caches hold.\<close>

theorem obtc_rules_active:
  assumes "params = ObtcMainNetParams \<or> params = ObtcTestNetParams \<or> params = ObtcRegTestParams"
    and "i \<in> {DeploymentCSV, DeploymentSegwit, DeploymentTaproot}"
    and "is_node n" and "length caches = length (Deployments params)"
  shows "deploymentState bi params (Some n) i caches = Some (Inr ThresholdActive, caches)"
proof -
  have d: "Deployments params = obtcDeployments"
    using assms(1) by (auto simp: ObtcMainNetParams_def ObtcTestNetParams_def ObtcRegTestParams_def)
  have i: "i < 6" "obtcDeployments ! i \<in> {obtcDeployment 0 1, obtcDeployment 1 1, obtcDeployment 2 1}"
    using assms(2) by (auto simp: DeploymentCSV_def DeploymentSegwit_def DeploymentTaproot_def obtcDeployments_def)
  have "length obtcDeployments = 6" by (simp add: obtcDeployments_def)
  then show ?thesis
    using obtc_deployment_forced [OF assms(3) i(2), of bi params] i(1) assms(4) d
    by (simp add: deploymentState_def threshold_of_def thresholdState_def list_update_id)
qed

theorem obtc_rules_active_witness:
  "deploymentState newBlockIndex ObtcMainNetParams (Some ex_root) DeploymentTaproot
     (replicate 6 Map.empty) = Some (Inr ThresholdActive, replicate 6 Map.empty)"
  by (rule obtc_rules_active) (simp_all add: ex_root_ok ObtcMainNetParams_def obtcDeployments_def)

text \<open>The identifier just past the last deployment passes the guard of \<open>deploymentState\<close> and reads out
  of range.\<close>

lemma deployment_guard_off_by_one:
  "deploymentState bi params node (length (Deployments params)) caches = Some (Inl ErrIndexOutOfRange, caches)"
  by (simp add: deploymentState_def threshold_of_def)

end
