(* ===== verification/Sig_Ops.thy ===== *)
theory Sig_Ops
  imports Utxo_View Reap_Validation
begin

unbundle bit_operations_syntax

text \<open>
  Counting signature operations and weighing blocks: \<open>countSigOpsV0\<close> and its clients of
  \<open>txscript/script.go\<close>, the recognisers of \<open>txscript/standard.go\<close> they use, \<open>scriptNum.Bytes\<close> of
  \<open>txscript/scriptnum.go\<close> with \<open>AddInt64\<close> of \<open>scriptbuilder.go\<close>, \<open>CountSigOps\<close> and
  \<open>CountP2SHSigOps\<close> of \<open>blockchain/validate.go\<close>, \<open>GetSigOpCost\<close> and \<open>GetBlockWeight\<close> of
  \<open>blockchain/weight.go\<close>, and the sizes of \<open>wire/msgblock.go\<close>.

  The lemmas show that the recogniser of witness programs is the one of the proposal that introduced
  them, that a count never exceeds twenty times the length of the script, that precise counting never
  counts more than the quick one, and that a missing input gives a cost of zero.
\<close>

section \<open>Opcodes and recognisers\<close>

definition OP_16 :: byte where "OP_16 = 0x60"
definition OP_DATA_32 :: byte where "OP_DATA_32 = 0x20"
definition OP_CHECKSIGVERIFY :: byte where "OP_CHECKSIGVERIFY = 0xad"
definition OP_CHECKMULTISIG :: byte where "OP_CHECKMULTISIG = 0xae"
definition OP_CHECKMULTISIGVERIFY :: byte where "OP_CHECKMULTISIGVERIFY = 0xaf"
definition OP_INVALIDOPCODE :: byte where "OP_INVALIDOPCODE = 0xff"
definition MaxPubKeysPerMultiSig :: nat where "MaxPubKeysPerMultiSig = 20"

lemmas sig_op_defs = OP_16_def OP_DATA_32_def OP_CHECKSIG_def OP_CHECKSIGVERIFY_def
  OP_CHECKMULTISIG_def OP_CHECKMULTISIGVERIFY_def OP_INVALIDOPCODE_def

definition IsSmallInt :: "byte \<Rightarrow> bool" where
  "IsSmallInt opc \<longleftrightarrow> opc = OP_0 \<or> OP_1 \<le> opc \<and> opc \<le> OP_16"

definition AsSmallInt :: "byte \<Rightarrow> nat" where
  "AsSmallInt opc = (if opc = OP_0 then 0 else unat (opc - (OP_1 - 1)))"

definition isCanonicalPush :: "byte \<Rightarrow> bytes \<Rightarrow> bool" where
  "isCanonicalPush opcode data =
     (let dataLen = length data in
      if OP_16 < opcode then True
      else if opcode < OP_PUSHDATA1 \<and> OP_0 < opcode \<and> dataLen = 1 \<and> data ! 0 \<le> 16 then False
      else if opcode = OP_PUSHDATA1 \<and> dataLen < unat OP_PUSHDATA1 then False
      else if opcode = OP_PUSHDATA2 \<and> dataLen \<le> 0xff then False
      else if opcode = OP_PUSHDATA4 \<and> dataLen \<le> 0xffff then False
      else True)"

definition IsPushOnlyScript :: "bytes \<Rightarrow> bool" where
  "IsPushOnlyScript script =
     (let (ts, t) = tokenize (MakeScriptTokenizer 0 script)
      in list_all (\<lambda>(opc, _). opc \<le> OP_16) ts \<and> tk_err t = None)"

definition extractScriptHash :: "bytes \<Rightarrow> bytes option" where
  "extractScriptHash script =
     (if length script = 23 \<and> script ! 0 = OP_HASH160 \<and> script ! 1 = OP_DATA_20 \<and> script ! 22 = OP_EQUAL
      then Some (take 20 (drop 2 script)) else None)"

definition isScriptHashScript :: "bytes \<Rightarrow> bool" where
  "isScriptHashScript script \<longleftrightarrow> extractScriptHash script \<noteq> None"

definition data_of :: "bytes option \<Rightarrow> bytes" where
  "data_of d = (case d of None \<Rightarrow> [] | Some bs \<Rightarrow> bs)"

definition extractWitnessProgramInfo :: "bytes \<Rightarrow> (nat \<times> bytes) option" where
  "extractWitnessProgramInfo script =
     (if length script < 4 \<or> length script > 42 then None
      else case Next (MakeScriptTokenizer 0 script) of
        (False, _) \<Rightarrow> None
      | (True, t) \<Rightarrow>
          if \<not> IsSmallInt (the (tk_op t)) then None
          else case Next t of
            (False, _) \<Rightarrow> None
          | (True, t') \<Rightarrow>
              if \<not> isCanonicalPush (the (tk_op t')) (data_of (tk_data t')) then None
              else if Done t' \<and> tk_err t' = None
              then Some (AsSmallInt (the (tk_op t)), data_of (tk_data t'))
              else None)"

definition isWitnessProgramScript :: "bytes \<Rightarrow> bool" where
  "isWitnessProgramScript script \<longleftrightarrow> extractWitnessProgramInfo script \<noteq> None"

section \<open>Signature operations of a script\<close>

fun count_tokens :: "bool \<Rightarrow> byte \<Rightarrow> (byte \<times> bytes option) list \<Rightarrow> nat" where
  "count_tokens precise prevOp [] = 0"
| "count_tokens precise prevOp ((opc, d) # ts) =
     (if opc = OP_CHECKSIG \<or> opc = OP_CHECKSIGVERIFY then 1
      else if opc = OP_CHECKMULTISIG \<or> opc = OP_CHECKMULTISIGVERIFY then
        (if precise \<and> OP_1 \<le> prevOp \<and> prevOp \<le> OP_16 then AsSmallInt prevOp else MaxPubKeysPerMultiSig)
      else 0)
     + count_tokens precise opc ts"

definition countSigOpsV0 :: "bytes \<Rightarrow> bool \<Rightarrow> nat" where
  "countSigOpsV0 script precise =
     count_tokens precise OP_INVALIDOPCODE (fst (tokenize (MakeScriptTokenizer 0 script)))"

definition GetSigOpCount :: "bytes \<Rightarrow> nat" where
  "GetSigOpCount script = countSigOpsV0 script False"

definition finalOpcodeData :: "bytes \<Rightarrow> bytes option" where
  "finalOpcodeData script =
     (if script = [] then None
      else
        let (ts, t) = tokenize (MakeScriptTokenizer 0 script)
        in if tk_err t \<noteq> None then None else if ts = [] then None else snd (last ts))"

definition GetPreciseSigOpCount :: "bytes \<Rightarrow> bytes \<Rightarrow> nat" where
  "GetPreciseSigOpCount scriptSig scriptPubKey =
     (if \<not> isScriptHashScript scriptPubKey then countSigOpsV0 scriptPubKey True
      else if scriptSig = [] \<or> \<not> IsPushOnlyScript scriptSig then 0
      else
        let redeemScript = data_of (finalOpcodeData scriptSig)
        in if redeemScript = [] then 0 else countSigOpsV0 redeemScript True)"

definition getWitnessSigOps :: "bytes \<Rightarrow> bytes list \<Rightarrow> nat" where
  "getWitnessSigOps script witness =
     (case extractWitnessProgramInfo script of
        None \<Rightarrow> 0
      | Some (witnessVersion, witnessProgram) \<Rightarrow>
          if witnessVersion = 0 then
            if length witnessProgram = 20 then 1
            else if length witnessProgram = 32 \<and> length witness > 0 then countSigOpsV0 (last witness) True
            else 0
          else 0)"

definition GetWitnessSigOpCount :: "bytes \<Rightarrow> bytes \<Rightarrow> bytes list \<Rightarrow> nat" where
  "GetWitnessSigOpCount sigScript script witness =
     (if isWitnessProgramScript script then getWitnessSigOps script witness
      else if isScriptHashScript script \<and> IsPushOnlyScript sigScript \<and> length sigScript > 0
              \<and> isWitnessProgramScript (drop 1 sigScript)
      then getWitnessSigOps (drop 1 sigScript) witness
      else 0)"

section \<open>Signature operations of a transaction\<close>

definition MaxBlockSigOpsCost :: int64 where "MaxBlockSigOpsCost = 80000"

definition CountSigOps :: "MsgTx \<Rightarrow> int64" where
  "CountSigOps tx =
     fold (\<lambda>txOut totalSigOps. wrap64 (totalSigOps + int (GetSigOpCount (PkScript txOut)))) (TxOut tx)
       (fold (\<lambda>txIn totalSigOps. wrap64 (totalSigOps + int (GetSigOpCount (SignatureScript txIn)))) (TxIn tx) 0)"

definition p2sh_input :: "UtxoViewpoint \<Rightarrow> TxIn \<Rightarrow> int64 \<Rightarrow> rule_error + int64" where
  "p2sh_input utxoView txIn totalSigOps =
     (case LookupEntry utxoView (PreviousOutPoint txIn) of
        None \<Rightarrow> Inl ErrMissingTxOut
      | Some utxo \<Rightarrow>
          if IsSpent utxo then Inl ErrMissingTxOut
          else if \<not> isScriptHashScript (pkScript utxo) then Inr totalSigOps
          else
            let total = wrap64 (totalSigOps + int (GetPreciseSigOpCount (SignatureScript txIn) (pkScript utxo)))
            in if total < totalSigOps then Inl ErrTooManySigOps else Inr total)"

definition CountP2SHSigOps :: "MsgTx \<Rightarrow> bool \<Rightarrow> UtxoViewpoint \<Rightarrow> rule_error + int64" where
  "CountP2SHSigOps tx isCoinBaseTx utxoView =
     (if isCoinBaseTx then Inr 0 else fold_r (p2sh_input utxoView) (TxIn tx) 0)"

definition witness_input :: "UtxoViewpoint \<Rightarrow> TxIn \<Rightarrow> int64 \<Rightarrow> rule_error + int64" where
  "witness_input utxoView txIn numSigOps =
     (case LookupEntry utxoView (PreviousOutPoint txIn) of
        None \<Rightarrow> Inl ErrMissingTxOut
      | Some utxo \<Rightarrow>
          if IsSpent utxo then Inl ErrMissingTxOut
          else Inr (wrap64 (numSigOps
            + int (GetWitnessSigOpCount (SignatureScript txIn) (pkScript utxo) (Witness txIn)))))"

text \<open>An error of \<open>CountP2SHSigOps\<close> becomes a cost of zero.\<close>

definition GetSigOpCost :: "MsgTx \<Rightarrow> bool \<Rightarrow> UtxoViewpoint \<Rightarrow> bool \<Rightarrow> bool \<Rightarrow> rule_error + int64" where
  "GetSigOpCost tx isCoinBaseTx utxoView bip16 segWit =
     (let numSigOps = wrap64 (CountSigOps tx * int WitnessScaleFactor);
          witness_part = (\<lambda>numSigOps.
            if segWit \<and> \<not> isCoinBaseTx then fold_r (witness_input utxoView) (TxIn tx) numSigOps
            else Inr numSigOps)
      in if bip16 then
           (case CountP2SHSigOps tx isCoinBaseTx utxoView of
              Inl _ \<Rightarrow> Inr 0
            | Inr numP2SHSigOps \<Rightarrow>
                witness_part (wrap64 (numSigOps + wrap64 (numP2SHSigOps * int WitnessScaleFactor))))
         else witness_part numSigOps)"

section \<open>Sizes of blocks\<close>

definition blockHeaderLen :: nat where "blockHeaderLen = 80"

definition Block_SerializeSize :: "Block \<Rightarrow> nat" where
  "Block_SerializeSize msg =
     blockHeaderLen + VarIntSerializeSize (of_nat (length (Transactions msg)))
     + sum_list (map SerializeSize (Transactions msg))"

definition Block_SerializeSizeStripped :: "Block \<Rightarrow> nat" where
  "Block_SerializeSizeStripped msg =
     blockHeaderLen + VarIntSerializeSize (of_nat (length (Transactions msg)))
     + sum_list (map SerializeSizeStripped (Transactions msg))"

definition GetBlockWeight :: "Block \<Rightarrow> int64" where
  "GetBlockWeight blk =
     int (Block_SerializeSizeStripped blk * (WitnessScaleFactor - 1) + Block_SerializeSize blk)"

section \<open>Script numbers\<close>

function num_bytes :: "int64 \<Rightarrow> bytes" where
  "num_bytes n = (if 0 < n then of_int (n mod 256) # num_bytes (n div 256) else [])"
  by pat_completeness auto
termination
  by (relation "measure nat") auto

declare num_bytes.simps [simp del]

text \<open>The least 64 bit integer has no absolute value: the loop does not run, and reading the last byte
  of the empty slice panics, which is \<open>None\<close>.\<close>

definition scriptNum_Bytes :: "int64 \<Rightarrow> bytes option" where
  "scriptNum_Bytes n =
     (if n = 0 then Some []
      else
        let isNegative = (n < 0);
            result = num_bytes (if isNegative then wrap64 (- n) else n)
        in if result = [] then None
           else if last result AND 0x80 \<noteq> 0 then Some (result @ [if isNegative then 0x80 else 0])
           else if isNegative then Some (butlast result @ [last result OR 0x80])
           else Some result)"

definition AddInt64 :: "int64 \<Rightarrow> ScriptBuilder \<Rightarrow> ScriptBuilder option" where
  "AddInt64 val b =
     (if sb_err b \<noteq> None then Some b
      else if length (sb_script b) + 1 > MaxScriptSize then Some (b\<lparr>sb_err := Some ErrScriptNotCanonical\<rparr>)
      else if val = 0 then Some (b\<lparr>sb_script := sb_script b @ [OP_0]\<rparr>)
      else if val = -1 \<or> 1 \<le> val \<and> val \<le> 16
      then Some (b\<lparr>sb_script := sb_script b @ [of_int (uint (OP_1 - 1) + val)]\<rparr>)
      else map_option (\<lambda>data. AddData data b) (scriptNum_Bytes val))"

text \<open>Every 32 bit integer has an encoding, so the coinbase height never panics.\<close>

lemma num_bytes_not_Nil: "0 < n \<Longrightarrow> num_bytes n \<noteq> []"
  by (subst num_bytes.simps) simp

lemma AddInt64_total: "is_int32 val \<Longrightarrow> \<exists>b'. AddInt64 val b = Some b'"
proof -
  assume "is_int32 val"
  then have "wrap64 (- val) = - val" by (intro wrap64_id) (auto simp: is_int32_def is_int64_def)
  then have "\<exists>bs. scriptNum_Bytes val = Some bs"
    using num_bytes_not_Nil [of val] num_bytes_not_Nil [of "- val"]
    by (cases val "0 :: int" rule: linorder_cases) (auto simp: scriptNum_Bytes_def Let_def)
  then show ?thesis by (auto simp: AddInt64_def)
qed

section \<open>Counting is bounded\<close>

lemma AsSmallInt_le: "opc \<le> OP_16 \<Longrightarrow> OP_1 \<le> opc \<Longrightarrow> AsSmallInt opc \<le> 16"
  by (auto simp: AsSmallInt_def OP_16_def OP_1_def OP_0_def word_le_nat_alt unat_sub)

lemma count_tokens_le: "count_tokens precise p ts \<le> 20 * length ts"
proof (induction ts arbitrary: p)
  case (Cons t ts)
  obtain opc d where t: "t = (opc, d)" by (cases t)
  have "OP_1 \<le> p \<and> p \<le> OP_16 \<Longrightarrow> AsSmallInt p \<le> 20" using AsSmallInt_le [of p] by simp
  with Cons [of opc] show ?case by (auto simp: t MaxPubKeysPerMultiSig_def)
qed simp

lemma length_parse_script: "length (fst (parse_script s)) \<le> length s"
proof (induction s rule: parse_script.induct)
  case (1 s)
  show ?case
  proof (cases "s = []")
    case False
    show ?thesis
    proof (cases "parse_op s")
      case (Inl e)
      with False show ?thesis by (subst parse_script.simps) simp
    next
      case (Inr dn)
      obtain d n where p: "parse_op s = Inr (d, n)" using Inr by (cases dn) auto
      have "length (fst (parse_script (drop n s))) \<le> length (drop n s)"
        using "1.IH" [OF False p refl] by simp
      then show ?thesis
        using parse_op_bounds [OF p False] by (auto simp: parse_script_step [OF p False])
    qed
  qed simp
qed

lemma countSigOpsV0_le: "countSigOpsV0 script precise \<le> 20 * length script"
  using count_tokens_le [of precise OP_INVALIDOPCODE "fst (parse_script script)"] length_parse_script [of script]
  by (simp add: countSigOpsV0_def tokenize_Make)

lemma count_tokens_precise: "count_tokens True p ts \<le> count_tokens False p ts"
proof (induction ts arbitrary: p)
  case (Cons t ts)
  obtain opc d where t: "t = (opc, d)" by (cases t)
  have "OP_1 \<le> p \<and> p \<le> OP_16 \<Longrightarrow> AsSmallInt p \<le> 20" using AsSmallInt_le [of p] by simp
  with Cons [of opc] show ?case by (auto simp: t MaxPubKeysPerMultiSig_def)
qed simp

lemma countSigOpsV0_precise: "countSigOpsV0 script True \<le> countSigOpsV0 script False"
  by (simp add: countSigOpsV0_def count_tokens_precise)

section \<open>Witness programs\<close>

text \<open>The definition of the proposal: a version opcode and one direct push of the rest.\<close>

definition is_witness_program :: "bytes \<Rightarrow> bool" where
  "is_witness_program s \<longleftrightarrow>
     4 \<le> length s \<and> length s \<le> 42 \<and> IsSmallInt (s ! 0) \<and> unat (s ! 1) + 2 = length s"

lemma small_int_length: "IsSmallInt b \<Longrightarrow> opcode_length b = 1"
  by (auto simp: IsSmallInt_def opcode_length_def op_defs sig_op_defs word_le_nat_alt word_less_nat_alt)

lemma Next_at:
  assumes "tk_err t = None" and "tk_offset t < length (tk_script t)"
  shows "Next t =
     (case parse_op (drop (tk_offset t) (tk_script t)) of
        Inl e \<Rightarrow> (False, t\<lparr>tk_opcodePos := tk_opcodePos t + 1, tk_err := Some e\<rparr>)
      | Inr (d, n) \<Rightarrow> (True, t\<lparr>tk_opcodePos := tk_opcodePos t + 1, tk_offset := tk_offset t + n,
            tk_op := Some (tk_script t ! tk_offset t), tk_data := d\<rparr>))"
  using assms
  by (simp add: Next_def Done_def Let_def hd_drop_conv_nth split: sum.splits prod.splits)

lemma Next_op:
  assumes "Next t = (True, t')"
  shows "tk_op t' = Some (tk_script t ! tk_offset t)"
proof -
  have "tk_err t = None" "tk_offset t < length (tk_script t)"
    using assms by (auto simp: Next_def Done_def not_le split: if_splits)
  from Next_at [OF this] assms show ?thesis by (auto split: sum.splits prod.splits)
qed

text \<open>After the version, the rest is one push of the whole remainder exactly if its first byte is the
  number of bytes that follow.\<close>

lemma opcode_cases:
  "b = OP_0 \<or> OP_DATA_1 \<le> b \<and> b < OP_PUSHDATA1 \<or> b \<in> {OP_PUSHDATA1, OP_PUSHDATA2, OP_PUSHDATA4}
    \<or> OP_PUSHDATA4 < b"
proof -
  have e: "b = c" if "unat b = unat c" for c using that unfolding word_unat_eq_iff .
  have "unat b = 0 \<or> 1 \<le> unat b \<and> unat b < 76 \<or> unat b = 76 \<or> unat b = 77 \<or> unat b = 78 \<or> 78 < unat b"
    by arith
  then show ?thesis
    using e [of OP_0] e [of OP_PUSHDATA1] e [of OP_PUSHDATA2] e [of OP_PUSHDATA4]
    by (simp add: op_defs word_le_nat_alt word_less_nat_alt) argo
qed

lemma opcode_length_direct: "0 < unat b \<Longrightarrow> unat b < 76 \<Longrightarrow> opcode_length b = int (unat b) + 1"
  by (simp add: opcode_length_def op_defs word_le_nat_alt word_less_nat_alt)

lemma parse_op_direct:
  assumes "0 < unat b" and "unat b < 76"
  shows "parse_op (b # s) =
    (if length s < unat b then Inl ErrMalformedPush else Inr (Some (take (unat b) s), Suc (unat b)))"
proof -
  obtain k where k: "unat b = k" by blast
  have "opcode_length b = int k + 1" using opcode_length_direct [OF assms] unfolding k .
  then show ?thesis using assms unfolding k by (simp add: parse_op_def nat_add_distrib)
qed

lemma push_direct:
  assumes "0 < unat b" and "unat b < 76" and "length s \<noteq> 1"
  shows "(\<exists>d. parse_op (b # s) = Inr (d, Suc (length s)) \<and> isCanonicalPush b (data_of d)) \<longleftrightarrow> unat b = length s"
proof -
  have "isCanonicalPush b s"
    using assms by (auto simp: isCanonicalPush_def Let_def op_defs)
  then show ?thesis by (auto simp: parse_op_direct [OF assms(1,2)] data_of_def)
qed

lemma push_rest:
  assumes "3 \<le> length r" and "length r \<le> 41"
  shows "(\<exists>d. parse_op r = Inr (d, length r) \<and> isCanonicalPush (hd r) (data_of d))
    \<longleftrightarrow> unat (hd r) + 1 = length r"
proof -
  obtain b s where r: "r = b # s" using assms by (cases r) auto
  have s: "2 \<le> length s" "length s \<le> 40" using assms by (simp_all add: r)
  consider "b = OP_0" | "OP_DATA_1 \<le> b" "b < OP_PUSHDATA1" | "b \<in> {OP_PUSHDATA1, OP_PUSHDATA2, OP_PUSHDATA4}"
    | "OP_PUSHDATA4 < b"
    using opcode_cases [of b] by blast
  then show ?thesis
  proof cases
    case 1
    have "parse_op r = Inr (None, 1)" by (simp add: r 1 parse_op_def opcode_length_def op_defs)
    then show ?thesis using s by (auto simp: r 1 OP_0_def)
  next
    case 2
    then have "0 < unat b" "unat b < 76" by (simp_all add: op_defs word_le_nat_alt word_less_nat_alt)
    from push_direct [OF this] s show ?thesis by (simp add: r)
  next
    case 3
    have "\<not> isCanonicalPush b d" if "length d \<le> 40" for d
      using that 3 by (auto simp: isCanonicalPush_def Let_def op_defs sig_op_defs)
    moreover have "length (data_of d) \<le> 40" if "parse_op r = Inr (d, n)" for d n
      using that 3 s by (auto simp: r parse_op_def opcode_length_def op_defs data_of_def Let_def split: if_splits)
    moreover have "75 < unat b" using 3 by (auto simp: op_defs)
    ultimately show ?thesis using s by (auto simp: r)
  next
    case 4
    then have "opcode_length b = 1" and "78 < unat b"
      by (auto simp: opcode_length_def op_defs word_less_nat_alt)
    then have "parse_op r = Inr (None, 1)" by (simp add: r parse_op_def)
    with s \<open>78 < unat b\<close> show ?thesis by (auto simp: r)
  qed
qed

text \<open>The tokenizer recognises exactly the programs of the proposal.\<close>

lemma extractWitnessProgramInfo_eq:
  "extractWitnessProgramInfo s =
     (if is_witness_program s then Some (AsSmallInt (s ! 0), drop 2 s) else None)"
proof (cases "4 \<le> length s \<and> length s \<le> 42 \<and> IsSmallInt (s ! 0)")
  case False
  then show ?thesis
  proof (cases "4 \<le> length s \<and> length s \<le> 42")
    case True
    with False have "\<not> IsSmallInt (s ! 0)" by simp
    moreover have "Next (MakeScriptTokenizer 0 s) = (True, t) \<Longrightarrow> tk_op t = Some (s ! 0)" for t
      using Next_op [of "MakeScriptTokenizer 0 s" t] by (simp add: MakeScriptTokenizer_def)
    ultimately show ?thesis
      by (auto simp: extractWitnessProgramInfo_def is_witness_program_def split: bool.splits prod.split)
  qed (auto simp: extractWitnessProgramInfo_def is_witness_program_def)
next
  case True
  define t where "t = (MakeScriptTokenizer 0 s)\<lparr>tk_opcodePos := 0, tk_offset := 1, tk_op := Some (s ! 0), tk_data := None\<rparr>"
  have ne: "0 < length s" using True by auto
  have "parse_op s = Inr (None, 1)"
    using small_int_length [of "s ! 0"] True ne hd_conv_nth [of s] by (auto simp: parse_op_def)
  then have N1: "Next (MakeScriptTokenizer 0 s) = (True, t)"
    using ne by (simp add: Next_at MakeScriptTokenizer_def t_def)
  have t: "tk_err t = None" "tk_script t = s" "tk_offset t = 1" "tk_op t = Some (s ! 0)"
    by (simp_all add: t_def MakeScriptTokenizer_def)
  let ?r = "drop 1 s"
  have r: "3 \<le> length ?r" "length ?r \<le> 41" "hd ?r = s ! 1" "Suc (length ?r) = length s"
    using True by (auto simp: hd_drop_conv_nth)
  have N2: "Next t = (case parse_op ?r of
        Inl e \<Rightarrow> (False, t\<lparr>tk_opcodePos := tk_opcodePos t + 1, tk_err := Some e\<rparr>)
      | Inr (d, n) \<Rightarrow> (True, t\<lparr>tk_opcodePos := tk_opcodePos t + 1, tk_offset := 1 + n, tk_op := Some (s ! 1), tk_data := d\<rparr>))"
    using True by (subst Next_at) (simp_all add: t split: sum.split)
  have info: "extractWitnessProgramInfo s =
      (case parse_op ?r of Inl e \<Rightarrow> None
       | Inr (d, n) \<Rightarrow> if isCanonicalPush (hd ?r) (data_of d) \<and> length ?r \<le> n then Some (AsSmallInt (s ! 0), data_of d) else None)"
    using True by (simp add: extractWitnessProgramInfo_def N1 N2 t r(3) Done_def split: sum.splits prod.splits)
      (use r(3,4) in auto)
  show ?thesis
  proof (cases "unat (s ! 1) + 2 = length s")
    case wp: True
    obtain b q where bq: "?r = b # q" using r(1) by (cases ?r) auto
    have len: "length ?r = Suc (length q)" by (simp only: bq list.size add_0_right add_Suc_right)
    have b: "s ! 1 = b" using r(3) by (simp only: bq list.sel)
    have ub: "unat b = length q" using wp len r(4) unfolding b by linarith
    have q: "?r = b # q" "unat b = length q" "0 < unat b" "unat b < 76"
      using bq ub len r(1,2) by linarith+
    have "parse_op ?r = Inr (Some q, length ?r)" using parse_op_direct [OF q(3,4)] q(1,2) by simp
    moreover have "isCanonicalPush (hd ?r) (data_of (Some q))"
      using push_rest [OF r(1,2)] r(3,4) wp calculation by auto
    moreover have "drop 2 s = q" using q(1) by (metis One_nat_def Suc_1 drop_Suc list.sel(3) tl_drop drop0)
    ultimately show ?thesis using True wp by (simp add: info is_witness_program_def data_of_def)
  next
    case no: False
    have "n = length ?r" if "parse_op ?r = Inr (d, n)" "length ?r \<le> n" for d n
      using parse_op_bounds [OF that(1)] that(2) r(1) by fastforce
    then have "extractWitnessProgramInfo s = None"
      using push_rest [OF r(1,2)] r(3,4) no by (auto simp: info split: sum.splits prod.splits)
    with no show ?thesis by (simp add: is_witness_program_def)
  qed
qed

section \<open>A missing input\<close>

text \<open>The error of a missing input is dropped: the transaction counts as free.\<close>

lemma fold_r_missing:
  assumes "txIn \<in> set ins" and "LookupEntry view (PreviousOutPoint txIn) = None"
  shows "\<exists>e. fold_r (p2sh_input view) ins n = Inl e"
  using assms(1)
proof (induction ins arbitrary: n)
  case (Cons x xs)
  show ?case
  proof (cases "p2sh_input view x n")
    case (Inl e)
    then show ?thesis by (simp add: bind_r_def)
  next
    case (Inr m)
    then have "x \<noteq> txIn" using assms(2) by (auto simp: p2sh_input_def)
    with Cons have "\<exists>e. fold_r (p2sh_input view) xs m = Inl e" by simp
    then show ?thesis by (simp add: Inr)
  qed
qed simp

lemma GetSigOpCost_missing:
  assumes "txIn \<in> set (TxIn tx)" and "LookupEntry view (PreviousOutPoint txIn) = None"
  shows "GetSigOpCost tx False view True segWit = Inr 0"
  using fold_r_missing [OF assms, of 0] by (auto simp: GetSigOpCost_def CountP2SHSigOps_def Let_def)

end
