(* ===== verification/Spec2Isabelle.thy ===== *)
theory Spec2Isabelle
  imports Example_Chain Merkle Difficulty Chain_View Version_Bits Sig_Ops
begin

text \<open>
  A verification of \<open>obtcd\<close>, a Bitcoin full node (a fork of \<open>btcd\<close>) whose chain lets miners
  collect outputs that have not moved for a long time.  An output expires a fixed number of blocks
  after it was created (the window); a miner may then spend it without a signature in one special
  transaction of its block, the REAP transaction, which must take the oldest expired outputs first
  and pays each of their scripts its value less a tax.  Every node keeps an index of the outputs by expiry, and the
  coinbase commits to a digest of it.

  \<^bold>\<open>The parts and how they interact.\<close>  A block that arrives is checked on its own and against its
  ancestors, connected to the UTXO set (a view per block, a cache in front of the database), and given
  to the expiry index in the same step; a reorganisation takes blocks off again with the spend
  journal.  The REAP rules ask the index for the first expired outputs and compare them with the REAP
  transaction of the block.  The miner asks the same index when it builds a template, so both sides
  have to agree on selection, order, amounts and limits.

  \<^bold>\<open>Groups of theories\<close> (sources relative to \<open>src/\<close>):

  \<^item> Ground: \<open>Go_Prelude\<close> (machine integers, byte strings, errors as values), \<open>Go_Strings\<close>,
    \<open>Sha256\<close>; \<open>Kv_Bucket\<close>, the buckets and cursors of \<open>database\<close> as ordered maps, with the locale
    \<open>ordered_store\<close> the index works against.
  \<^item> Data and formats: \<open>Chaincfg_Obtc\<close> (\<open>chaincfg/params_obtc.go\<close>, \<open>params.go\<close>), \<open>Wire_Tx\<close>
    (\<open>wire/msgtx.go\<close>, \<open>wire/common.go\<close>, \<open>wire/blockheader.go\<close>, \<open>btcutil/block.go\<close>), \<open>Txscript\<close>
    (\<open>txscript/tokenizer.go\<close>, \<open>scriptbuilder.go\<close>, part of \<open>script.go\<close> and \<open>standard.go\<close>),
    \<open>Compress\<close> (\<open>blockchain/compress.go\<close>).
  \<^item> The expiry index (\<open>blockchain/expiryindex\<close>): \<open>Expiry_Encode\<close>, \<open>Mu_Hash\<close>,
    \<open>Expiry_Commitment\<close>, \<open>Expiry_Buckets\<close>, \<open>Expiry_Entries\<close> and \<open>Expiry_Index\<close> hold the operations;
    \<open>Expiry_Refine\<close> states what the index promises, a map from tracked outputs to expiry key and
    amount, and proves that the operations implement it; \<open>Expiry_Queries\<close> does the same for the
    queries and \<open>Expiry_Rebuild\<close> for resets, rebuilds and reindexing, with the index as a state
    machine.
  \<^item> The UTXO set: \<open>Utxo_View\<close> and \<open>Utxo_Set\<close> (\<open>blockchain/utxoviewpoint.go\<close>), \<open>Chain_Io\<close>
    (\<open>blockchain/chainio.go\<close>), \<open>Utxo_Cache\<close> (\<open>blockchain/utxocache.go\<close>, \<open>sizehelper.go\<close>).  The
    abstract set is a map from outpoints to outputs; views, database rows and cached entries are
    related to it, and connecting, disconnecting, flushing and replaying after a crash follow it.
  \<^item> Rules: \<open>Rule_Error\<close> (\<open>blockchain/error.go\<close>), \<open>Tx_Sanity\<close> (\<open>blockchain/validate.go\<close>),
    \<open>Reap_Validation\<close> and \<open>Reap_Rules\<close> (\<open>blockchain/validation_reap.go\<close>), \<open>Script_Validation\<close>
    (\<open>blockchain/scriptval.go\<close>, a step relation over goroutines and channels), \<open>Merkle\<close>
    (\<open>blockchain/merkle.go\<close>, \<open>rolling_merkle.go\<close>), \<open>Work_Math\<close>
    (\<open>blockchain/internal/workmath\<close>).
  \<^item> The chain: \<open>Block_Index\<close> (\<open>blockchain/blockindex.go\<close>: nodes with a skip pointer, the index and
    its status flags), \<open>Chain_View\<close> (\<open>blockchain/chainview.go\<close>), \<open>Difficulty\<close>
    (\<open>blockchain/difficulty.go\<close>), \<open>Version_Bits\<close> (\<open>blockchain/thresholdstate.go\<close>,
    \<open>versionbits.go\<close>, \<open>chaincfg/deployment_time_frame.go\<close>).  A node is a value that holds its
    parent and its skip pointer; \<open>is_node\<close> says that it was built by \<open>newBlockNode\<close>, and \<open>chain_of\<close>
    lists it with its ancestors.
  \<^item> \<open>Sig_Ops\<close>: signature operations of scripts, transactions and blocks, block weight and script
    numbers (\<open>txscript/script.go\<close>, \<open>standard.go\<close>, \<open>scriptnum.go\<close>, \<open>blockchain/validate.go\<close>,
    \<open>weight.go\<close>, \<open>wire/msgblock.go\<close>).  Its recogniser of witness programs is the one of the proposal
    that introduced them.
  \<^item> Mining: \<open>Reap_Mining\<close> (\<open>mining/reap\<close>, \<open>mining/template_reap.go\<close>), \<open>Reap_Agreement\<close>,
    \<open>Reap_Safety\<close>, \<open>Reap_Liveness\<close>.
  \<^item> \<open>Example_Inputs\<close> and \<open>Example_Chain\<close>: concrete blocks, indexes and databases at which the
    witnesses of the properties evaluate the definitions.

  \<^bold>\<open>How state and operations correspond.\<close>  A Go struct is a record with the source's field names, an
  operation is a function that takes the state and returns it updated, an error return is \<open>Inl\<close> of an
  error value (a panic is one as well), and a loop is a recursion or a fold that stops at the first
  error.  Unsigned integers are words of their width; \<open>int32\<close> and \<open>int64\<close> are integers with
  \<open>wrap32\<close> and \<open>wrap64\<close> where the code can overflow.  Locks and log output are left out; the one place
  where scheduling matters, the script validator, is a step relation.  Code the model does not go into is a
  parameter: the script engine (\<open>txscript/engine.go\<close>), the public key parser, the clock.

  \<^bold>\<open>What the lemmas show.\<close>  The index refines its specification, survives reorganisations exactly and
  does not depend on history; its queries are exact and page without loss; rebuilds leave either the
  right index or an empty one.  The REAP rules are characterised one by one, what the miner builds
  validators accept, expired outputs are taken, and once the rules are active a REAP transaction, the only one whose
  scripts are not run, takes nothing but expired outputs; before that a marker alone replaces the
  signature, which is shown as well.
  The stored formats round-trip; the spend journal undoes a block; cache and database together are the
  UTXO set at every flush mode, also after an unclean shutdown.  The concurrent validator has the
  sequential verdict and always finishes.  The Merkle root does not depend on the construction.
  The skip list finds the same ancestor as the parent pointers; a view is the chain of its tip; the
  difficulty schedule of the fork is total, bounded and monotone in the block time; the cache of
  deployment states never changes an answer.

  \<^bold>\<open>Bounds and fuel.\<close>  The paged scans, the rebuild, the page loop and the budget loop recurse on a
  decreasing list or counter and need no fuel.  \<open>sizeParameter\<close> of \<open>Utxo_Cache\<close> searches with 64
  rounds, one for each bit of the size it halves, and is proved total with them.  The loops of the
  rolling Merkle store are partial functions, proved to return for fewer than \<open>2 ^ 63\<close> transactions.
  The walks along ancestors (\<open>Ancestor_loop\<close>, \<open>setTip_loop\<close>, \<open>findFork_loop\<close>) recurse on smaller
  nodes.  \<open>locator_loop\<close> and \<open>needed_loop\<close> are partial functions and proved to return for every node
  below height \<open>2 ^ 31 - 1\<close>; \<open>easiest_loop\<close> is partial because a factor of zero would not end.

  \<^bold>\<open>Not modelled.\<close>  Sockets, peers, RPC, start-up, configuration and the command line tools are input
  and output around the operations above.  The script interpreter and signature checks are parameters:
  they rest on elliptic curve code and are independent of expiry.  The memory pool, fee estimation,
  address and filter indexes, and wallet utilities do not take part in the rules modelled here; what the
  pool asks of a REAP transaction is in \<open>Reap_Safety\<close>.  LevelDB and the flat block files below
  \<open>database\<close> are represented by the bucket interface.  The shadow comparison of the index only logs.
  Warnings about unknown version bits only log.  The checks of a header and a block as a whole
  (\<open>checkBlockSanity\<close>, \<open>checkBlockContext\<close>, \<open>checkConnectBlock\<close> of \<open>blockchain/validate.go\<close>) and the choice of
  the best chain (\<open>blockchain/chain.go\<close>, \<open>process.go\<close>, \<open>accept.go\<close>) are not modelled as a whole; the parts
  they compose are: transactions, REAP rules, Merkle roots, difficulty, deployments, views, cache and
  index.
\<close>

section \<open>The index refines its specification\<close>

text \<open>C1: \<open>ConnectBlock\<close> refines the specification of a block as an update of the map from tracked
  unspent outputs to expiry key and amount.  On an index that stands for a map, with a block whose
  outputs are new, whose values are amounts and whose coinbase commits to the digest of the map, it
  succeeds; entries, accumulator and metadata then stand for the updated map, at the hash and height
  of the block.\<close>

theorem connect_block_refines:
  assumes "index_inv db M mh tipHash tip"
    and "\<not> idx_disabled idx" and "IsIndexingEnabled (idx_expiryParams idx) (Height block)"
    and "is_int32 (Height block)" and "block_ok idx block M"
    and "validateExpiryCommitment idx block (mset_digest (acc_mset M)) = Inr ()"
    and "coprime (denominator mh) muhashPrime"
    and "\<forall>op \<in> set (block_inputs block). \<forall>e. invertible (computeEntryData op e)"
  shows "\<exists>db' mh'. ConnectBlock idx block stxos db = Inr (idx\<lparr>idx_curTipHeight := Height block\<rparr>, db')
    \<and> index_inv db' (spec_block idx block M) mh' (BlockHash block) (Height block)
    \<and> coprime (denominator mh') muhashPrime"
  by (rule ConnectBlock_refines [OF assms])

theorem connect_block_refines_witness:
  "\<exists>db' mh'. ConnectBlock ex_idx ex_block [] ex_db0 = Inr (ex_idx\<lparr>idx_curTipHeight := 105\<rparr>, db')
    \<and> index_inv db' [out_op ex_coinbase 0 \<mapsto> (CalculateExpiryKey regtestExpiryParams 105, 5000000000)]
        mh' (BlockHash ex_block) 105
    \<and> coprime (denominator mh') muhashPrime"
  using connect_block_refines [OF ex_db0(2), of ex_idx ex_block "[]"] ex_block_facts ex_spec_block by simp

text \<open>C2: a reorganisation is undone exactly.  When the index has connected a block and then
  disconnects it with the journal the chain wrote, the call succeeds, every entry is the one there
  was before the block, the accumulator stands for the old map again, and the metadata names the
  parent block and its height.\<close>

theorem reorg_round_trip:
  assumes "index_inv db M mh tipHash tip" and "\<not> idx_disabled idx"
    and "IsIndexingEnabled (idx_expiryParams idx) (Height block)" and "is_int32 (Height block)"
    and "journal_ok idx block stxos M" and "ConnectBlock idx block stxos db = Inr (idx', db')"
  shows "\<exists>db'' mh''. DisconnectBlock idx' block stxos db' =
      Inr (idx'\<lparr>idx_curTipHeight := wrap32 (Height block - 1)\<rparr>, db'')
    \<and> same_entries db db'' \<and> index_inv db'' M mh'' (PrevBlock (Header block)) (wrap32 (Height block - 1))"
proof -
  obtain mh' where c: "index_inv db' (spec_block idx block M) mh' (BlockHash block) (Height block)"
    "idx' = idx\<lparr>idx_curTipHeight := Height block\<rparr>"
    using ConnectBlock_Inr [OF assms(1-4) journal_ok_block_ok [OF assms(5)] assms(6)] by blast
  have rep: "index_rep db M" using assms(1) by (simp add: index_inv_def)
  then have "wf_idx_map M" by (simp add: index_rep_def)
  from DisconnectBlock_refines [OF c(1) _ _ assms(3,5) this, of idx'] c(2) assms(2)
  obtain db'' mh'' where d: "DisconnectBlock idx' block stxos db' =
      Inr (idx'\<lparr>idx_curTipHeight := wrap32 (Height block - 1)\<rparr>, db'')"
    "index_inv db'' M mh'' (PrevBlock (Header block)) (wrap32 (Height block - 1))" by auto
  moreover have "same_entries db db''" using rep d(2) index_rep_unique by (auto simp: index_inv_def)
  ultimately show ?thesis by blast
qed

theorem reorg_round_trip_witness:
  "\<exists>idx' db' db''. ConnectBlock ex_idx ex_block [] ex_db0 = Inr (idx', db')
    \<and> DisconnectBlock idx' ex_block [] db' = Inr (idx'\<lparr>idx_curTipHeight := 104\<rparr>, db'') \<and> same_entries ex_db0 db''"
proof -
  obtain idx' db' where c: "ConnectBlock ex_idx ex_block [] ex_db0 = Inr (idx', db')"
    using ConnectBlock_refines [OF ex_db0(2), of ex_idx ex_block "[]"] ex_block_facts by auto
  moreover have "wrap32 104 = 104" by (rule wrap32_id) (simp add: is_int32_def)
  ultimately show ?thesis
    using reorg_round_trip [OF ex_db0(2) _ _ _ ex_journal_ok c] ex_block_facts by auto
qed

text \<open>C3: in every state the index reaches, by creation, blocks connected and disconnected, rebuilds
  and failed rebuilds in any order, its five buckets, its accumulator and its metadata describe one
  map; the digest it reports is the digest of that map, unless a removed element has no inverse.\<close>

theorem reachable_index_invariant:
  assumes "reach idx0 (idx, db) M" and "\<not> idx_disabled idx0"
  shows "\<exists>mh h n. index_inv db M mh h n \<and> idx_expiryParams idx = idx_expiryParams idx0
    \<and> GetAccumulatorDigest idx db =
        (if coprime (denominator mh) muhashPrime then Inr (mset_digest (acc_mset M)) else Inl ErrMuHashNoInverse)"
proof -
  obtain mh h n where r: "index_inv db M mh h n" "idx_expiryParams idx = idx_expiryParams idx0" "\<not> idx_disabled idx"
    using reach_index_inv [OF assms] by auto
  then show ?thesis using index_inv_digest [OF r(1,3)] by blast
qed

lemma ex_reach: "reach ex_idx (ex_idx\<lparr>idx_curTipHeight := 299\<rparr>, ex_db) ex_map"
proof -
  from reach.rebuild [OF ex_reach0 ex_rebuild_facts(2) ex_utxos_ok ex_rebuild_facts(3,4) ex_db(1)]
  show ?thesis by (simp add: ex_utxo_map)
qed

theorem reachable_index_invariant_witness:
  "\<exists>mh h n. index_inv ex_db ex_map mh h n
    \<and> GetAccumulatorDigest (ex_idx\<lparr>idx_curTipHeight := 299\<rparr>) ex_db =
        (if coprime (denominator mh) muhashPrime then Inr (mset_digest (acc_mset ex_map)) else Inl ErrMuHashNoInverse)"
  using reachable_index_invariant [OF ex_reach] by auto

text \<open>C4: the index has no memory of how it got where it is.  Two indexes that reach the same map, by
  whatever blocks, reorganisations and rebuilds, have the same entries in every bucket, and they
  report the same digest whenever both report one.\<close>

theorem history_independence:
  assumes "reach idx0 (idx, db) M" and "reach idx1 (idx', db') M"
    and "\<not> idx_disabled idx0" and "\<not> idx_disabled idx1"
    and "GetAccumulatorDigest idx db = Inr d" and "GetAccumulatorDigest idx' db' = Inr d'"
  shows "same_entries db db' \<and> d = d'"
proof -
  obtain mh h n mh' h' n' where i: "index_inv db M mh h n" "\<not> idx_disabled idx"
    "index_inv db' M mh' h' n'" "\<not> idx_disabled idx'"
    using reach_index_inv [OF assms(1,3)] reach_index_inv [OF assms(2,4)] by auto
  then have "same_entries db db'" using index_rep_unique by (auto simp: index_inv_def)
  moreover have "d = d'"
    using assms(5,6) index_inv_digest [OF i(1,2)] index_inv_digest [OF i(3,4)] by (auto split: if_splits)
  ultimately show ?thesis by blast
qed

theorem history_independence_witness:
  "same_entries ex_db_connected ex_db_rebuilt"
  using history_independence [OF ex_connected(2) ex_rebuilt(2) _ _ ex_connected(3) ex_rebuilt(3)] by simp

text \<open>C5: the UTXO view of the chain and the index stay in step.  When a block whose inputs are
  unspent connects to the view and to the index, the index stands for the tracked outputs of the new
  view, and the journal the view wrote is one with which the index can disconnect the block again.\<close>

theorem chain_and_index_in_step:
  assumes "index_inv db (view_map idx view) mh tipHash tip" and "\<not> idx_disabled idx"
    and "shouldIndexCreateHeight idx (Height block)" and "is_int32 (Height block)"
    and "Transactions block = cb # txs" and "IsCoinBaseTx cb" and "\<forall>tx \<in> set txs. \<not> IsCoinBaseTx tx"
    and "connectTransactions block (view, []) = Inr (view', stxos)"
    and "live_txs (Height block) (Transactions block) (view, [])" and "block_ok idx block (view_map idx view)"
    and "ConnectBlock idx block stxos db = Inr (idx', db')"
  shows "\<exists>mh' db'' mh''. index_inv db' (view_map idx view') mh' (BlockHash block) (Height block)
    \<and> DisconnectBlock idx' block stxos db' = Inr (idx'\<lparr>idx_curTipHeight := wrap32 (Height block - 1)\<rparr>, db'')
    \<and> index_inv db'' (view_map idx view) mh'' (PrevBlock (Header block)) (wrap32 (Height block - 1))"
proof -
  have en: "IsIndexingEnabled (idx_expiryParams idx) (Height block)"
    using assms(3) by (simp add: IsIndexingEnabled_def shouldIndexCreateHeight_def)
  obtain mh' where c: "index_inv db' (spec_block idx block (view_map idx view)) mh' (BlockHash block) (Height block)"
    "idx' = idx\<lparr>idx_curTipHeight := Height block\<rparr>"
    using ConnectBlock_Inr [OF assms(1,2) en assms(4,10,11)] by blast
  have j: "journal_ok idx block stxos (view_map idx view)" by (rule journal_ok_connectTransactions [OF assms(3,5-10)])
  have "wf_idx_map (view_map idx view)" using assms(1) by (simp add: index_inv_def index_rep_def)
  from DisconnectBlock_refines [OF c(1) _ _ en j this, of idx'] c assms(2)
    connectTransactions_view_map [OF assms(3,8)]
  show ?thesis by auto
qed

theorem chain_and_index_in_step_witness:
  "\<exists>view' mh' db''. connectTransactions ex_block (empty_view, []) = Inr (view', [])
    \<and> index_inv ex_db_connected (view_map ex_idx view') mh' (BlockHash ex_block) 105
    \<and> DisconnectBlock ex_idx_105 ex_block [] ex_db_connected = Inr (ex_idx_105\<lparr>idx_curTipHeight := wrap32 104\<rparr>, db'')"
  using chain_and_index_in_step [of ex_db0 ex_idx empty_view NewMuHash 0 "-1" ex_block ex_coinbase "[]" _ "[]" ex_idx_105 ex_db_connected]
    ex_db0(2) ex_block_facts(2,3) ex_connected(1) ex_empty_view by auto

section \<open>Miners and validators agree\<close>

text \<open>C6: what the miner builds, validators accept.  A REAP transaction the template generator returns
  spends a prefix, in canonical order, of the expired outputs of the index; it passes every
  transaction rule with the fee the generator claims, stays below the block weight, and a block that
  ends with it passes the REAP rules of blocks.\<close>

theorem mined_reap_accepted:
  assumes "GetExpiryParams (g_chainParams g) = Some ep" and "EnableAtHeight ep \<le> h" and "is_int32 h"
    and "g_reapIndex g = Some s" and "index_stands_for s M" and "index_tip s = wrap32 (h - 1)"
    and "fetches_from g view" and "backs view (g_chainParams g) ep h M"
    and "maybeBuildREAPTx g h = Inr (Some (tx, fee))"
    and "Transactions block = cb # txs @ [tx]" and "filter isLikelyReapTx txs = []"
  shows "(\<exists>cs k. set cs = {c \<in> candidates_of M. cand_ExpiryKey c \<le> of_int h} \<and> canonical_order cs
      \<and> 0 < k \<and> k \<le> length cs \<and> map PreviousOutPoint (TxIn tx) = map cand_OutPoint (take k cs))
    \<and> isLikelyReapTx tx \<and> CheckTransactionSanity tx = Inr ()
    \<and> CheckTransactionInputs tx h view (g_chainParams g) = Inr fee
    \<and> (0 < g_BlockMaxWeight g \<longrightarrow> GetTransactionWeight tx < uint (g_BlockMaxWeight g))
    \<and> checkReapBlockHardening block h (g_chainParams g) = Inr ()
    \<and> checkReapGlobalPrefix block h (Some (index_source s)) (g_chainParams g) = Inr ()"
  using maybeBuildREAPTx_Some [OF assms(1-5,7-9)] mined_block_rules [OF assms] by blast

theorem mined_reap_accepted_witness:
  "\<exists>tx fee. maybeBuildREAPTx ex_gen 300 = Inr (Some (tx, fee))
    \<and> CheckTransactionInputs tx 300 ex_view ObtcRegTestParams = Inr fee
    \<and> checkReapGlobalPrefix \<lparr>Header = Header ex_block, Transactions = [ex_coinbase, tx], Height = 300\<rparr> 300
        (Some (index_source (ex_idx, ex_db))) ObtcRegTestParams = Inr ()"
proof -
  obtain tx fee where b: "maybeBuildREAPTx ex_gen 300 = Inr (Some (tx, fee))" using ex_built by blast
  have "index_tip (ex_idx, ex_db) = wrap32 (300 - 1)" using ex_index_tip wrap32_id [of 299] by (simp add: is_int32_def)
  from mined_reap_accepted [OF ex_gen_facts(1-4) ex_stands_for this ex_gen_facts(5,6) b,
      of "\<lparr>Header = Header ex_block, Transactions = [ex_coinbase, tx], Height = 300\<rparr>" ex_coinbase "[]"] b
  show ?thesis by (auto simp: ex_gen_def)
qed

text \<open>C7: expired outputs are reaped.  Whenever the index tracks an output that has expired at the
  height of the next block, and blocks may weigh more than a REAP transaction of one input, the
  template generator returns a REAP transaction; the budget loop never runs out of inputs to drop.\<close>

theorem template_reaps_expired:
  assumes "GetExpiryParams (g_chainParams g) = Some ep" and "EnableAtHeight ep \<le> h" and "is_int32 h"
    and "g_reapIndex g = Some s" and "index_stands_for s M"
    and "fetches_from g view" and "backs view (g_chainParams g) ep h M" and "\<And>ops. g_fetchUtxoView g ops \<noteq> None"
    and "\<And>op e. op \<in> dom M \<Longrightarrow> LookupEntry view op = Some e \<Longrightarrow> length (pkScript e) \<le> MaxScriptSize"
    and "g_BlockMaxWeight g = 0 \<or> 41000 < g_BlockMaxWeight g"
    and "M op = Some (k, a)" and "k \<le> of_int h"
  shows "\<exists>tx fee. maybeBuildREAPTx g h = Inr (Some (tx, fee))"
  by (rule maybeBuildREAPTx_builds [OF assms])

theorem template_reaps_expired_witness:
  "\<exists>tx fee. maybeBuildREAPTx ex_gen 300 = Inr (Some (tx, fee))"
  by (rule template_reaps_expired [OF ex_gen_facts(1-4) ex_stands_for ex_gen_facts(5,6) _ ex_scripts _ ex_expired])
    (simp_all add: ex_gen_def)

section \<open>Who may spend an output\<close>

text \<open>C8: once the rules are active, a transaction with a REAP marker takes only expired, mined
  outputs, pays every script the full refund of the outputs it owned, and its fee is exactly the tax,
  so that no value goes anywhere else.\<close>

theorem accepted_reap_pays_refunds:
  assumes "GetExpiryParams params = Some p" and "EnableAtHeight p \<le> h"
    and "isLikelyReapTx tx" and "CheckTransactionSanity tx = Inr ()" and "\<not> IsCoinBaseTx tx"
    and "CheckTransactionInputs tx h view params = Inr fee"
  shows "\<exists>es. spends_entries view (TxIn tx) es
    \<and> (\<forall>e \<in> set es. blockHeight e \<noteq> unminedInputHeight \<and> isExpiredAt p (blockHeight e) h)
    \<and> (\<forall>s. paid_to (payments (butlast (TxOut tx))) s = paid_to (refunds p es) s)
    \<and> fee = sum_list (map (tax_of p) es)"
  by (rule accepted_reap [OF assms])

theorem accepted_reap_pays_refunds_witness:
  "\<exists>tx es fee. maybeBuildREAPTx ex_gen 300 = Inr (Some (tx, fee)) \<and> spends_entries ex_view (TxIn tx) es
    \<and> list_all (\<lambda>e. isExpiredAt regtestExpiryParams (blockHeight e) 300) es
    \<and> paid_to (payments (butlast (TxOut tx))) [OP_1] = paid_to (refunds regtestExpiryParams es) [OP_1]
    \<and> fee = sum_list (map (tax_of regtestExpiryParams) es)"
proof -
  obtain tx fee where b: "maybeBuildREAPTx ex_gen 300 = Inr (Some (tx, fee))"
    "isLikelyReapTx tx" "CheckTransactionSanity tx = Inr ()" "\<not> IsCoinBaseTx tx"
    "CheckTransactionInputs tx 300 ex_view ObtcRegTestParams = Inr fee"
    using ex_built_accepted by blast
  from accepted_reap_pays_refunds [OF regtest_params _ b(2-5)]
  obtain es where "spends_entries ex_view (TxIn tx) es" "\<forall>e \<in> set es. isExpiredAt regtestExpiryParams (blockHeight e) 300"
    "\<forall>s. paid_to (payments (butlast (TxOut tx))) s = paid_to (refunds regtestExpiryParams es) s"
    "fee = sum_list (map (tax_of regtestExpiryParams) es)" by auto
  with b(1) show ?thesis by (auto simp: list_all_iff)
qed

text \<open>C9: before the rules are active, or on a network without expiry parameters, a marker gives
  anybody any mature output.  For every script engine, the transaction that moves an output to a payee
  of the attacker's choice, with no signature and no witness, passes sanity, input and script checks,
  alone and in a block.\<close>

theorem unsigned_takeover_before_activation:
  assumes "is_int32 h" and "rules_inactive params h" and "LookupEntry view op = Some e" and "\<not> IsSpent e"
    and "mature params h e" and "0 \<le> amount e" and "amount e \<le> MaxSatoshi" and "\<not> isNullOutpoint op"
    and "length payee \<le> 10000" and "IsCoinBaseTx cb" and "tx = takeover h op (amount e) payee"
    and "Transactions block = [cb, tx]"
  shows "CheckTransactionSanity tx = Inr () \<and> CheckTransactionInputs tx h view params = Inr 0
    \<and> ValidateTransactionScripts engine tx view = Inr () \<and> checkBlockScripts engine block view = Inr ()
    \<and> map SignatureScript (TxIn tx) = [[]] \<and> map Witness (TxIn tx) = [[]]
    \<and> hd (TxOut tx) = \<lparr>Value = amount e, PkScript = payee\<rparr>"
proof -
  have "is_int64 h" using assms(1) by (simp add: is_int32_def is_int64_def)
  note sane = takeover_sane [OF this assms(9,6,7,8)]
  note acc = takeover_accepted [OF assms(1-8), of payee]
  have "txItems cb = []" using assms(10) by (auto simp: txItems_def IsCoinBaseTx_def split: list.splits)
  then have "blockScriptItems block = []" using assms(11,12) acc(2) by (simp add: blockScriptItems_def)
  then show ?thesis
    using sane(1) acc assms(11)
    by (simp add: ValidateTransactionScripts_def checkBlockScripts_def Validate_def takeover_def reapTxIn_def)
qed

theorem unsigned_takeover_before_activation_witness:
  "CheckTransactionInputs (takeover 109 ex_op 100000 [OP_1]) 109 ex_early_view ObtcRegTestParams = Inr 0
    \<and> checkBlockScripts (\<lambda>_ _ _ _. ScriptFailed)
        (ex_block\<lparr>Transactions := [ex_coinbase, takeover 109 ex_op 100000 [OP_1]]\<rparr>) ex_early_view = Inr ()"
  using unsigned_takeover_before_activation [of 109 ObtcRegTestParams ex_early_view ex_op ex_early "[OP_1]" ex_coinbase
      "takeover 109 ex_op 100000 [OP_1]" "ex_block\<lparr>Transactions := [ex_coinbase, takeover 109 ex_op 100000 [OP_1]]\<rparr>"
      "\<lambda>_ _ _ _. ScriptFailed"] ex_early ex_not_null by simp

text \<open>C10: the global prefix rule holds exactly when the REAP transaction of the block spends the first
  expired outputs of the whole index, in canonical order, and the index is at the parent block.  No
  miner can choose which expired outputs to take.\<close>

theorem global_prefix_exact:
  assumes "index_stands_for s M" and "GetExpiryParams params = Some p"
    and "ReapConsensusAtHeight p \<le> h" and "0 \<le> h" and "findReapTx block = Some (tx, i)" and "TxIn tx \<noteq> []"
    and "set cs = {c \<in> candidates_of M. cand_ExpiryKey c \<le> of_int h}" and "canonical_order cs"
  shows "checkReapGlobalPrefix block h (Some (index_source s)) params = Inr () \<longleftrightarrow>
    index_tip s = wrap32 (h - 1) \<and> length (TxIn tx) \<le> length cs
    \<and> map PreviousOutPoint (TxIn tx) = map cand_OutPoint (take (length (TxIn tx)) cs)"
  by (rule idx_src.checkReapGlobalPrefix_iff [OF assms])

theorem global_prefix_exact_witness:
  "checkReapGlobalPrefix ex_reap_block 300 (Some (index_source (ex_idx, ex_db))) ObtcRegTestParams = Inr ()"
proof -
  have "wrap32 299 = 299" by (rule wrap32_id) (simp add: is_int32_def)
  then show ?thesis
    using global_prefix_exact [OF ex_stands_for regtest_params _ _ ex_find_reap _ ex_cands] ex_index_tip ex_reap(2)
    by (simp add: ex_cand_def reapTxIn_def)
qed

text \<open>C11: the tax rule on amounts of money accepts exactly when every output but the marker pays
  something and every script is paid what it is owed: for each of its outputs the value less the tax,
  or nothing for an output whose value is below the dust threshold.\<close>

theorem tax_rule_exact:
  assumes "GetExpiryParams params = Some p" and "EnableAtHeight p \<le> h" and "isLikelyReapTx tx"
    and "spends_entries view (TxIn tx) es" and "\<forall>e \<in> set es. 0 \<le> amount e" and "total_amount es \<le> MaxSatoshi"
    and "\<forall>out \<in> set (butlast (TxOut tx)). 0 \<le> Value out" and "sum_list (map Value (butlast (TxOut tx))) \<le> MaxSatoshi"
  shows "checkReapTaxRules tx h view params = Inr () \<longleftrightarrow>
    (\<forall>out \<in> set (butlast (TxOut tx)). 0 < Value out) \<and>
    (\<forall>s. paid_to (payments (butlast (TxOut tx))) s = paid_to (refunds p es) s)"
  by (rule checkReapTaxRules_iff [OF assms])

theorem tax_rule_exact_witness:
  "checkReapTaxRules ex_reap 300 ex_view ObtcRegTestParams = Inr ()"
  using tax_rule_exact [OF regtest_params _ ex_reap(1) ex_spends, of 300]
  by (simp add: ex_reap(3) ex_refund MaxSatoshi_def)

text \<open>C12: the consensus hardening rule accepts a REAP transaction exactly when it is within the weight
  limit, all its inputs are there, they are in canonical order, and neither tier is over its cap, with
  nothing after a cap is reached.\<close>

theorem hardening_rule_exact:
  assumes "GetExpiryParams params = Some p" and "ReapConsensusAtHeight p \<le> h" and "isLikelyReapTx tx"
  shows "checkReapConsensusHardening tx h view params = Inr () \<longleftrightarrow>
    GetTransactionWeight tx \<le> ReapMaxWeight p \<and>
    (\<exists>ks. keys_of view p (TxIn tx) ks \<and> in_reap_order ks \<and> within_caps p 0 0 ks)"
  by (rule checkReapConsensusHardening_iff [OF assms])

theorem hardening_rule_exact_witness:
  "checkReapConsensusHardening ex_reap 300 ex_view ObtcRegTestParams = Inr () \<longleftrightarrow>
    GetTransactionWeight ex_reap \<le> 400000 \<and>
    (\<exists>ks. keys_of ex_view regtestExpiryParams [reapTxIn ex_op] ks \<and> in_reap_order ks \<and> within_caps regtestExpiryParams 0 0 ks)"
  using hardening_rule_exact [OF regtest_params _ ex_reap(1), of 300 ex_view] by (simp add: ex_reap(2))

text \<open>C13: once active, the expiry rule accepts exactly when every input is an unspent entry of the view
  that is expired for a REAP transaction and not expired for any other; an unconfirmed output can be
  spent only by a transaction that is not a REAP transaction.\<close>

theorem expiry_rule_exact:
  assumes "GetExpiryParams params = Some p" and "EnableAtHeight p \<le> h"
  shows "checkExpirySpendRules tx h view params = Inr () \<longleftrightarrow>
    (\<exists>es. spends_entries view (TxIn tx) es \<and> (\<forall>e \<in> set es. spendable_when (isLikelyReapTx tx) p h e))"
  by (rule checkExpirySpendRules_iff [OF assms])

theorem expiry_rule_exact_witness:
  "checkExpirySpendRules ex_reap 300 ex_view ObtcRegTestParams = Inr ()
    \<and> checkExpirySpendRules ex_reap 200 ex_view ObtcRegTestParams \<noteq> Inr ()"
proof -
  have "wrap32 264 = 264" by (rule wrap32_id) (simp add: is_int32_def)
  then have e: "isExpiredAt regtestExpiryParams 120 h \<longleftrightarrow> 264 \<le> h" for h by (simp add: isExpiredAt_def ex_key)
  have u: "spends_entries ex_view (TxIn ex_reap) es \<longleftrightarrow> es = [ex_entry]" for es
    using ex_spends spends_entries_unique by blast
  show ?thesis
    using expiry_rule_exact [OF regtest_params, of 300 ex_reap ex_view] expiry_rule_exact [OF regtest_params, of 200 ex_reap ex_view]
    by (simp add: u ex_reap(1) spendable_when_def e ex_entry_def unminedInputHeight_def)
qed

section \<open>What the index answers\<close>

text \<open>C14: \<open>ReapPrefixCandidates\<close> lists exactly the tracked outputs that have expired at the height, in
  canonical order, cut at the limit.\<close>

theorem prefix_candidates_exact:
  assumes "index_rep db M" and "\<not> idx_disabled idx" and "0 < limit" and "0 \<le> h"
  shows "\<exists>cs. ReapPrefixCandidates idx h limit db = Inr (take (nat limit) cs)
    \<and> set cs = {c \<in> candidates_of M. cand_ExpiryKey c \<le> of_int h} \<and> canonical_order cs"
  by (rule ReapPrefixCandidates_spec [OF assms]) blast

theorem prefix_candidates_exact_witness:
  "ReapPrefixCandidates ex_idx 300 7 ex_db = Inr [ex_cand]"
proof -
  obtain cs where cs: "ReapPrefixCandidates ex_idx 300 7 ex_db = Inr (take 7 cs)"
    "set cs = {c \<in> candidates_of ex_map. cand_ExpiryKey c \<le> of_int 300}" "canonical_order cs"
    using prefix_candidates_exact [OF ex_index_rep, of ex_idx 7 300] by auto
  have "distinct cs" by (rule canonical_distinct [OF cs(3)])
  moreover have "set cs = {ex_cand}" using cs(2) ex_cands(1) by simp
  ultimately have "cs = [ex_cand]" by (cases cs; cases "tl cs") auto
  then show ?thesis using cs(1) by simp
qed

text \<open>C15: \<open>ScanExpiringUTXOs\<close> pages without loss or repetition.  A page holds the first outputs of the
  range in scan order and says whether there are more; the page that starts after its last output
  holds the ones that follow.\<close>

theorem scan_pages_exact:
  assumes "index_rep db M" and "\<not> idx_disabled idx" and "0 < n"
    and "ScanExpiringUTXOs idx fromKey toKey n startAfter db = Inr (page, hasMore)"
  shows "\<exists>xs. set xs = {x \<in> entries_of M. in_scan fromKey toKey startAfter x} \<and> sorted_wrt scan_less xs
    \<and> page = take (nat n) xs \<and> hasMore = (nat n < length xs)
    \<and> (hasMore \<longrightarrow> ScanExpiringUTXOs idx (exp_ExpiryKey (last page)) toKey n (Some (exp_OutPoint (last page))) db =
         Inr (take (nat n) (drop (nat n) xs), nat n < length (drop (nat n) xs)))"
proof -
  obtain xs where xs: "ScanExpiringUTXOs idx fromKey toKey n startAfter db = Inr (take (nat n) xs, nat n < length xs)"
    "set xs = {x \<in> entries_of M. in_scan fromKey toKey startAfter x}" "sorted_wrt scan_less xs"
    by (rule ScanExpiringUTXOs_spec [OF assms(1-3)])
  have p: "page = take (nat n) xs" "hasMore = (nat n < length xs)" using xs(1) assms(4) by auto
  show ?thesis
  proof (cases hasMore)
    case True
    then have "ScanExpiringUTXOs idx fromKey toKey n startAfter db = Inr (page, True)" using assms(4) by simp
    then obtain ys where ys: "set ys = {x \<in> entries_of M. in_scan fromKey toKey startAfter x}" "sorted_wrt scan_less ys"
      "ScanExpiringUTXOs idx (exp_ExpiryKey (last page)) toKey n (Some (exp_OutPoint (last page))) db =
        Inr (take (nat n) (drop (nat n) ys), nat n < length (drop (nat n) ys))"
      by (rule ScanExpiringUTXOs_resume [OF assms(1-3)])
    then have "ys = xs" using xs(2,3) scan_sorted_unique by blast
    then show ?thesis using xs p ys(3) by blast
  next
    case False
    then show ?thesis using xs p by blast
  qed
qed

theorem scan_pages_exact_witness:
  "\<exists>page hasMore. ScanExpiringUTXOs ex_idx 0 300 5 None ex_db = Inr (page, hasMore)
    \<and> (\<exists>xs. set xs = {x \<in> entries_of ex_map. in_scan 0 300 None x} \<and> page = take 5 xs)"
proof -
  obtain xs where "ScanExpiringUTXOs ex_idx 0 300 5 None ex_db = Inr (take (nat 5) xs, nat 5 < length xs)"
    by (rule ScanExpiringUTXOs_spec [OF ex_index_rep, of ex_idx 5 0 300 None]) auto
  from scan_pages_exact [OF ex_index_rep _ _ this] this show ?thesis by auto
qed

text \<open>C16: the page loop of the scanning selector terminates on the index and collects every tracked
  output of the range that is unspent in the view, whatever the page size.\<close>

theorem page_loop_terminates:
  assumes "index_rep db M" and "\<not> idx_disabled idx" and "0 < batch"
    and "set xs = {x \<in> entries_of M. in_scan fromKey toKey startAfter x}" and "sorted_wrt scan_less xs"
  shows "\<exists>k. scanPages (\<lambda>_. False) (\<lambda>f t m s. ScanExpiringUTXOs idx f t m s db) view batch toKey i fromKey startAfter found
    = Some (Inr (found @ liveCandidates view xs, k))"
  by (rule scanPages_index [OF assms])

theorem page_loop_terminates_witness:
  "\<exists>k. scanPages (\<lambda>_. False) (\<lambda>f t m s. ScanExpiringUTXOs ex_idx f t m s ex_db) ex_view 1 300 0 0 None []
    = Some (Inr (liveCandidates ex_view [\<lparr>exp_OutPoint = ex_op, exp_ExpiryKey = 264\<rparr>], k))"
proof -
  have "(264 :: u64) \<le> 300" by (simp add: word_le_nat_alt)
  then have "set [\<lparr>exp_OutPoint = ex_op, exp_ExpiryKey = 264\<rparr>] = {x \<in> entries_of ex_map. in_scan 0 300 None x}"
    by (auto simp: entries_of_def in_scan_def ex_map_def split: if_splits)
  from page_loop_terminates [OF ex_index_rep _ _ this, of ex_idx 1 ex_view 0 "[]"] show ?thesis by simp
qed

text \<open>\<open>GetStats\<close> counts the tracked outputs and the distinct expiry keys among them.\<close>

theorem stats_exact:
  assumes "index_inv db M mh tipHash tip" and "\<not> idx_disabled idx"
  shows "GetStats idx db = Inr \<lparr>stats_Disabled = False, stats_TipHeight = tip,
    stats_TotalUTXOs = card (dom M), stats_TotalExpiryKeys = card (fst ` ran M)\<rparr>"
  using GetStats_spec [of db M idx tip] assms by (auto simp: index_inv_def snapshot_is_def)

theorem stats_exact_witness:
  "GetStats ex_idx ex_db = Inr \<lparr>stats_Disabled = False, stats_TipHeight = 299, stats_TotalUTXOs = 1, stats_TotalExpiryKeys = 1\<rparr>"
proof -
  obtain mh where i: "index_inv ex_db ex_map mh (BlockHash ex_block) 299" using ex_db(2) by blast
  have "fst ` ran ex_map = {264}" by (auto simp: ex_map_def ran_def)
  then show ?thesis using stats_exact [OF i, of ex_idx] by (simp add: ex_map_def)
qed

section \<open>Rebuilding the index\<close>

text \<open>C17: the fast rebuild replaces whatever the buckets held by the index of the UTXO set it
  iterates, batch by batch, at the chain tip.\<close>

theorem fast_rebuild_correct:
  assumes "wf_db db" and "utxo_iteration c = (us, None)" and "utxos_ok idx us"
    and "rebuild_tip c height h" and "is_int32 height"
  shows "\<exists>db' mh. fastRebuildFromUTXO (Some c) height (idx, db) = ((idx\<lparr>idx_curTipHeight := height\<rparr>, db'), None)
    \<and> index_inv db' (utxo_map idx us) mh h height \<and> denominator mh = 1"
  by (rule fastRebuildFromUTXO_ok [OF assms])

theorem fast_rebuild_correct_witness:
  "\<exists>db' mh. fastRebuildFromUTXO (Some ex_chain) 299 (ex_idx, ex_db0) = ((ex_idx\<lparr>idx_curTipHeight := 299\<rparr>, db'), None)
    \<and> index_inv db' ex_map mh (BlockHash ex_block) 299"
  using fast_rebuild_correct [OF ex_rebuild_facts(1,2) ex_utxos_ok ex_rebuild_facts(3,4)] by (auto simp: ex_utxo_map)

text \<open>C18: a rebuild that fails, at any output or at the end, leaves the empty index, never a part of
  one that looks complete.\<close>

theorem failed_rebuild_is_empty:
  assumes "wf_db db" and "fastRebuildFromUTXO (Some c) height (idx, db) = ((idx', db'), Some e)"
  shows "index_inv db' Map.empty NewMuHash 0 (-1) \<and> idx' = idx\<lparr>idx_curTipHeight := -1\<rparr>"
  by (rule fastRebuildFromUTXO_error [OF assms])

theorem failed_rebuild_is_empty_witness:
  "\<exists>idx' db' e. fastRebuildFromUTXO (Some (ex_chain\<lparr>ForEachUTXOWithAmount := Some ([(ex_op, 120, 100000)], Some ErrPanic)\<rparr>))
      299 (ex_idx, ex_db) = ((idx', db'), Some e)
    \<and> index_inv db' Map.empty NewMuHash 0 (-1)"
proof -
  have wf: "wf_db ex_db" using ex_db(2) index_inv_wf_db by blast
  show ?thesis
    using ex_failing_rebuild failed_rebuild_is_empty [OF wf] by blast
qed

text \<open>C19: an explicit reindex of any database, with any of the buckets missing, leaves all of them in
  place, empty, with the identity accumulator and the current version.\<close>

theorem reindex_resets:
  assumes "partial_db db"
  shows "\<exists>db'. ReindexExpiryIndex db = Inr db' \<and> index_inv db' Map.empty NewMuHash 0 (-1)
    \<and> dbGetIndexVersion db' = Inr CurrentIndexVersion"
  by (rule ReindexExpiryIndex_ok [OF assms]) blast

theorem reindex_resets_witness:
  "\<exists>db'. ReindexExpiryIndex no_buckets = Inr db' \<and> index_inv db' Map.empty NewMuHash 0 (-1)
    \<and> dbGetIndexVersion db' = Inr CurrentIndexVersion"
  by (rule reindex_resets [OF partial_no_buckets])

section \<open>The UTXO set, its cache and its storage\<close>

text \<open>C28: a block is undone exactly from the journal the database stored.  The journal that connecting
  a block writes is read back from the database as it was, and disconnecting the block with it gives
  the UTXO set from before, with every amount, script, height and coinbase flag.\<close>

theorem reorg_from_stored_journal:
  assumes "sound_parser parse" and "connectTransactions block (view, []) = Inr (view', stxos)"
    and "block_connectable block (overlay (entries view) U)" and "Transactions block = cb # txs"
    and "\<forall>stxo \<in> set stxos. wf_stxo stxo"
  shows "overlay (entries view') U = utxo_block block (overlay (entries view) U)
    \<and> (\<exists>db'. dbPutSpendJournalEntry parse (BlockHash block) stxos db = Inr db'
        \<and> dbFetchSpendJournalEntry parse block db' = Inr stxos
        \<and> (\<exists>w. disconnectTransactions parse db' block stxos view' = Inr w
             \<and> overlay (entries w) U = overlay (entries view) U \<and> bestHash w = PrevBlock (Header block)))"
proof -
  have len: "length stxos = sum_list (map (\<lambda>tx. length (TxIn tx)) txs)"
    by (rule connectTransactions_journal_length [OF assms(2,3,4)])
  show ?thesis
    using dbFetch_dbPutSpendJournalEntry [OF assms(1,5,4) len, of db]
      disconnect_connect_view [OF assms(2,3) _ refl] assms(4) by auto
qed

theorem reorg_from_stored_journal_witness:
  "\<exists>view' db' w. connectTransactions ex_block2 (ex_view2, []) = Inr (view', [stxo_of ex_coin])
    \<and> dbFetchSpendJournalEntry ex_parse ex_block2 db' = Inr [stxo_of ex_coin]
    \<and> disconnectTransactions ex_parse db' ex_block2 [stxo_of ex_coin] view' = Inr w
    \<and> overlay (entries w) Map.empty = [ex_prev \<mapsto> (1000, [OP_1], 50, False)]"
proof -
  obtain view' where v: "connectTransactions ex_block2 (ex_view2, []) = Inr (view', [stxo_of ex_coin])"
    using ex_connect_view2 by blast
  have e: "overlay (entries ex_view2) Map.empty = [ex_prev \<mapsto> (1000, [OP_1], 50, False)]"
    by (simp add: ex_view2_def ex_set_abs)
  show ?thesis
    using reorg_from_stored_journal [OF sound_ex_parse v, of Map.empty ex_coinbase "[ex_spend]" ex_empty_cdb] ex_connectable
      ex_wf_stxo v by (auto simp: e)
qed

text \<open>C29: the cache and the database together are the UTXO set.  Connecting a block to the cache
  succeeds, gives the set the specification gives and the journal the view writes; flushing in any
  mode and any map order changes nothing of the set, and after a required flush the database alone
  holds it, marked with the block it belongs to.\<close>

theorem cache_refines_set:
  assumes "sound_parser parse" and "cache_inv parse c db D" and "block_connectable block (cache_set c D)"
    and "new_to block D" and "\<forall>m. mset (order m) = mset m"
  shows "\<exists>c' stxos c'' db'' D''. cache_connectTransactions parse db block (c, []) = Inr (c', stxos)
    \<and> cache_inv parse c' db D \<and> cache_set c' D = utxo_block block (cache_set c D)
    \<and> flush parse order elapsed mode (BlockHash block) (c', db) = Inr (c'', db'')
    \<and> cache_inv parse c'' db'' D'' \<and> cache_set c'' D'' = utxo_block block (cache_set c D)
    \<and> (mode = FlushRequired \<longrightarrow> db_set D'' = utxo_block block (cache_set c D)
         \<and> dbFetchUtxoStateConsistency db'' = Some (hash_bytes (BlockHash block)))"
proof -
  obtain c' stxos where c': "cache_connectTransactions parse db block (c, []) = Inr (c', stxos)" "cache_inv parse c' db D"
    "cache_set c' D = utxo_block block (cache_set c D)"
    using cache_connect_refines [OF assms(2-4)] by blast
  have req: "flush parse order elapsed FlushRequired (BlockHash block) (c', db) = writeCache parse order (BlockHash block) (c', db)"
    by (simp add: flush_def)
  show ?thesis
  proof (cases "mode = FlushRequired")
    case True
    obtain c'' db'' D'' where w: "writeCache parse order (BlockHash block) (c', db) = Inr (c'', db'')" "cache_inv parse c'' db'' D''"
      "\<forall>op. ms_get op (cachedEntries c'') = None" "db_set D'' = cache_set c' D"
      "dbFetchUtxoStateConsistency db'' = Some (hash_bytes (BlockHash block))"
      using writeCache_keeps [OF assms(1) c'(2) assms(5)] by blast
    then have "cache_set c'' D'' = cache_set c' D" by (simp add: cache_set_def ms.stands_for_def fun_eq_iff)
    then show ?thesis using c' w req True by auto
  next
    case False
    then show ?thesis
      using c' flush_keeps [OF assms(1) c'(2) assms(5), of elapsed mode "BlockHash block"] by metis
  qed
qed

theorem cache_refines_set_witness:
  "\<exists>c' stxos c'' db'' D''. cache_connectTransactions ex_parse ex_cdb ex_block2 (newUtxoCache 0, []) = Inr (c', stxos)
    \<and> flush ex_parse rev False FlushRequired (BlockHash ex_block2) (c', ex_cdb) = Inr (c'', db'')
    \<and> db_set D'' = utxo_block ex_block2 [ex_prev \<mapsto> (1000, [OP_1], 50, False)] \<and> utxo_rep ex_parse db'' D''"
  using cache_refines_set [OF sound_ex_parse ex_cache_inv(1) [of 0], of ex_block2 rev False FlushRequired] ex_connectable ex_new_to
  by (auto simp: ex_cache_inv ex_set_abs cache_inv_def)

text \<open>C30: an unclean shutdown loses nothing.  Whatever blocks of a valid chain a node has connected,
  and whenever it flushed, a node that starts again with an empty cache on the database it left and
  reconnects the blocks after the last flush succeeds and has the UTXO set it had before.\<close>

theorem crash_loses_nothing:
  assumes "sound_parser parse" and "valid_chain bs U" and "cache_inv parse c0 db0 D0"
    and "cache_set c0 D0 = U" and "db_set D0 = U"
    and "node_run parse bs (c0, db0) (c, db) n k" and "\<forall>m. mset (order m) = mset m"
  shows "\<exists>D c' db' D'. cache_inv parse c db D
    \<and> fold_r (reconnectBlock parse order) (drop k (take n bs)) (newUtxoCache mem, db) = Inr (c', db')
    \<and> cache_inv parse c' db' D' \<and> cache_set c' D' = cache_set c D"
  using crash_recovery [OF assms, of mem] by metis

theorem crash_loses_nothing_witness:
  "\<exists>c c' db' D'. node_run ex_parse [ex_block2] (newUtxoCache 0, ex_cdb) (c, ex_cdb) 1 0
    \<and> fold_r (reconnectBlock ex_parse rev) [ex_block2] (newUtxoCache 5, ex_cdb) = Inr (c', db') \<and> cache_inv ex_parse c' db' D'"
proof -
  obtain c stxos where "cache_connectTransactions ex_parse ex_cdb ex_block2 (newUtxoCache 0, []) = Inr (c, stxos)"
    using cache_connect_refines [OF ex_cache_inv(1) _ ex_new_to, of 0] ex_connectable by (auto simp: ex_cache_inv ex_set_abs)
  then have r: "node_run ex_parse [ex_block2] (newUtxoCache 0, ex_cdb) (c, ex_cdb) (Suc 0) 0"
    using node_run.connect [OF node_run.start, of "[ex_block2]" ex_parse ex_cdb "newUtxoCache 0"] by simp
  then show ?thesis
    using crash_loses_nothing [OF sound_ex_parse ex_valid_chain ex_cache_inv(1) [of 0] _ _ r, of rev 5] ex_cache_inv(2) [of 0] by auto
qed

text \<open>C31: a journal entry of the legacy format, one without a height, is restored with the height of the
  wrong block, or not at all.  Disconnecting a transaction other than the coinbase searches the
  outputs of that transaction for the height, not those of the transaction that created the spent
  output.  The transaction may have any inputs, as long as they are distinct and none is an output of
  its own, and any outputs that fit into a block; the journal may mix entries with and without a
  height; entries the view already holds for its outputs belong to the same block.  If one of its outputs is spendable, every input
  is restored, those without a height as ordinary outputs of the block being disconnected.  If none is
  and neither the view nor the database has an entry under its hash, one entry without a height makes
  the disconnect fail with an assertion.\<close>

theorem legacy_stxo_takes_spender_height:
  assumes "i \<noteq> 0" and "length stxos = length (TxIn tx)" and "distinct (map PreviousOutPoint (TxIn tx))"
    and "\<forall>ti \<in> set (TxIn tx). not_own tx (PreviousOutPoint ti)" and "length (TxOut tx) \<le> MaxOutputsPerBlock"
    and "own_entries_at h tx view"
  shows "((\<exists>out \<in> set (TxOut tx). \<not> IsUnspendable (PkScript out)) \<longrightarrow>
      (\<exists>view'. disconnectTransaction parse db h (i, tx) (view, rev stxos @ rest) = Inr (view', rest)
        \<and> (\<forall>j < length (TxIn tx). \<exists>e. entries view' (PreviousOutPoint (TxIn tx ! j)) = Some e \<and> \<not> IsSpent e
            \<and> amount e = st_Amount (stxos ! j) \<and> pkScript e = st_PkScript (stxos ! j)
            \<and> (if st_Height (stxos ! j) = 0 then blockHeight e = h \<and> \<not> IsCoinBase e
               else blockHeight e = st_Height (stxos ! j) \<and> IsCoinBase e = st_IsCoinBase (stxos ! j)))))
    \<and> ((\<forall>out \<in> set (TxOut tx). IsUnspendable (PkScript out))
      \<and> (\<forall>k < MaxOutputsPerBlock. entries view (out_op tx k) = None)
      \<and> dbFetchUtxoEntryByHash parse (TxHash tx) db = Inr None
      \<and> (\<exists>stxo \<in> set stxos. st_Height stxo = 0) \<longrightarrow>
        disconnectTransaction parse db h (i, tx) (view, rev stxos @ rest) = Inl ErrIoAssert)"
proof (intro conjI impI)
  assume "\<exists>out \<in> set (TxOut tx). \<not> IsUnspendable (PkScript out)"
  then obtain k where k: "k < length (TxOut tx)" "\<not> IsUnspendable (PkScript (TxOut tx ! k))"
    by (auto simp: in_set_conv_nth)
  from legacy_disconnect [OF assms(1-4,6) k(1) _ k(2), of parse db rest] k(1) assms(5)
  show "\<exists>view'. disconnectTransaction parse db h (i, tx) (view, rev stxos @ rest) = Inr (view', rest)
        \<and> (\<forall>j < length (TxIn tx). \<exists>e. entries view' (PreviousOutPoint (TxIn tx ! j)) = Some e \<and> \<not> IsSpent e
            \<and> amount e = st_Amount (stxos ! j) \<and> pkScript e = st_PkScript (stxos ! j)
            \<and> (if st_Height (stxos ! j) = 0 then blockHeight e = h \<and> \<not> IsCoinBase e
               else blockHeight e = st_Height (stxos ! j) \<and> IsCoinBase e = st_IsCoinBase (stxos ! j)))"
    by fastforce
next
  assume "(\<forall>out \<in> set (TxOut tx). IsUnspendable (PkScript out))
      \<and> (\<forall>k < MaxOutputsPerBlock. entries view (out_op tx k) = None)
      \<and> dbFetchUtxoEntryByHash parse (TxHash tx) db = Inr None \<and> (\<exists>stxo \<in> set stxos. st_Height stxo = 0)"
  then show "disconnectTransaction parse db h (i, tx) (view, rev stxos @ rest) = Inl ErrIoAssert"
    using legacy_disconnect_fails [OF assms(1,2,4), of view parse db h rest] by blast
qed

theorem legacy_stxo_takes_spender_height_witness:
  "(\<exists>view'. disconnectTransaction ex_parse ex_empty_cdb 105 (1, ex_spend2 [OP_1]) (empty_view, rev ex_legacy) = Inr (view', [])
      \<and> (\<exists>e. entries view' \<lparr>Hash = 7, Index = 200000\<rparr> = Some e \<and> blockHeight e = 105)
      \<and> (\<exists>e. entries view' \<lparr>Hash = 7, Index = 200001\<rparr> = Some e \<and> blockHeight e = 50))
    \<and> disconnectTransaction ex_parse ex_empty_cdb 105 (1, ex_spend2 [OP_RETURN]) (empty_view, rev ex_legacy) = Inl ErrIoAssert"
proof -
  have v: "own_entries_at 105 tx empty_view" for tx by (simp add: own_entries_at_def empty_view_def)
  have d: "dbFetchUtxoEntryByHash ex_parse g ex_empty_cdb = Inr None" for g
    by (simp add: dbFetchUtxoEntryByHash_def ex_empty_cdb_def cursor_Seek_def)
  note t = legacy_stxo_takes_spender_height [OF _ _ _ ex_spend2_own ex_spend2_outs v, of 1 ex_legacy _ ex_parse ex_empty_cdb "[]"]
  show ?thesis
    using t [of "[OP_1]"] t [of "[OP_RETURN]"] d
    by (fastforce simp: ex_spend2_def ex_legacy_def ex_coin_def stxo_of_def empty_view_def less_Suc_eq)
qed

end
